(* ===== verification/Prelude.thy ===== *)
theory Prelude
  imports Main "HOL-Library.Word"
begin

text \<open>
  Shared vocabulary of the development: the machine integers of the Intel 8080 (bytes and
  16-bit words), the split of a 16-bit word into its two bytes, and the arithmetic and
  bit-level lemmas about that split on which the correctness proofs of the pseudo expansions
  rest.  Collections: \<open>exec_simps\<close> (one equation per executed machine instruction),
  \<open>bytes\<close> (facts about the byte split), \<open>liveness\<close> (facts about the scans).
\<close>

unbundle bit_operations_syntax

named_theorems exec_simps "symbolic execution of machine instructions"
named_theorems bytes "the byte split of 16-bit words"
named_theorems liveness "forward and backward scans over a block"

type_synonym byte = "8 word"
type_synonym u16 = "16 word"

section \<open>Splitting 16-bit words into bytes\<close>

definition lo8 :: "u16 \<Rightarrow> byte" where
  "lo8 w = ucast w"

definition hi8 :: "u16 \<Rightarrow> byte" where
  "hi8 w = ucast (drop_bit 8 w)"

definition mk16 :: "byte \<Rightarrow> byte \<Rightarrow> u16" where
  "mk16 h l = push_bit 8 (ucast h) OR ucast l"

lemma bit_lo8 [bytes]: "bit (lo8 w) n \<longleftrightarrow> n < 8 \<and> bit w n"
  by (auto simp: lo8_def bit_simps)

lemma bit_hi8 [bytes]: "bit (hi8 w) n \<longleftrightarrow> n < 8 \<and> bit w (n + 8)"
  by (auto simp: hi8_def bit_simps add.commute)

lemma bit_mk16 [bytes]:
  "bit (mk16 h l) n \<longleftrightarrow> (if n < 8 then bit l n else bit h (n - 8))"
proof -
  have "bit h (n - 8) \<Longrightarrow> n < 16" if "8 \<le> n"
    using bit_imp_le_length [of h "n - 8"] that by simp
  moreover have "bit l n \<Longrightarrow> n < 8"
    using bit_imp_le_length [of l n] by simp
  ultimately show ?thesis
    by (auto simp: mk16_def bit_simps not_less)
qed

lemma lo8_mk16 [simp]: "lo8 (mk16 h l) = l"
  by (rule bit_word_eqI) (simp add: bit_lo8 bit_mk16)

lemma hi8_mk16 [simp]: "hi8 (mk16 h l) = h"
  by (rule bit_word_eqI) (simp add: bit_hi8 bit_mk16)

lemma mk16_hi8_lo8 [simp]: "mk16 (hi8 w) (lo8 w) = w"
  by (rule bit_word_eqI) (auto simp: bit_lo8 bit_hi8 bit_mk16)

lemma mk16_eq_iff [simp]: "mk16 h l = mk16 h' l' \<longleftrightarrow> h = h' \<and> l = l'"
  by (metis hi8_mk16 lo8_mk16)

lemma mk16_exhaust: obtains h l where "w = mk16 h l"
  using mk16_hi8_lo8 [of w] by metis

lemma mk16_eqI: "hi8 v = hi8 w \<Longrightarrow> lo8 v = lo8 w \<Longrightarrow> v = w"
  by (metis mk16_hi8_lo8)

lemma unat_byte_less [simp]: "unat (b :: byte) < 256"
  using unsigned_less [of b, where ?'a = nat] by simp

lemma unat_u16_less [simp]: "unat (w :: u16) < 65536"
  using unsigned_less [of w, where ?'a = nat] by simp

lemma unat_ucast_byte [simp]: "unat (ucast (b :: byte) :: u16) = unat b"
  by (simp add: unsigned_ucast_eq take_bit_nat_eq_self order.strict_trans [OF unat_byte_less])

lemma unat_mk16 [bytes]: "unat (mk16 h l) = 256 * unat h + unat l"
proof -
  have disj: "push_bit 8 (ucast h :: u16) AND ucast l = 0"
    by (rule bit_word_eqI) (auto simp: bit_simps dest: bit_imp_le_length)
  have "unat h < 256" by simp
  then have h: "unat (push_bit 8 (ucast h :: u16)) = 256 * unat h"
    by (simp add: push_bit_eq_mult unat_word_ariths)
  have "mk16 h l = push_bit 8 (ucast h) + ucast l"
    using disj by (simp add: mk16_def disjunctive_add_eq_or)
  moreover have "256 * unat h + unat l < 65536"
    using \<open>unat h < 256\<close> unat_byte_less [of l] by linarith
  ultimately show ?thesis
    using h \<open>unat h < 256\<close> by (simp add: unat_word_ariths)
qed

lemma unat_hi8 [bytes]: "unat (hi8 w) = unat w div 256"
proof -
  obtain h l where w: "w = mk16 h l" by (rule mk16_exhaust)
  then show ?thesis by (simp add: unat_mk16)
qed

lemma unat_lo8 [bytes]: "unat (lo8 w) = unat w mod 256"
proof -
  obtain h l where w: "w = mk16 h l" by (rule mk16_exhaust)
  then show ?thesis by (simp add: unat_mk16)
qed


lemma unat_byte_eqI: "unat a = unat b \<Longrightarrow> a = (b :: byte)"
  by (simp add: word_unat_eq_iff)

lemma unat_add_byte: "unat (a + b :: byte) = (unat a + unat b) mod 256"
  by (simp add: unat_word_ariths)

lemma unat_add_u16: "unat (v + w :: u16) = (unat v + unat w) mod 65536"
  by (simp add: unat_word_ariths)

lemma mod_256_once: "p < 512 \<Longrightarrow> p mod 256 = (if p < 256 then p else p - 256)" for p :: nat
  by (simp add: le_mod_geq)

lemma unat_sub_byte: "unat (a - b :: byte) = (unat a + 256 - unat b) mod 256"
proof (cases "b \<le> a")
  case True
  then have "unat (a - b) = unat a - unat b" and "unat b \<le> unat a"
    by (simp_all add: unat_sub word_le_nat_alt)
  moreover have "unat a + 256 - unat b < 512"
    using unat_byte_less [of a] by linarith
  ultimately show ?thesis
    using unat_byte_less [of a] by (auto simp: mod_256_once)
next
  case False
  then have "unat a < unat b" by (simp add: word_le_nat_alt)
  then show ?thesis
    using unat_byte_less [of a] unat_byte_less [of b] by (simp add: unat_sub_if')
qed

section \<open>16-bit arithmetic and logic, byte by byte\<close>

lemma lo8_add [bytes]: "lo8 (v + w) = lo8 v + lo8 w"
proof (rule unat_byte_eqI)
  have "(unat v + unat w) mod 65536 mod 256 = (unat v mod 256 + unat w mod 256) mod 256"
    by (simp add: mod_mod_cancel mod_add_eq)
  then show "unat (lo8 (v + w)) = unat (lo8 v + lo8 w)"
    by (simp add: unat_lo8 unat_add_byte unat_add_u16)
qed

lemma mod_65536_div_256: "x mod 65536 div 256 = x div 256 mod 256" for x :: nat
  using mod_mult2_eq [of x 256 256] by simp

lemma hi8_add [bytes]:
  "hi8 (v + w) = hi8 v + hi8 w + of_bool (256 \<le> unat (lo8 v) + unat (lo8 w))"
proof (rule unat_byte_eqI)
  define m n where "m = unat v" and "n = unat w"
  have carry: "(m mod 256 + n mod 256) div 256 = of_bool (256 \<le> m mod 256 + n mod 256)"
  proof -
    have "m mod 256 + n mod 256 < 512"
      using mod_less_divisor [of 256 m] mod_less_divisor [of 256 n] by linarith
    then show ?thesis by (cases "256 \<le> m mod 256 + n mod 256") auto
  qed
  have "(m + n) mod 65536 div 256 = (m div 256 + n div 256
      + of_bool (256 \<le> m mod 256 + n mod 256)) mod 256"
    by (simp add: mod_65536_div_256 div_add1_eq [of m n] carry)
  then show "unat (hi8 (v + w))
      = unat (hi8 v + hi8 w + of_bool (256 \<le> unat (lo8 v) + unat (lo8 w)))"
    by (cases "256 \<le> m mod 256 + n mod 256")
      (simp_all add: unat_hi8 unat_lo8 unat_add_byte unat_add_u16 m_def [symmetric]
        n_def [symmetric] mod_simps)
qed

lemma lo8_sub [bytes]: "lo8 (v - w) = lo8 v - lo8 w"
  using lo8_add [of "v - w" w] by simp

lemma hi8_sub [bytes]:
  "hi8 (v - w) = hi8 v - hi8 w - of_bool (unat (lo8 v) < unat (lo8 w))"
proof -
  have lo: "lo8 v = lo8 (v - w) + lo8 w"
    using lo8_add [of "v - w" w] by simp
  have "hi8 v = hi8 (v - w) + hi8 w + of_bool (256 \<le> unat (lo8 (v - w)) + unat (lo8 w))"
    using hi8_add [of "v - w" w] by simp
  moreover have "256 \<le> unat (lo8 (v - w)) + unat (lo8 w) \<longleftrightarrow> unat (lo8 v) < unat (lo8 w)"
  proof -
    define p q where "p = unat (lo8 (v - w))" and "q = unat (lo8 w)"
    have pq: "p < 256" "q < 256" by (simp_all add: p_def q_def)
    have "unat (lo8 v) = (p + q) mod 256"
      by (simp add: lo unat_add_byte p_def q_def)
    then have "unat (lo8 v) = (if p + q < 256 then p + q else p + q - 256)"
      using pq by (simp add: mod_256_once)
    then show ?thesis using pq by (auto simp flip: p_def q_def)
  qed
  ultimately show ?thesis by (simp add: algebra_simps)
qed

lemma lo8_and [bytes]: "lo8 (v AND w) = lo8 v AND lo8 w"
  and lo8_or [bytes]: "lo8 (v OR w) = lo8 v OR lo8 w"
  and lo8_xor [bytes]: "lo8 (v XOR w) = lo8 v XOR lo8 w"
  and hi8_and [bytes]: "hi8 (v AND w) = hi8 v AND hi8 w"
  and hi8_or [bytes]: "hi8 (v OR w) = hi8 v OR hi8 w"
  and hi8_xor [bytes]: "hi8 (v XOR w) = hi8 v XOR hi8 w"
  by (auto simp: bit_eq_iff bit_lo8 bit_hi8 bit_simps)

lemma lo8_zero [simp]: "lo8 0 = 0" and hi8_zero [simp]: "hi8 0 = 0"
  by (simp_all add: lo8_def hi8_def)

lemma lo8_word_of_int: "lo8 (word_of_int i) = word_of_int i"
  by (rule bit_word_eqI) (auto simp: bit_lo8 bit_simps)

lemma word_of_int_mod_byte: "(word_of_int (i mod 256) :: byte) = word_of_int i"
  by (simp add: word_of_int_eq_iff take_bit_eq_mod)

lemma hi8_word_of_int: "hi8 (word_of_int i) = word_of_int (i div 256)"
proof -
  have "i div 256 = drop_bit 8 i" by (simp add: drop_bit_eq_div)
  then show ?thesis by (simp only:) (rule bit_word_eqI, auto simp: bit_hi8 bit_simps ac_simps)
qed

end
