(* ===== verification/I8080.thy ===== *)
theory I8080
  imports Prelude
begin

text \<open>
  The target machine.  The registers and their sub-register structure are those of
  V6ClangRegisterInfo.td; the machine state, the flag computations and the arithmetic of the
  accumulator follow the Intel 8080 programming model that the instruction definitions
  (V6ClangInstrInfo.td) and docs/V6ClangInstructionTimings.md describe.  The machine state is
  the reference against which the generated code is judged; it is not part of the compiler.
\<close>

section \<open>Registers (V6ClangRegisterInfo.td)\<close>

datatype (plugins only: code size) preg =
  B | C | D | E | H | L | A | FLAGS | BC | DE | HL | PSW | SP | PC

datatype (plugins only: code size) subreg_index = sub_lo | sub_hi

fun getSubReg :: "preg \<Rightarrow> subreg_index \<Rightarrow> preg option" where
  "getSubReg BC sub_lo = Some C"
| "getSubReg BC sub_hi = Some B"
| "getSubReg DE sub_lo = Some E"
| "getSubReg DE sub_hi = Some D"
| "getSubReg HL sub_lo = Some L"
| "getSubReg HL sub_hi = Some H"
| "getSubReg PSW sub_lo = Some FLAGS"
| "getSubReg PSW sub_hi = Some A"
| "getSubReg _ _ = None"

definition subregs :: "preg \<Rightarrow> preg list" where
  "subregs r = (case (getSubReg r sub_lo, getSubReg r sub_hi) of
     (Some l, Some h) \<Rightarrow> [l, h] | _ \<Rightarrow> [])"

text \<open>The register units of a register: the leaves of its sub-register tree.\<close>

definition regunits :: "preg \<Rightarrow> preg list" where
  "regunits r = (if subregs r = [] then [r] else subregs r)"

definition regsOverlap :: "preg \<Rightarrow> preg \<Rightarrow> bool" where
  "regsOverlap r q = list_ex (\<lambda>u. List.member (regunits q) u) (regunits r)"

definition isSubRegister :: "preg \<Rightarrow> preg \<Rightarrow> bool" where
  "isSubRegister r q = List.member (subregs r) q"

fun GR8 :: "preg \<Rightarrow> bool" where
  "GR8 A = True" | "GR8 L = True" | "GR8 H = True" | "GR8 E = True"
| "GR8 D = True" | "GR8 C = True" | "GR8 B = True" | "GR8 _ = False"

fun GR16 :: "preg \<Rightarrow> bool" where
  "GR16 HL = True" | "GR16 DE = True" | "GR16 BC = True" | "GR16 _ = False"

fun GR16All :: "preg \<Rightarrow> bool" where
  "GR16All SP = True" | "GR16All r = GR16 r"

fun GR16Idx :: "preg \<Rightarrow> bool" where
  "GR16Idx BC = True" | "GR16Idx DE = True" | "GR16Idx _ = False"

fun GR16Stack :: "preg \<Rightarrow> bool" where
  "GR16Stack PSW = True" | "GR16Stack r = GR16 r"

text \<open>The halves of a pair, for pairs only (\<open>RI.getSubReg\<close> of a \<open>GR16\<close> register).\<close>

fun subHi :: "preg \<Rightarrow> preg" where
  "subHi BC = B" | "subHi DE = D" | "subHi HL = H" | "subHi PSW = A" | "subHi r = r"

fun subLo :: "preg \<Rightarrow> preg" where
  "subLo BC = C" | "subLo DE = E" | "subLo HL = L" | "subLo PSW = FLAGS" | "subLo r = r"

lemma getSubReg_halves:
  "GR16 r \<Longrightarrow> getSubReg r sub_hi = Some (subHi r)"
  "GR16 r \<Longrightarrow> getSubReg r sub_lo = Some (subLo r)"
  by (cases r; simp)+

lemma GR16_cases [elim!]:
  "GR16 r \<Longrightarrow> (r = BC \<Longrightarrow> P) \<Longrightarrow> (r = DE \<Longrightarrow> P) \<Longrightarrow> (r = HL \<Longrightarrow> P) \<Longrightarrow> P"
  by (cases r) auto

lemma GR8_cases:
  "GR8 r \<Longrightarrow> (r = A \<Longrightarrow> P) \<Longrightarrow> (r = B \<Longrightarrow> P) \<Longrightarrow> (r = C \<Longrightarrow> P) \<Longrightarrow> (r = D \<Longrightarrow> P)
    \<Longrightarrow> (r = E \<Longrightarrow> P) \<Longrightarrow> (r = H \<Longrightarrow> P) \<Longrightarrow> (r = L \<Longrightarrow> P) \<Longrightarrow> P"
  by (cases r) auto

lemma regsOverlap_code [simp]:
  "regsOverlap r q \<longleftrightarrow> (\<exists>u \<in> set (regunits r). u \<in> set (regunits q))"
  by (auto simp: regsOverlap_def list_ex_iff List.member_iff)

lemma isSubRegister_code [simp]: "isSubRegister r q \<longleftrightarrow> q \<in> set (subregs r)"
  by (simp add: isSubRegister_def List.member_iff)

lemma subregs_simps [simp]:
  "subregs BC = [C, B]" "subregs DE = [E, D]" "subregs HL = [L, H]" "subregs PSW = [FLAGS, A]"
  "subregs A = []" "subregs B = []" "subregs C = []" "subregs D = []" "subregs E = []"
  "subregs H = []" "subregs L = []" "subregs FLAGS = []" "subregs SP = []" "subregs PC = []"
  by (simp_all add: subregs_def)

lemma regunits_simps [simp]:
  "regunits BC = [C, B]" "regunits DE = [E, D]" "regunits HL = [L, H]"
  "regunits PSW = [FLAGS, A]" "regunits A = [A]" "regunits B = [B]" "regunits C = [C]"
  "regunits D = [D]" "regunits E = [E]" "regunits H = [H]" "regunits L = [L]"
  "regunits FLAGS = [FLAGS]" "regunits SP = [SP]" "regunits PC = [PC]"
  by (simp_all add: regunits_def)

section \<open>Machine state\<close>

record flags =
  fS :: bool
  fZ :: bool
  fAC :: bool
  fP :: bool
  fCY :: bool

datatype (plugins only: code size) io_event = IoIn byte | IoOut byte byte

record cpu =
  r8 :: "preg \<Rightarrow> byte"
  fl :: flags
  sp :: u16
  mem :: "u16 \<Rightarrow> byte"
  inte :: bool
  iolog :: "io_event list"

text \<open>Pairs are views on two byte registers; \<open>PSW\<close> packs the accumulator and the flags.\<close>

definition pack_flags :: "flags \<Rightarrow> byte" where
  "pack_flags f = push_bit 7 (of_bool (fS f)) OR push_bit 6 (of_bool (fZ f))
     OR push_bit 4 (of_bool (fAC f)) OR push_bit 2 (of_bool (fP f)) OR 2 OR of_bool (fCY f)"

definition unpack_flags :: "byte \<Rightarrow> flags" where
  "unpack_flags b = \<lparr>fS = bit b 7, fZ = bit b 6, fAC = bit b 4, fP = bit b 2, fCY = bit b 0\<rparr>"

lemma unpack_pack [simp]: "unpack_flags (pack_flags f) = f"
  by (cases f) (auto simp: unpack_flags_def pack_flags_def bit_simps)

definition setR :: "preg \<Rightarrow> byte \<Rightarrow> cpu \<Rightarrow> cpu" where
  "setR r v s = s\<lparr>r8 := (r8 s)(r := v)\<rparr>"

fun getP :: "preg \<Rightarrow> cpu \<Rightarrow> u16" where
  "getP SP s = sp s"
| "getP PSW s = mk16 (r8 s A) (pack_flags (fl s))"
| "getP r s = mk16 (r8 s (subHi r)) (r8 s (subLo r))"

fun setP :: "preg \<Rightarrow> u16 \<Rightarrow> cpu \<Rightarrow> cpu" where
  "setP SP w s = s\<lparr>sp := w\<rparr>"
| "setP PSW w s = s\<lparr>r8 := (r8 s)(A := hi8 w), fl := unpack_flags (lo8 w)\<rparr>"
| "setP r w s = s\<lparr>r8 := (r8 s)(subHi r := hi8 w, subLo r := lo8 w)\<rparr>"

definition load16 :: "u16 \<Rightarrow> cpu \<Rightarrow> u16" where
  "load16 a s = mk16 (mem s (a + 1)) (mem s a)"

definition store8 :: "u16 \<Rightarrow> byte \<Rightarrow> cpu \<Rightarrow> cpu" where
  "store8 a v s = s\<lparr>mem := (mem s)(a := v)\<rparr>"

definition store16 :: "u16 \<Rightarrow> u16 \<Rightarrow> cpu \<Rightarrow> cpu" where
  "store16 a w s = s\<lparr>mem := (mem s)(a := lo8 w, a + 1 := hi8 w)\<rparr>"

definition push16 :: "u16 \<Rightarrow> cpu \<Rightarrow> cpu" where
  "push16 w s = s\<lparr>sp := sp s - 2, mem := (mem s)(sp s - 1 := hi8 w, sp s - 2 := lo8 w)\<rparr>"

definition pop16 :: "cpu \<Rightarrow> u16" where
  "pop16 s = mk16 (mem s (sp s + 1)) (mem s (sp s))"

section \<open>The arithmetic unit\<close>

definition parity8 :: "byte \<Rightarrow> bool" where
  "parity8 b = even (length (filter (bit b) [0..<8]))"

definition szp :: "byte \<Rightarrow> bool \<Rightarrow> bool \<Rightarrow> flags" where
  "szp r ac cy = \<lparr>fS = bit r 7, fZ = (r = 0), fAC = ac, fP = parity8 r, fCY = cy\<rparr>"

lemma szp_sel [simp]:
  "fS (szp r ac cy) = bit r 7" "fZ (szp r ac cy) = (r = 0)" "fAC (szp r ac cy) = ac"
  "fP (szp r ac cy) = parity8 r" "fCY (szp r ac cy) = cy"
  by (simp_all add: szp_def)

definition alu_add :: "byte \<Rightarrow> byte \<Rightarrow> bool \<Rightarrow> byte \<times> flags" where
  "alu_add a b cy = (let r = a + b + of_bool cy in
     (r, szp r (16 \<le> unat a mod 16 + unat b mod 16 + of_bool cy)
             (256 \<le> unat a + unat b + of_bool cy)))"

definition alu_sub :: "byte \<Rightarrow> byte \<Rightarrow> bool \<Rightarrow> byte \<times> flags" where
  "alu_sub a b bw = (let r = a - b - of_bool bw in
     (r, szp r (unat b mod 16 + of_bool bw \<le> unat a mod 16)
             (unat a < unat b + of_bool bw)))"

datatype (plugins only: code size) aluop = ADD | ADC | SUB | SBB | ANA | XRA | ORA | CMP

text \<open>The eight accumulator operations; \<open>CMP\<close> keeps the accumulator.\<close>

fun alu :: "aluop \<Rightarrow> byte \<Rightarrow> byte \<Rightarrow> flags \<Rightarrow> byte \<times> flags" where
  "alu ADD a b f = alu_add a b False"
| "alu ADC a b f = alu_add a b (fCY f)"
| "alu SUB a b f = alu_sub a b False"
| "alu SBB a b f = alu_sub a b (fCY f)"
| "alu ANA a b f = (let r = a AND b in (r, szp r (bit (a OR b) 3) False))"
| "alu XRA a b f = (let r = a XOR b in (r, szp r False False))"
| "alu ORA a b f = (let r = a OR b in (r, szp r False False))"
| "alu CMP a b f = (a, snd (alu_sub a b False))"

definition alu_inr :: "byte \<Rightarrow> flags \<Rightarrow> byte \<times> flags" where
  "alu_inr a f = (let r = a + 1 in (r, szp r (unat a mod 16 = 15) (fCY f)))"

definition alu_dcr :: "byte \<Rightarrow> flags \<Rightarrow> byte \<times> flags" where
  "alu_dcr a f = (let r = a - 1 in (r, szp r (unat a mod 16 \<noteq> 0) (fCY f)))"

definition rlc :: "byte \<Rightarrow> byte" where
  "rlc a = push_bit 1 a OR of_bool (bit a 7)"

definition rrc :: "byte \<Rightarrow> byte" where
  "rrc a = drop_bit 1 a OR push_bit 7 (of_bool (bit a 0))"

definition ral :: "byte \<Rightarrow> bool \<Rightarrow> byte" where
  "ral a cy = push_bit 1 a OR of_bool cy"

definition rar :: "byte \<Rightarrow> bool \<Rightarrow> byte" where
  "rar a cy = drop_bit 1 a OR push_bit 7 (of_bool cy)"

definition daa :: "byte \<Rightarrow> flags \<Rightarrow> byte \<times> flags" where
  "daa a f = (let low = unat a mod 16; high = unat a div 16;
      c1 = (9 < low \<or> fAC f);
      c2 = (9 < high \<or> fCY f \<or> 9 \<le> high \<and> 9 < low);
      r = a + (if c1 then 6 else 0) + (if c2 then 0x60 else 0)
    in (r, szp r (c1 \<and> 16 \<le> low + 6) c2))"

text \<open>Branch conditions (\<open>V6ClangCC::CondCode\<close>) and what they test.\<close>

datatype (plugins only: code size) cond =
  COND_NZ | COND_Z | COND_NC | COND_C | COND_PO | COND_PE | COND_P | COND_M

fun cond_holds :: "cond \<Rightarrow> flags \<Rightarrow> bool" where
  "cond_holds COND_NZ f = (\<not> fZ f)"
| "cond_holds COND_Z f = fZ f"
| "cond_holds COND_NC f = (\<not> fCY f)"
| "cond_holds COND_C f = fCY f"
| "cond_holds COND_PO f = (\<not> fP f)"
| "cond_holds COND_PE f = fP f"
| "cond_holds COND_P f = (\<not> fS f)"
| "cond_holds COND_M f = fS f"

text \<open>The values of the enumeration, as the immediate operand of a pseudo carries them.\<close>

fun cond_code :: "cond \<Rightarrow> int" where
  "cond_code COND_NZ = 0" | "cond_code COND_Z = 1" | "cond_code COND_NC = 2"
| "cond_code COND_C = 3" | "cond_code COND_PO = 4" | "cond_code COND_PE = 5"
| "cond_code COND_P = 6" | "cond_code COND_M = 7"

definition cond_of :: "int \<Rightarrow> cond option" where
  "cond_of i = find (\<lambda>c. cond_code c = i)
     [COND_NZ, COND_Z, COND_NC, COND_C, COND_PO, COND_PE, COND_P, COND_M]"

lemma cond_of_code [simp]: "cond_of (cond_code c) = Some c"
  by (cases c) (simp_all add: cond_of_def)

section \<open>Reading and writing registers\<close>

lemma r8_setR [simp]: "r8 (setR r v s) q = (if q = r then v else r8 s q)"
  by (simp add: setR_def)

lemma setR_frame [simp]:
  "fl (setR r v s) = fl s" "sp (setR r v s) = sp s" "mem (setR r v s) = mem s"
  "inte (setR r v s) = inte s" "iolog (setR r v s) = iolog s"
  by (simp_all add: setR_def)

lemma getP_setP [simp]: "GR16All r \<Longrightarrow> getP r (setP r w s) = w"
  by (cases r) auto

lemma push_pop: "pop16 (push16 w s) = w"
  by (simp add: pop16_def push16_def)

end
