(* ===== verification/MIR.thy ===== *)
theory MIR
  imports I8080
begin

text \<open>
  Machine IR.  Opcodes and their implicit operands are those of V6ClangInstrInfo.td; machine
  operands, machine instructions and \<open>BuildMI\<close> follow LLVM's MachineInstr as far as the back
  end uses it.  \<open>exec\<close> gives a machine instruction its effect on the 8080 state, \<open>run\<close> runs a
  straight-line piece of a basic block up to its first taken branch.
\<close>

section \<open>Opcodes (V6ClangInstrInfo.td)\<close>

datatype (plugins only: code size) pseudo =
    V6CLANG_BRCOND | V6CLANG_SELECT_CC | V6CLANG_LOAD8_P | V6CLANG_STORE8_P
  | V6CLANG_ALU_M_P aluop
  | V6CLANG_STORE8_IMM_P | V6CLANG_INR_M_P | V6CLANG_DCR_M_P
  | V6CLANG_SPILL8 | V6CLANG_RELOAD8 | V6CLANG_SPILL16 | V6CLANG_RELOAD16
  | V6CLANG_PSEUDO_COMMENT | ADJCALLSTACKDOWN | ADJCALLSTACKUP | V6CLANG_LEA_FI
  | V6CLANG_DAD | V6CLANG_INX16 | V6CLANG_DCX16 | V6CLANG_ADD16 | V6CLANG_NEG16 | V6CLANG_SUB16
  | V6CLANG_AND16 | V6CLANG_OR16 | V6CLANG_XOR16
  | V6CLANG_AND16_IMM | V6CLANG_OR16_IMM | V6CLANG_XOR16_IMM | V6CLANG_NEG8
  | V6CLANG_SHL16_DAD | V6CLANG_SHL16_BYTE | V6CLANG_SHL16_RAM_HI
  | V6CLANG_SRL16_RAR | V6CLANG_SRL16_24BIT | V6CLANG_SRL16_RAM_LO | V6CLANG_SRL16_BYTE
  | V6CLANG_SRA16_RAR | V6CLANG_SRA16_24BIT | V6CLANG_SRA16_BYTE | V6CLANG_SRA16_RAM_LO
  | V6CLANG_ROTL16_1 | V6CLANG_LOAD16_P | V6CLANG_LOAD8_FI | V6CLANG_LOAD16_FI
  | V6CLANG_STORE8_FI | V6CLANG_STORE16_FI | V6CLANG_STORE16_P
  | V6CLANG_LOAD16_G | V6CLANG_STORE16_G | V6CLANG_BUILD_PAIR | V6CLANG_SEXT
  | V6CLANG_SELECT_CC16 | V6CLANG_BR_CC16 | V6CLANG_BR_CC16_IMM
  | V6CLANG_CMP16_ZERO | V6CLANG_CMP16_SIGN | V6CLANG_CMP8_ZERO | V6CLANG_CMP16
  | V6CLANG_CMP16_IMM

text \<open>
  Families that the instruction definitions spell out one by one carry their operation here:
  \<open>ALUr\<close> is ADDr .. CMPr, \<open>ALUM\<close> is ADDM .. CMPM, \<open>ALUI\<close> is ADI .. CPI, and \<open>Jcc\<close>, \<open>Ccc\<close>,
  \<open>Rcc\<close> are the eight conditional branches, calls and returns.
\<close>

datatype (plugins only: code size) opcode =
    MOVrr | MOVrM | MOVMr | MVIr | MVIM | LDA | STA | LDAX | STAX | LHLD | SHLD | LXI | XCHG
  | PUSH | POP | SPHL | XTHL
  | ALUr aluop | ALUM aluop | ALUI aluop
  | DAD | INX | DCX | INRr | DCRr | INRM | DCRM | RLC | RRC | RAL | RAR
  | JMP | Jcc cond | PCHL | CALL | Ccc cond | RET | Rcc cond | V6CLANG_TAILJMP | RST nat
  | NOP | HLT | CMA | STC | CMC | DAA | EI | DI | IN | OUT
  | COPY | DBG_VALUE | INLINEASM | PSEUDO pseudo

abbreviation "ADDr \<equiv> ALUr ADD"
abbreviation "ADCr \<equiv> ALUr ADC"
abbreviation "SUBr \<equiv> ALUr SUB"
abbreviation "SBBr \<equiv> ALUr SBB"
abbreviation "ANAr \<equiv> ALUr ANA"
abbreviation "XRAr \<equiv> ALUr XRA"
abbreviation "ORAr \<equiv> ALUr ORA"
abbreviation "CMPr \<equiv> ALUr CMP"
abbreviation "CMPM \<equiv> ALUM CMP"
abbreviation "ANI \<equiv> ALUI ANA"
abbreviation "CPI \<equiv> ALUI CMP"

fun reads_carry :: "aluop \<Rightarrow> bool" where
  "reads_carry ADC = True" | "reads_carry SBB = True" | "reads_carry _ = False"

fun pseudo_implicit_defs :: "pseudo \<Rightarrow> preg list" where
  "pseudo_implicit_defs (V6CLANG_ALU_M_P _) = [FLAGS]"
| "pseudo_implicit_defs V6CLANG_INR_M_P = [FLAGS]"
| "pseudo_implicit_defs V6CLANG_DCR_M_P = [FLAGS]"
| "pseudo_implicit_defs V6CLANG_SPILL8 = [FLAGS]"
| "pseudo_implicit_defs V6CLANG_RELOAD8 = [FLAGS]"
| "pseudo_implicit_defs V6CLANG_SPILL16 = [FLAGS]"
| "pseudo_implicit_defs V6CLANG_RELOAD16 = [FLAGS]"
| "pseudo_implicit_defs ADJCALLSTACKDOWN = [SP]"
| "pseudo_implicit_defs ADJCALLSTACKUP = [SP]"
| "pseudo_implicit_defs V6CLANG_LEA_FI = [FLAGS, HL]"
| "pseudo_implicit_defs V6CLANG_DAD = [FLAGS]"
| "pseudo_implicit_defs V6CLANG_ADD16 = [A, FLAGS]"
| "pseudo_implicit_defs V6CLANG_NEG16 = [A, FLAGS]"
| "pseudo_implicit_defs V6CLANG_SUB16 = [A, FLAGS]"
| "pseudo_implicit_defs V6CLANG_AND16 = [A, FLAGS]"
| "pseudo_implicit_defs V6CLANG_OR16 = [A, FLAGS]"
| "pseudo_implicit_defs V6CLANG_XOR16 = [A, FLAGS]"
| "pseudo_implicit_defs V6CLANG_AND16_IMM = [A, FLAGS]"
| "pseudo_implicit_defs V6CLANG_OR16_IMM = [A, FLAGS]"
| "pseudo_implicit_defs V6CLANG_XOR16_IMM = [A, FLAGS]"
| "pseudo_implicit_defs V6CLANG_NEG8 = [A, FLAGS]"
| "pseudo_implicit_defs V6CLANG_SHL16_DAD = [FLAGS]"
| "pseudo_implicit_defs V6CLANG_SHL16_RAM_HI = [A, FLAGS]"
| "pseudo_implicit_defs V6CLANG_SRL16_RAR = [A, FLAGS]"
| "pseudo_implicit_defs V6CLANG_SRL16_24BIT = [A, FLAGS]"
| "pseudo_implicit_defs V6CLANG_SRL16_RAM_LO = [A, FLAGS]"
| "pseudo_implicit_defs V6CLANG_SRA16_RAR = [A, FLAGS]"
| "pseudo_implicit_defs V6CLANG_SRA16_24BIT = [A, FLAGS]"
| "pseudo_implicit_defs V6CLANG_SRA16_BYTE = [A, FLAGS]"
| "pseudo_implicit_defs V6CLANG_SRA16_RAM_LO = [A, FLAGS]"
| "pseudo_implicit_defs V6CLANG_ROTL16_1 = [A, FLAGS]"
| "pseudo_implicit_defs V6CLANG_LOAD8_FI = [HL, FLAGS]"
| "pseudo_implicit_defs V6CLANG_LOAD16_FI = [HL, FLAGS]"
| "pseudo_implicit_defs V6CLANG_STORE8_FI = [HL, FLAGS]"
| "pseudo_implicit_defs V6CLANG_STORE16_FI = [HL, FLAGS]"
| "pseudo_implicit_defs V6CLANG_SEXT = [A, FLAGS]"
| "pseudo_implicit_defs V6CLANG_BR_CC16 = [A, FLAGS]"
| "pseudo_implicit_defs V6CLANG_BR_CC16_IMM = [A, FLAGS]"
| "pseudo_implicit_defs V6CLANG_CMP16_ZERO = [FLAGS, A]"
| "pseudo_implicit_defs V6CLANG_CMP16_SIGN = [FLAGS, A]"
| "pseudo_implicit_defs V6CLANG_CMP8_ZERO = [FLAGS]"
| "pseudo_implicit_defs V6CLANG_CMP16 = [FLAGS, A]"
| "pseudo_implicit_defs V6CLANG_CMP16_IMM = [FLAGS, A]"
| "pseudo_implicit_defs _ = []"

fun pseudo_implicit_uses :: "pseudo \<Rightarrow> preg list" where
  "pseudo_implicit_uses V6CLANG_BRCOND = [FLAGS]"
| "pseudo_implicit_uses V6CLANG_SELECT_CC = [FLAGS]"
| "pseudo_implicit_uses V6CLANG_SELECT_CC16 = [FLAGS]"
| "pseudo_implicit_uses ADJCALLSTACKDOWN = [SP]"
| "pseudo_implicit_uses ADJCALLSTACKUP = [SP]"
| "pseudo_implicit_uses _ = []"

fun implicit_defs :: "opcode \<Rightarrow> preg list" where
  "implicit_defs XCHG = [DE, HL]"
| "implicit_defs PUSH = [SP]" | "implicit_defs POP = [SP]"
| "implicit_defs SPHL = [SP]" | "implicit_defs XTHL = [HL]"
| "implicit_defs (ALUr _) = [FLAGS]"
| "implicit_defs (ALUM _) = [FLAGS]"
| "implicit_defs (ALUI _) = [FLAGS]"
| "implicit_defs DAD = [HL, FLAGS]"
| "implicit_defs INRr = [FLAGS]" | "implicit_defs DCRr = [FLAGS]"
| "implicit_defs INRM = [FLAGS]" | "implicit_defs DCRM = [FLAGS]"
| "implicit_defs RLC = [FLAGS]" | "implicit_defs RRC = [FLAGS]"
| "implicit_defs RAL = [FLAGS]" | "implicit_defs RAR = [FLAGS]"
| "implicit_defs CALL = [SP]" | "implicit_defs (Ccc _) = [SP]"
| "implicit_defs RET = [SP]" | "implicit_defs (Rcc _) = [SP]" | "implicit_defs (RST _) = [SP]"
| "implicit_defs STC = [FLAGS]" | "implicit_defs CMC = [FLAGS]" | "implicit_defs DAA = [FLAGS]"
| "implicit_defs (PSEUDO p) = pseudo_implicit_defs p"
| "implicit_defs _ = []"

fun implicit_uses :: "opcode \<Rightarrow> preg list" where
  "implicit_uses MOVrM = [HL]" | "implicit_uses MOVMr = [HL]" | "implicit_uses MVIM = [HL]"
| "implicit_uses XCHG = [DE, HL]"
| "implicit_uses PUSH = [SP]" | "implicit_uses POP = [SP]"
| "implicit_uses SPHL = [HL]" | "implicit_uses XTHL = [SP, HL]"
| "implicit_uses (ALUr op) = (if reads_carry op then [FLAGS] else [])"
| "implicit_uses (ALUM op) = (if reads_carry op then [HL, FLAGS] else [HL])"
| "implicit_uses (ALUI op) = (if reads_carry op then [FLAGS] else [])"
| "implicit_uses DAD = [HL]"
| "implicit_uses INRM = [HL]" | "implicit_uses DCRM = [HL]"
| "implicit_uses RAL = [FLAGS]" | "implicit_uses RAR = [FLAGS]"
| "implicit_uses (Jcc _) = [FLAGS]" | "implicit_uses PCHL = [HL]"
| "implicit_uses CALL = [SP]" | "implicit_uses (Ccc _) = [SP, FLAGS]"
| "implicit_uses RET = [SP]" | "implicit_uses (Rcc _) = [SP, FLAGS]"
| "implicit_uses (RST _) = [SP]"
| "implicit_uses CMC = [FLAGS]" | "implicit_uses DAA = [FLAGS]"
| "implicit_uses (PSEUDO p) = pseudo_implicit_uses p"
| "implicit_uses _ = []"

fun desc_isTerminator :: "opcode \<Rightarrow> bool" where
  "desc_isTerminator JMP = True" | "desc_isTerminator (Jcc _) = True"
| "desc_isTerminator PCHL = True" | "desc_isTerminator RET = True"
| "desc_isTerminator (Rcc _) = True" | "desc_isTerminator V6CLANG_TAILJMP = True"
| "desc_isTerminator (PSEUDO V6CLANG_BRCOND) = True"
| "desc_isTerminator (PSEUDO V6CLANG_BR_CC16) = True"
| "desc_isTerminator (PSEUDO V6CLANG_BR_CC16_IMM) = True"
| "desc_isTerminator _ = False"

section \<open>Machine operands and instructions\<close>

datatype (plugins only: code size) target_flag = MO_NO_FLAG | MO_LO8 | MO_HI8 | MO_PATCH_IMM

text \<open>A register operand carries isDef, isImplicit, isKill, isDead and isUndef, in this order.\<close>

datatype (plugins only: code size) machine_operand =
    MO_Register preg bool bool bool bool bool
  | MO_Immediate int
  | MO_MachineBasicBlock nat
  | MO_FrameIndex int
  | MO_GlobalAddress string int target_flag
  | MO_ExternalSymbol string target_flag
  | MO_MCSymbol string target_flag
  | MO_RegisterMask "preg list"

record machine_instr =
  opcode :: opcode
  operands :: "machine_operand list"

abbreviation addReg :: "preg \<Rightarrow> machine_operand" where
  "addReg r \<equiv> MO_Register r False False False False False"
abbreviation addRegDef :: "preg \<Rightarrow> machine_operand" where
  "addRegDef r \<equiv> MO_Register r True False False False False"
abbreviation addRegKill :: "preg \<Rightarrow> bool \<Rightarrow> machine_operand" where
  "addRegKill r k \<equiv> MO_Register r False False k False False"
abbreviation addRegUndef :: "preg \<Rightarrow> bool \<Rightarrow> machine_operand" where
  "addRegUndef r u \<equiv> MO_Register r False False False False u"
abbreviation addRegImplicitDefine :: "preg \<Rightarrow> machine_operand" where
  "addRegImplicitDefine r \<equiv> MO_Register r True True False False False"
abbreviation addImm :: "int \<Rightarrow> machine_operand" where
  "addImm \<equiv> MO_Immediate"
abbreviation addMBB :: "nat \<Rightarrow> machine_operand" where
  "addMBB \<equiv> MO_MachineBasicBlock"

fun isReg :: "machine_operand \<Rightarrow> bool" where
  "isReg (MO_Register _ _ _ _ _ _) = True" | "isReg _ = False"
fun isDef :: "machine_operand \<Rightarrow> bool" where
  "isDef (MO_Register _ d _ _ _ _) = d" | "isDef _ = False"
fun isUse :: "machine_operand \<Rightarrow> bool" where
  "isUse (MO_Register _ d _ _ _ _) = (\<not> d)" | "isUse _ = False"
fun isImplicit :: "machine_operand \<Rightarrow> bool" where
  "isImplicit (MO_Register _ _ i _ _ _) = i" | "isImplicit _ = False"
fun isKill :: "machine_operand \<Rightarrow> bool" where
  "isKill (MO_Register _ _ _ k _ _) = k" | "isKill _ = False"
fun isDead :: "machine_operand \<Rightarrow> bool" where
  "isDead (MO_Register _ _ _ _ d _) = d" | "isDead _ = False"
fun isUndef :: "machine_operand \<Rightarrow> bool" where
  "isUndef (MO_Register _ _ _ _ _ u) = u" | "isUndef _ = False"
fun getReg :: "machine_operand \<Rightarrow> preg option" where
  "getReg (MO_Register r _ _ _ _ _) = Some r" | "getReg _ = None"
fun getImm :: "machine_operand \<Rightarrow> int option" where
  "getImm (MO_Immediate i) = Some i" | "getImm _ = None"
fun getMBB :: "machine_operand \<Rightarrow> nat option" where
  "getMBB (MO_MachineBasicBlock b) = Some b" | "getMBB _ = None"

text \<open>Operand \<open>i\<close> of an instruction as a register, an immediate or a block, if it is one.\<close>

definition opReg :: "machine_instr \<Rightarrow> nat \<Rightarrow> preg option" where
  "opReg m i = (if i < length (operands m) then getReg (operands m ! i) else None)"
definition opImm :: "machine_instr \<Rightarrow> nat \<Rightarrow> int option" where
  "opImm m i = (if i < length (operands m) then getImm (operands m ! i) else None)"
definition opMBB :: "machine_instr \<Rightarrow> nat \<Rightarrow> nat option" where
  "opMBB m i = (if i < length (operands m) then getMBB (operands m ! i) else None)"

text \<open>
  \<open>BuildMI\<close>: explicit operands first, then the implicit defs and uses of the instruction
  description, then operands added as implicit.
\<close>

definition implicit_operands :: "opcode \<Rightarrow> machine_operand list" where
  "implicit_operands opc =
     map (\<lambda>r. MO_Register r True True False False False) (implicit_defs opc)
     @ map (\<lambda>r. MO_Register r False True False False False) (implicit_uses opc)"

definition BuildMI :: "opcode \<Rightarrow> machine_operand list \<Rightarrow> machine_instr" where
  "BuildMI opc ops = \<lparr>opcode = opc,
     operands = filter (\<lambda>x. \<not> isImplicit x) ops @ implicit_operands opc @ filter isImplicit ops\<rparr>"

definition isDebugInstr :: "machine_instr \<Rightarrow> bool" where
  "isDebugInstr m = (opcode m = DBG_VALUE)"

definition isTerminator :: "machine_instr \<Rightarrow> bool" where
  "isTerminator m = desc_isTerminator (opcode m)"

text \<open>
  \<open>MachineInstr::definesRegister\<close>: without a register-info argument only the register itself
  counts, with one also its super-registers.  \<open>modifiesRegister\<close> counts every overlap and the
  clobbers of a register mask.
\<close>

definition definesRegister :: "bool \<Rightarrow> machine_instr \<Rightarrow> preg \<Rightarrow> bool" where
  "definesRegister tri m r = list_ex (\<lambda>x. isDef x \<and>
     (case getReg x of Some q \<Rightarrow> q = r \<or> tri \<and> isSubRegister q r | None \<Rightarrow> False)) (operands m)"

definition modifiesRegister :: "machine_instr \<Rightarrow> preg \<Rightarrow> bool" where
  "modifiesRegister m r = list_ex (\<lambda>x. case x of
     MO_Register q d _ _ _ _ \<Rightarrow> d \<and> regsOverlap q r
   | MO_RegisterMask keep \<Rightarrow> \<not> List.member keep r
   | _ \<Rightarrow> False) (operands m)"

end
