(* ===== verification/Exec.thy ===== *)
theory Exec
  imports MIR
begin

text \<open>
  Execution of machine instructions on the 8080 state.  \<open>step\<close> is the effect of an opcode on
  explicit register, immediate and block operands, \<open>exec\<close> reads these from a machine
  instruction, \<open>run\<close> executes a list of instructions until it ends or a branch leaves it.
  Calls, indirect jumps, restarts, HLT and unexpanded pseudos have no straight-line meaning and
  yield \<open>None\<close>.
\<close>

section \<open>Operand values\<close>

text \<open>The link-time addresses of symbols and the answers of the input ports.\<close>

record senv =
  symaddr :: "string \<Rightarrow> u16"
  portin :: "io_event list \<Rightarrow> byte \<Rightarrow> byte"

fun flag_part :: "target_flag \<Rightarrow> u16 \<Rightarrow> u16" where
  "flag_part MO_LO8 w = ucast (lo8 w)"
| "flag_part MO_HI8 w = ucast (hi8 w)"
| "flag_part MO_PATCH_IMM w = w + 1"
| "flag_part MO_NO_FLAG w = w"

fun opval :: "senv \<Rightarrow> machine_operand \<Rightarrow> u16 option" where
  "opval env (MO_Immediate i) = Some (word_of_int i)"
| "opval env (MO_GlobalAddress g off f) = Some (flag_part f (symaddr env g + word_of_int off))"
| "opval env (MO_ExternalSymbol g f) = Some (flag_part f (symaddr env g))"
| "opval env (MO_MCSymbol g f) = Some (flag_part f (symaddr env g))"
| "opval env _ = None"

fun ex_regs :: "machine_operand list \<Rightarrow> preg list" where
  "ex_regs [] = []"
| "ex_regs (x # xs) = (case x of
     MO_Register r _ imp _ _ _ \<Rightarrow> if imp then ex_regs xs else r # ex_regs xs
   | _ \<Rightarrow> ex_regs xs)"

fun ex_vals :: "senv \<Rightarrow> machine_operand list \<Rightarrow> u16 list" where
  "ex_vals env [] = []"
| "ex_vals env (x # xs) = (case opval env x of Some v \<Rightarrow> v # ex_vals env xs | None \<Rightarrow> ex_vals env xs)"

fun ex_mbbs :: "machine_operand list \<Rightarrow> nat list" where
  "ex_mbbs [] = []"
| "ex_mbbs (x # xs) = (case x of MO_MachineBasicBlock b \<Rightarrow> b # ex_mbbs xs | _ \<Rightarrow> ex_mbbs xs)"

section \<open>One step\<close>

datatype (plugins only: code size) ctl = Next | Goto nat | Return

abbreviation cont :: "cpu \<Rightarrow> (ctl \<times> cpu) option" where
  "cont s \<equiv> Some (Next, s)"

definition aluA :: "aluop \<Rightarrow> byte \<Rightarrow> cpu \<Rightarrow> cpu" where
  "aluA op b s = s\<lparr>r8 := (r8 s)(A := fst (alu op (r8 s A) b (fl s))),
                   fl := snd (alu op (r8 s A) b (fl s))\<rparr>"

definition setCY :: "bool \<Rightarrow> cpu \<Rightarrow> cpu" where
  "setCY cy s = s\<lparr>fl := (fl s)\<lparr>fCY := cy\<rparr>\<rparr>"

definition dad :: "u16 \<Rightarrow> cpu \<Rightarrow> cpu" where
  "dad w s = setCY (65536 \<le> unat (getP HL s) + unat w) (setP HL (getP HL s + w) s)"

definition step :: "senv \<Rightarrow> opcode \<Rightarrow> preg list \<Rightarrow> u16 list \<Rightarrow> nat list \<Rightarrow> cpu \<Rightarrow> (ctl \<times> cpu) option"
  where
  "step env opc rs vs bs s = (case opc of
     MOVrr \<Rightarrow> (case rs of [d, r] \<Rightarrow> cont (setR d (r8 s r) s) | _ \<Rightarrow> None)
   | COPY \<Rightarrow> (case rs of [d, r] \<Rightarrow> cont (setR d (r8 s r) s) | _ \<Rightarrow> None)
   | MOVrM \<Rightarrow> (case rs of [d] \<Rightarrow> cont (setR d (mem s (getP HL s)) s) | _ \<Rightarrow> None)
   | MOVMr \<Rightarrow> (case rs of [r] \<Rightarrow> cont (store8 (getP HL s) (r8 s r) s) | _ \<Rightarrow> None)
   | MVIr \<Rightarrow> (case (rs, vs) of ([d], [v]) \<Rightarrow> cont (setR d (lo8 v) s) | _ \<Rightarrow> None)
   | MVIM \<Rightarrow> (case vs of [v] \<Rightarrow> cont (store8 (getP HL s) (lo8 v) s) | _ \<Rightarrow> None)
   | LDA \<Rightarrow> (case (rs, vs) of ([d], [v]) \<Rightarrow> cont (setR d (mem s v) s) | _ \<Rightarrow> None)
   | STA \<Rightarrow> (case (rs, vs) of ([r], [v]) \<Rightarrow> cont (store8 v (r8 s r) s) | _ \<Rightarrow> None)
   | LDAX \<Rightarrow> (case rs of [d, p] \<Rightarrow> cont (setR d (mem s (getP p s)) s) | _ \<Rightarrow> None)
   | STAX \<Rightarrow> (case rs of [r, p] \<Rightarrow> cont (store8 (getP p s) (r8 s r) s) | _ \<Rightarrow> None)
   | LHLD \<Rightarrow> (case (rs, vs) of ([d], [v]) \<Rightarrow> cont (setP d (load16 v s) s) | _ \<Rightarrow> None)
   | SHLD \<Rightarrow> (case (rs, vs) of ([r], [v]) \<Rightarrow> cont (store16 v (getP r s) s) | _ \<Rightarrow> None)
   | LXI \<Rightarrow> (case (rs, vs) of ([d], [v]) \<Rightarrow> cont (setP d v s) | _ \<Rightarrow> None)
   | XCHG \<Rightarrow> cont (setP HL (getP DE s) (setP DE (getP HL s) s))
   | PUSH \<Rightarrow> (case rs of [r] \<Rightarrow> cont (push16 (getP r s) s) | _ \<Rightarrow> None)
   | POP \<Rightarrow> (case rs of [r] \<Rightarrow> cont (setP r (pop16 s) (s\<lparr>sp := sp s + 2\<rparr>)) | _ \<Rightarrow> None)
   | SPHL \<Rightarrow> cont (s\<lparr>sp := getP HL s\<rparr>)
   | XTHL \<Rightarrow> cont (setP HL (load16 (sp s) s) (store16 (sp s) (getP HL s) s))
   | ALUr op \<Rightarrow> (if op = CMP
       then (case rs of [a, r] \<Rightarrow> cont (aluA op (r8 s r) s) | _ \<Rightarrow> None)
       else (case rs of [d, a, r] \<Rightarrow> cont (aluA op (r8 s r) s) | _ \<Rightarrow> None))
   | ALUM op \<Rightarrow> cont (aluA op (mem s (getP HL s)) s)
   | ALUI op \<Rightarrow> (case vs of [v] \<Rightarrow> cont (aluA op (lo8 v) s) | _ \<Rightarrow> None)
   | DAD \<Rightarrow> (case rs of [p] \<Rightarrow> cont (dad (getP p s) s) | _ \<Rightarrow> None)
   | INX \<Rightarrow> (case rs of [d, p] \<Rightarrow> cont (setP d (getP p s + 1) s) | _ \<Rightarrow> None)
   | DCX \<Rightarrow> (case rs of [d, p] \<Rightarrow> cont (setP d (getP p s - 1) s) | _ \<Rightarrow> None)
   | INRr \<Rightarrow> (case rs of [d, r] \<Rightarrow> cont ((setR d (fst (alu_inr (r8 s r) (fl s))) s)
       \<lparr>fl := snd (alu_inr (r8 s r) (fl s))\<rparr>) | _ \<Rightarrow> None)
   | DCRr \<Rightarrow> (case rs of [d, r] \<Rightarrow> cont ((setR d (fst (alu_dcr (r8 s r) (fl s))) s)
       \<lparr>fl := snd (alu_dcr (r8 s r) (fl s))\<rparr>) | _ \<Rightarrow> None)
   | INRM \<Rightarrow> cont ((store8 (getP HL s) (fst (alu_inr (mem s (getP HL s)) (fl s))) s)
       \<lparr>fl := snd (alu_inr (mem s (getP HL s)) (fl s))\<rparr>)
   | DCRM \<Rightarrow> cont ((store8 (getP HL s) (fst (alu_dcr (mem s (getP HL s)) (fl s))) s)
       \<lparr>fl := snd (alu_dcr (mem s (getP HL s)) (fl s))\<rparr>)
   | RLC \<Rightarrow> cont (setCY (bit (r8 s A) 7) (setR A (rlc (r8 s A)) s))
   | RRC \<Rightarrow> cont (setCY (bit (r8 s A) 0) (setR A (rrc (r8 s A)) s))
   | RAL \<Rightarrow> cont (setCY (bit (r8 s A) 7) (setR A (ral (r8 s A) (fCY (fl s))) s))
   | RAR \<Rightarrow> cont (setCY (bit (r8 s A) 0) (setR A (rar (r8 s A) (fCY (fl s))) s))
   | CMA \<Rightarrow> cont (setR A (NOT (r8 s A)) s)
   | STC \<Rightarrow> cont (setCY True s)
   | CMC \<Rightarrow> cont (setCY (\<not> fCY (fl s)) s)
   | DAA \<Rightarrow> cont ((setR A (fst (daa (r8 s A) (fl s))) s)\<lparr>fl := snd (daa (r8 s A) (fl s))\<rparr>)
   | JMP \<Rightarrow> (case bs of [b] \<Rightarrow> Some (Goto b, s) | _ \<Rightarrow> None)
   | Jcc c \<Rightarrow> (case bs of [b] \<Rightarrow> Some (if cond_holds c (fl s) then Goto b else Next, s) | _ \<Rightarrow> None)
   | RET \<Rightarrow> Some (Return, s\<lparr>sp := sp s + 2\<rparr>)
   | Rcc c \<Rightarrow> (if cond_holds c (fl s) then Some (Return, s\<lparr>sp := sp s + 2\<rparr>) else cont s)
   | NOP \<Rightarrow> cont s
   | EI \<Rightarrow> cont (s\<lparr>inte := True\<rparr>)
   | DI \<Rightarrow> cont (s\<lparr>inte := False\<rparr>)
   | IN \<Rightarrow> (case (rs, vs) of ([d], [v]) \<Rightarrow>
       cont ((setR d (portin env (iolog s) (lo8 v)) s)\<lparr>iolog := IoIn (lo8 v) # iolog s\<rparr>) | _ \<Rightarrow> None)
   | OUT \<Rightarrow> (case (rs, vs) of ([r], [v]) \<Rightarrow>
       cont (s\<lparr>iolog := IoOut (lo8 v) (r8 s r) # iolog s\<rparr>) | _ \<Rightarrow> None)
   | DBG_VALUE \<Rightarrow> cont s
   | PSEUDO p \<Rightarrow> (if p = V6CLANG_PSEUDO_COMMENT then cont s else None)
   | _ \<Rightarrow> None)"

definition exec :: "senv \<Rightarrow> machine_instr \<Rightarrow> cpu \<Rightarrow> (ctl \<times> cpu) option" where
  "exec env m s = step env (opcode m) (ex_regs (operands m)) (ex_vals env (operands m))
     (ex_mbbs (operands m)) s"

fun run :: "senv \<Rightarrow> machine_instr list \<Rightarrow> cpu \<Rightarrow> (ctl \<times> cpu) option" where
  "run env [] s = cont s"
| "run env (m # ms) s = (case exec env m s of
     None \<Rightarrow> None
   | Some (c, t) \<Rightarrow> if c = Next then run env ms t else Some (c, t))"

section \<open>Symbolic execution\<close>

lemma ex_regs_append [simp]: "ex_regs (xs @ ys) = ex_regs xs @ ex_regs ys"
  by (induction xs) (auto split: machine_operand.splits)

lemma ex_vals_append [simp]: "ex_vals env (xs @ ys) = ex_vals env xs @ ex_vals env ys"
  by (induction xs) (auto split: option.splits)

lemma ex_mbbs_append [simp]: "ex_mbbs (xs @ ys) = ex_mbbs xs @ ex_mbbs ys"
  by (induction xs) (auto split: machine_operand.splits)

lemma ex_implicit_operands [simp]:
  "ex_regs (implicit_operands opc) = []"
  "ex_vals env (implicit_operands opc) = []"
  "ex_mbbs (implicit_operands opc) = []"
proof -
  have "ex_regs (map (\<lambda>r. MO_Register r d True k e u) xs) = []"
    and "ex_vals env (map (\<lambda>r. MO_Register r d True k e u) xs) = []"
    and "ex_mbbs (map (\<lambda>r. MO_Register r d True k e u) xs) = []" for d k e u xs
    by (induction xs) auto
  then show "ex_regs (implicit_operands opc) = []"
    "ex_vals env (implicit_operands opc) = []" "ex_mbbs (implicit_operands opc) = []"
    by (simp_all add: implicit_operands_def)
qed

lemma ex_filter [simp]:
  "ex_regs (filter isImplicit ops) = []"
  "ex_regs (filter (\<lambda>x. \<not> isImplicit x) ops) = ex_regs ops"
  "ex_vals env (filter isImplicit ops) = []"
  "ex_vals env (filter (\<lambda>x. \<not> isImplicit x) ops) = ex_vals env ops"
  "ex_mbbs (filter isImplicit ops) = []"
  "ex_mbbs (filter (\<lambda>x. \<not> isImplicit x) ops) = ex_mbbs ops"
  by (induction ops; auto split: machine_operand.splits option.splits elim!: isImplicit.elims)+

lemma exec_BuildMI [exec_simps]:
  "exec env (BuildMI opc ops) s = step env opc (ex_regs ops) (ex_vals env ops) (ex_mbbs ops) s"
  by (simp add: exec_def BuildMI_def)

lemma step_simps [exec_simps]:
  "step env MOVrr [d, r] vs bs s = cont (setR d (r8 s r) s)"
  "step env MOVrM [d] vs bs s = cont (setR d (mem s (getP HL s)) s)"
  "step env MOVMr [r] vs bs s = cont (store8 (getP HL s) (r8 s r) s)"
  "step env MVIr [d] [v] bs s = cont (setR d (lo8 v) s)"
  "step env MVIM rs [v] bs s = cont (store8 (getP HL s) (lo8 v) s)"
  "step env LDA [d] [v] bs s = cont (setR d (mem s v) s)"
  "step env STA [r] [v] bs s = cont (store8 v (r8 s r) s)"
  "step env LDAX [d, p] vs bs s = cont (setR d (mem s (getP p s)) s)"
  "step env STAX [r, p] vs bs s = cont (store8 (getP p s) (r8 s r) s)"
  "step env LHLD [d] [v] bs s = cont (setP d (load16 v s) s)"
  "step env SHLD [r] [v] bs s = cont (store16 v (getP r s) s)"
  "step env LXI [d] [v] bs s = cont (setP d v s)"
  "step env XCHG rs vs bs s = cont (setP HL (getP DE s) (setP DE (getP HL s) s))"
  "step env PUSH [r] vs bs s = cont (push16 (getP r s) s)"
  "step env POP [r] vs bs s = cont (setP r (pop16 s) (s\<lparr>sp := sp s + 2\<rparr>))"
  "step env (ALUM op) rs vs bs s = cont (aluA op (mem s (getP HL s)) s)"
  "step env (ALUI op) rs [v] bs s = cont (aluA op (lo8 v) s)"
  "step env DAD [p] vs bs s = cont (dad (getP p s) s)"
  "step env INX [d, p] vs bs s = cont (setP d (getP p s + 1) s)"
  "step env DCX [d, p] vs bs s = cont (setP d (getP p s - 1) s)"
  by (simp_all add: step_def)

lemma step_simps2 [exec_simps]:
  "op \<noteq> CMP \<Longrightarrow> step env (ALUr op) [d, a, r] vs bs s = cont (aluA op (r8 s r) s)"
  "step env CMPr [a, r] vs bs s = cont (aluA CMP (r8 s r) s)"
  "step env INRr [d, r] vs bs s = cont ((setR d (fst (alu_inr (r8 s r) (fl s))) s)
       \<lparr>fl := snd (alu_inr (r8 s r) (fl s))\<rparr>)"
  "step env DCRr [d, r] vs bs s = cont ((setR d (fst (alu_dcr (r8 s r) (fl s))) s)
       \<lparr>fl := snd (alu_dcr (r8 s r) (fl s))\<rparr>)"
  "step env INRM rs vs bs s = cont ((store8 (getP HL s) (fst (alu_inr (mem s (getP HL s)) (fl s))) s)
       \<lparr>fl := snd (alu_inr (mem s (getP HL s)) (fl s))\<rparr>)"
  "step env DCRM rs vs bs s = cont ((store8 (getP HL s) (fst (alu_dcr (mem s (getP HL s)) (fl s))) s)
       \<lparr>fl := snd (alu_dcr (mem s (getP HL s)) (fl s))\<rparr>)"
  "step env RLC rs vs bs s = cont (setCY (bit (r8 s A) 7) (setR A (rlc (r8 s A)) s))"
  "step env RRC rs vs bs s = cont (setCY (bit (r8 s A) 0) (setR A (rrc (r8 s A)) s))"
  "step env RAR rs vs bs s = cont (setCY (bit (r8 s A) 0) (setR A (rar (r8 s A) (fCY (fl s))) s))"
  "step env CMA rs vs bs s = cont (setR A (NOT (r8 s A)) s)"
  "step env JMP rs vs [b] s = Some (Goto b, s)"
  "step env (Jcc c) rs vs [b] s = Some (if cond_holds c (fl s) then Goto b else Next, s)"
  "step env DBG_VALUE rs vs bs s = cont s"
  "step env (PSEUDO V6CLANG_PSEUDO_COMMENT) rs vs bs s = cont s"
  by (simp_all add: step_def)

lemma run_append:
  "run env (xs @ ys) s = (case run env xs s of
     None \<Rightarrow> None | Some (c, t) \<Rightarrow> if c = Next then run env ys t else Some (c, t))"
  by (induction xs arbitrary: s) (auto split: option.splits)

lemma run_append_Next: "run env xs s = cont t \<Longrightarrow> run env (xs @ ys) s = run env ys t"
  by (simp add: run_append)

end
