(* ===== verification/LivenessSound.thy ===== *)
theory LivenessSound
  imports Liveness
begin

text \<open>
  What a dead register means.  The locale \<open>dead_scan\<close> is the contract between a machine and the
  forward liveness scan: an instruction depends only on what it is reported to use and fixes
  what it is reported to define.  From it follows that two states which differ in a dead
  register run to the same end.  The interpretation \<open>v6\<close> discharges the contract for the
  scans of the code generator on well-formed 8080 instructions.
\<close>

section \<open>The contract of the scan\<close>

text \<open>
  Final instructions (the terminators) come last in a block, so a register that is dead at a
  final instruction is not redefined before the block is left.
\<close>

fun final_last :: "('i \<Rightarrow> bool) \<Rightarrow> 'i list \<Rightarrow> bool" where
  "final_last final [] = True"
| "final_last final (i # is) = ((final i \<longrightarrow> list_all final is) \<and> final_last final is)"

text \<open>
  Two ends of a block agree up to a register: same exit, and equal states unless the register
  is not live out, in which case they may still differ in it.
\<close>

definition same_end :: "('s \<Rightarrow> 's \<Rightarrow> bool) \<Rightarrow> bool \<Rightarrow> ctl \<times> 's \<Rightarrow> ctl \<times> 's \<Rightarrow> bool" where
  "same_end agr live x y \<longleftrightarrow> fst x = fst y \<and>
     (snd x = snd y \<or> agr (snd x) (snd y) \<and> \<not> live)"

lemma same_end_refl [simp]: "same_end agr live x x"
  by (simp add: same_end_def)

locale dead_scan =
  fixes stepper :: "'i \<Rightarrow> 's \<Rightarrow> (ctl \<times> 's) option"
    and runner :: "'i list \<Rightarrow> 's \<Rightarrow> (ctl \<times> 's) option"
    and agree :: "'r \<Rightarrow> 's \<Rightarrow> 's \<Rightarrow> bool"
    and uses :: "'r \<Rightarrow> 'i \<Rightarrow> bool"
    and defs :: "'r \<Rightarrow> 'i \<Rightarrow> bool"
    and dead :: "'r \<Rightarrow> 'i list \<Rightarrow> bool"
    and live_out :: "'r \<Rightarrow> bool"
    and ok :: "'i \<Rightarrow> bool"
    and final :: "'i \<Rightarrow> bool"
  assumes run_Nil: "runner [] s = Some (Next, s)"
    and run_Cons: "runner (i # is) s = (case stepper i s of None \<Rightarrow> None
          | Some (c, t) \<Rightarrow> if c = Next then runner is t else Some (c, t))"
    and dead_Nil: "dead r [] \<Longrightarrow> \<not> live_out r"
    and dead_Cons: "dead r (i # is) \<Longrightarrow> \<not> uses r i \<and> (defs r i \<or> dead r is)"
    and frame: "ok i \<Longrightarrow> \<not> uses r i \<Longrightarrow> \<not> defs r i \<Longrightarrow> agree r s t
          \<Longrightarrow> rel_option (rel_prod (=) (agree r)) (stepper i s) (stepper i t)"
    and kill: "ok i \<Longrightarrow> \<not> uses r i \<Longrightarrow> defs r i \<Longrightarrow> agree r s t \<Longrightarrow> stepper i s = stepper i t"
    and leaves: "ok i \<Longrightarrow> stepper i s = Some (c, t) \<Longrightarrow> c \<noteq> Next \<Longrightarrow> final i"
    and final_defs: "ok i \<Longrightarrow> final i \<Longrightarrow> \<not> (agree r s s \<and> defs r i)"
    and agree_refl: "agree r s t \<Longrightarrow> agree r s s"
begin

lemma rel_option_same [simp]: "rel_option (same_end (agree r) (live_out r)) x x"
  by (cases x) auto

lemma dead_finals:
  "list_all ok is \<Longrightarrow> list_all final is \<Longrightarrow> dead r is \<Longrightarrow> agree r s t \<Longrightarrow> \<not> live_out r"
proof (induction "is")
  case Nil
  then show ?case by (auto dest: dead_Nil)
next
  case (Cons i "is")
  then have "\<not> defs r i"
    using final_defs [of i r s] agree_refl [of r s t] by auto
  with Cons show ?case by (auto dest: dead_Cons)
qed

lemma dead_sound:
  "list_all ok is \<Longrightarrow> final_last final is \<Longrightarrow> dead r is \<Longrightarrow> agree r s t
    \<Longrightarrow> rel_option (same_end (agree r) (live_out r)) (runner is s) (runner is t)"
proof (induction "is" arbitrary: s t)
  case Nil
  then show ?case by (auto simp: run_Nil same_end_def dest: dead_Nil)
next
  case (Cons i "is")
  then have ok: "ok i" "list_all ok is" and fl: "final_last final is" by auto
  from Cons.prems have nu: "\<not> uses r i" and d: "defs r i \<or> dead r is"
    by (auto dest: dead_Cons)
  show ?case
  proof (cases "defs r i")
    case True
    then have "stepper i s = stepper i t" using ok nu Cons.prems kill by blast
    then show ?thesis by (simp add: run_Cons)
  next
    case False
    then have d: "dead r is" using d by simp
    have rel: "rel_option (rel_prod (=) (agree r)) (stepper i s) (stepper i t)"
      using frame ok nu False Cons.prems by blast
    show ?thesis
    proof (cases "stepper i s")
      case None
      with rel show ?thesis by (simp add: run_Cons)
    next
      case (Some x)
      then obtain c s' t' where x: "x = (c, s')" and t': "stepper i t = Some (c, t')"
        and ag: "agree r s' t'"
        using rel by (cases x) (auto elim!: option.rel_cases)
      show ?thesis
      proof (cases "c = Next")
        case True
        with Some x t' show ?thesis
          using Cons.IH [OF ok(2) fl d ag] by (simp add: run_Cons)
      next
        case c: False
        then have "final i" using leaves [OF ok(1)] Some x by blast
        then have "list_all final is" using Cons.prems by simp
        then have "\<not> live_out r" using dead_finals [OF ok(2) _ d ag] by blast
        with Some x t' c ag show ?thesis by (simp add: run_Cons same_end_def)
      qed
    qed
  qed
qed

end

section \<open>Well-formed 8080 instructions\<close>

text \<open>
  The operand classes of an opcode in its (outs) (ins) order, and how many of them are outs.
  An instruction is well formed when its explicit registers fit, its implicit operands are
  those of its description without undef marks, anything added to it only reads registers or
  redefines SP or FLAGS, and explicit operands precede implicit ones.  A store through HL must
  not carry a kill mark on HL.
\<close>

fun reg_classes :: "opcode \<Rightarrow> (preg \<Rightarrow> bool) list option" where
  "reg_classes MOVrr = Some [GR8, GR8]"
| "reg_classes MOVrM = Some [GR8]"
| "reg_classes MOVMr = Some [GR8]"
| "reg_classes MVIr = Some [GR8]"
| "reg_classes MVIM = Some []"
| "reg_classes LDA = Some [(=) A]"
| "reg_classes STA = Some [(=) A]"
| "reg_classes LDAX = Some [(=) A, GR16Idx]"
| "reg_classes STAX = Some [(=) A, GR16Idx]"
| "reg_classes LHLD = Some [(=) HL]"
| "reg_classes SHLD = Some [(=) HL]"
| "reg_classes LXI = Some [GR16All]"
| "reg_classes XCHG = Some []"
| "reg_classes PUSH = Some [GR16Stack]"
| "reg_classes POP = Some [GR16Stack]"
| "reg_classes SPHL = Some []"
| "reg_classes XTHL = Some []"
| "reg_classes (ALUr op) = Some (if op = CMP then [(=) A, GR8] else [(=) A, (=) A, GR8])"
| "reg_classes (ALUM op) = Some (if op = CMP then [(=) A] else [(=) A, (=) A])"
| "reg_classes (ALUI op) = Some (if op = CMP then [(=) A] else [(=) A, (=) A])"
| "reg_classes DAD = Some [GR16All]"
| "reg_classes INX = Some [GR16All, GR16All]"
| "reg_classes DCX = Some [GR16All, GR16All]"
| "reg_classes INRr = Some [GR8, GR8]"
| "reg_classes DCRr = Some [GR8, GR8]"
| "reg_classes INRM = Some []"
| "reg_classes DCRM = Some []"
| "reg_classes RLC = Some [(=) A, (=) A]"
| "reg_classes RRC = Some [(=) A, (=) A]"
| "reg_classes RAL = Some [(=) A, (=) A]"
| "reg_classes RAR = Some [(=) A, (=) A]"
| "reg_classes CMA = Some [(=) A, (=) A]"
| "reg_classes DAA = Some [(=) A, (=) A]"
| "reg_classes IN = Some [(=) A]"
| "reg_classes OUT = Some [(=) A]"
| "reg_classes COPY = None"
| "reg_classes INLINEASM = None"
| "reg_classes DBG_VALUE = None"
| "reg_classes (PSEUDO _) = None"
| "reg_classes _ = Some []"

fun num_outs :: "opcode \<Rightarrow> nat" where
  "num_outs MOVrr = 1" | "num_outs MOVrM = 1" | "num_outs MVIr = 1" | "num_outs LDA = 1"
| "num_outs LDAX = 1" | "num_outs LHLD = 1" | "num_outs LXI = 1" | "num_outs POP = 1"
| "num_outs (ALUr op) = (if op = CMP then 0 else 1)"
| "num_outs (ALUM op) = (if op = CMP then 0 else 1)"
| "num_outs (ALUI op) = (if op = CMP then 0 else 1)"
| "num_outs INX = 1" | "num_outs DCX = 1" | "num_outs INRr = 1" | "num_outs DCRr = 1"
| "num_outs RLC = 1" | "num_outs RRC = 1" | "num_outs RAL = 1" | "num_outs RAR = 1"
| "num_outs CMA = 1" | "num_outs DAA = 1" | "num_outs IN = 1"
| "num_outs _ = 0"

definition explicit_regs :: "machine_instr \<Rightarrow> machine_operand list" where
  "explicit_regs m = filter (\<lambda>x. isReg x \<and> \<not> isImplicit x) (operands m)"

definition implicit_regs :: "machine_instr \<Rightarrow> machine_operand list" where
  "implicit_regs m = filter (\<lambda>x. isReg x \<and> isImplicit x) (operands m)"

fun harmless :: "machine_operand \<Rightarrow> bool" where
  "harmless (MO_Register r d _ _ _ _) = (d \<longrightarrow> r = SP \<or> r = FLAGS)"
| "harmless _ = True"

fun described :: "opcode \<Rightarrow> machine_operand \<Rightarrow> machine_operand \<Rightarrow> bool" where
  "described opc (MO_Register r d i _ _ _) (MO_Register r' d' i' k' _ u') =
     (r = r' \<and> d = d' \<and> i = i' \<and> \<not> u' \<and> \<not> (opc = MOVMr \<and> k'))"
| "described opc _ _ = False"

definition wf_instr :: "machine_instr \<Rightarrow> bool" where
  "wf_instr m = (case reg_classes (opcode m) of None \<Rightarrow> False | Some cls \<Rightarrow>
     let ex = explicit_regs m; im = implicit_regs m; io = implicit_operands (opcode m);
         n = num_outs (opcode m)
     in list_all2 (\<lambda>c x. case getReg x of Some r \<Rightarrow> c r | None \<Rightarrow> False) cls ex
        \<and> list_all isDef (take n ex) \<and> list_all (\<lambda>x. isUse x \<and> \<not> isUndef x) (drop n ex)
        \<and> length io \<le> length im
        \<and> list_all2 (described (opcode m)) io (take (length io) im)
        \<and> list_all harmless (drop (length io) im)
        \<and> sorted_wrt (\<lambda>x y. isImplicit x \<longrightarrow> isImplicit y) (operands m))"

section \<open>Effect of a register write on a step\<close>

lemma getP_setR [simp]:
  "GR8 r \<Longrightarrow> \<not> regsOverlap p r \<Longrightarrow> getP p (setR r v s) = getP p s"
  by (cases p; cases r; simp)

lemma setR_commute:
  "q \<noteq> r \<Longrightarrow> setR q w (setR r v s) = setR r v (setR q w s)"
  by (simp add: setR_def fun_upd_twist)

lemma setR_setR [simp]: "setR r w (setR r v s) = setR r w s"
  by (simp add: setR_def)

lemma setP_setR:
  "GR8 r \<Longrightarrow> GR16All p \<or> p = PSW \<Longrightarrow> setP p w (setR r v s)
     = (if regsOverlap p r then setP p w s else setR r v (setP p w s))"
  by (cases p; cases r; simp add: setR_def fun_eq_iff)

lemma updates_setR [simp]:
  "store8 a w (setR r v s) = setR r v (store8 a w s)"
  "store16 a x (setR r v s) = setR r v (store16 a x s)"
  "push16 x (setR r v s) = setR r v (push16 x s)"
  "pop16 (setR r v s) = pop16 s"
  "load16 a (setR r v s) = load16 a s"
  "setCY cy (setR r v s) = setR r v (setCY cy s)"
  "sp_update f (setR r v s) = setR r v (sp_update f s)"
  "fl_update g (setR r v s) = setR r v (fl_update g s)"
  "inte_update h (setR r v s) = setR r v (inte_update h s)"
  "iolog_update k (setR r v s) = setR r v (iolog_update k s)"
  by (simp_all add: setR_def store8_def store16_def push16_def pop16_def load16_def setCY_def)

lemma aluA_setR: "r \<noteq> A \<Longrightarrow> aluA op b (setR r v s) = setR r v (aluA op b s)"
  by (simp add: aluA_def setR_def fun_upd_twist)

lemma overlap_GR8 [simp]: "GR8 q \<Longrightarrow> GR8 r \<Longrightarrow> regsOverlap q r \<longleftrightarrow> q = r"
  by (cases q; cases r; simp)
lemma overlap_other [simp]: "GR8 r \<Longrightarrow> \<not> regsOverlap SP r" "GR8 r \<Longrightarrow> \<not> regsOverlap FLAGS r"
  by (cases r; simp)+
lemma GR16Stack_setP: "GR16Stack p \<Longrightarrow> GR8 r \<Longrightarrow> setP p w (setR r v s)
     = (if regsOverlap p r then setP p w s else setR r v (setP p w s))"
  by (rule setP_setR) (cases p; simp)+

lemma step_frame:
  assumes "list_all2 (\<lambda>c x. c x) (the (reg_classes opc)) rs" "GR8 r" "reg_classes opc \<noteq> None"
    and "\<forall>q \<in> set (drop (num_outs opc) rs @ implicit_uses opc). \<not> regsOverlap q r"
  shows "step env opc rs vs bs (setR r v s) = map_option (map_prod id
     (if \<exists>q \<in> set (take (num_outs opc) rs @ implicit_defs opc). regsOverlap q r then id else setR r v))
     (step env opc rs vs bs s)"
  using assms
  by (cases opc; simp add: list_all2_Cons1 del: regsOverlap_code)
    (auto simp: step_def list_all2_Cons1 setR_commute aluA_setR setP_setR GR16Stack_setP dad_def
      simp del: regsOverlap_code getP.simps setP.simps split: list.split)
section \<open>What a well-formed instruction uses and defines\<close>

lemma ex_regs_explicit:
  "ex_regs ops = map (the \<circ> getReg) (filter (\<lambda>x. isReg x \<and> \<not> isImplicit x) ops)"
  by (induction ops) (auto split: machine_operand.splits)

lemma defsReg_iff:
  "defsReg r m \<longleftrightarrow> (\<exists>x \<in> set (operands m). isReg x \<and> isDef x \<and> regsOverlap (the (getReg x)) r)"
  by (force simp: defsReg_def list_ex_iff simp del: regsOverlap_code elim: isReg.elims isDef.elims
      split: option.splits)

lemma usesReg_iff:
  "usesReg r m \<longleftrightarrow> (\<exists>x \<in> set (operands m). isReg x \<and> isUse x \<and> \<not> isUndef x
     \<and> \<not> isArtifact r (operands m) x \<and> regsOverlap (the (getReg x)) r)"
  by (force simp: usesReg_def list_ex_iff simp del: regsOverlap_code elim: isReg.elims isUse.elims
      split: option.splits)

lemma isUse_not_isDef: "isUse x \<Longrightarrow> \<not> isDef x"
  by (cases x) auto

lemma isUse_iff: "isReg x \<Longrightarrow> isUse x \<longleftrightarrow> \<not> isDef x"
  by (cases x) auto

lemma described_iff:
  "described opc x y \<longleftrightarrow> isReg x \<and> isReg y \<and> getReg x = getReg y \<and> isDef x = isDef y
     \<and> isImplicit x = isImplicit y \<and> \<not> isUndef y \<and> \<not> (opc = MOVMr \<and> isKill y)"
  by (cases x; cases y) auto

lemma harmless_overlap:
  "harmless x \<Longrightarrow> isReg x \<Longrightarrow> isDef x \<Longrightarrow> GR8 r \<Longrightarrow> \<not> regsOverlap (the (getReg x)) r"
  by (cases x) (auto simp del: regsOverlap_code)

text \<open>The explicit and the described operands of a well-formed instruction, by position.\<close>

lemma wf_instrE:
  assumes "wf_instr m"
  obtains exs kim him where
    "set (operands m) \<inter> {x. isReg x} = set exs \<union> set kim \<union> set him"
    "ex_regs (operands m) = map (the \<circ> getReg) exs"
    "list_all2 (\<lambda>c x. c x) (the (reg_classes (opcode m))) (ex_regs (operands m))"
    "reg_classes (opcode m) \<noteq> None"
    "\<forall>x \<in> set (take (num_outs (opcode m)) exs). isReg x \<and> isDef x"
    "\<forall>x \<in> set (drop (num_outs (opcode m)) exs). isReg x \<and> isUse x \<and> \<not> isUndef x"
    "\<forall>x \<in> set exs. \<not> isImplicit x"
    "list_all2 (described (opcode m)) (implicit_operands (opcode m)) kim"
    "\<forall>x \<in> set him. harmless x"
    "\<forall>x \<in> set kim \<union> set him. isImplicit x"
proof -
  let ?ex = "explicit_regs m" and ?im = "implicit_regs m" and ?io = "implicit_operands (opcode m)"
  obtain cls where cls: "reg_classes (opcode m) = Some cls"
    and 1: "list_all2 (\<lambda>c x. case getReg x of Some r \<Rightarrow> c r | None \<Rightarrow> False) cls ?ex"
    and 2: "list_all isDef (take (num_outs (opcode m)) ?ex)"
    and 3: "list_all (\<lambda>x. isUse x \<and> \<not> isUndef x) (drop (num_outs (opcode m)) ?ex)"
    and 4: "list_all2 (described (opcode m)) ?io (take (length ?io) ?im)"
    and 5: "list_all harmless (drop (length ?io) ?im)"
    using assms by (auto simp: wf_instr_def Let_def split: option.splits)
  have "set ?im = set (take (length ?io) ?im) \<union> set (drop (length ?io) ?im)"
    by (metis append_take_drop_id set_append)
  then have a: "set (operands m) \<inter> {x. isReg x}
      = set ?ex \<union> set (take (length ?io) ?im) \<union> set (drop (length ?io) ?im)"
    unfolding explicit_regs_def implicit_regs_def by auto
  have b: "ex_regs (operands m) = map (the \<circ> getReg) ?ex"
    by (simp add: ex_regs_explicit explicit_regs_def)
  have c: "list_all2 (\<lambda>c x. c x) (the (reg_classes (opcode m))) (ex_regs (operands m))"
    unfolding b cls using 1 by (auto simp: list_all2_map2 elim!: list_all2_mono split: option.splits)
  have d: "\<forall>x \<in> set (take n ?ex). isReg x" "\<forall>x \<in> set (drop n ?ex). isReg x" for n
    by (auto simp: explicit_regs_def dest: in_set_takeD in_set_dropD)
  have e: "\<forall>x \<in> set (take (num_outs (opcode m)) ?ex). isReg x \<and> isDef x"
    and f: "\<forall>x \<in> set (drop (num_outs (opcode m)) ?ex). isReg x \<and> isUse x \<and> \<not> isUndef x"
    using 2 3 d by (simp_all add: list_all_iff)
  have g: "\<forall>x \<in> set ?ex. \<not> isImplicit x" by (simp add: explicit_regs_def)
  have h: "\<forall>x \<in> set (drop (length ?io) ?im). harmless x" using 5 by (simp add: list_all_iff)
  have i: "\<forall>x \<in> set (take (length ?io) ?im) \<union> set (drop (length ?io) ?im). isImplicit x"
    by (auto simp: implicit_regs_def dest: in_set_takeD in_set_dropD)
  show thesis
    using that [OF a b c _ e f g 4 h i] cls by simp
qed

lemma list_all2_sets:
  assumes "list_all2 R xs ys"
  shows "x \<in> set xs \<Longrightarrow> \<exists>y \<in> set ys. R x y" and "y \<in> set ys \<Longrightarrow> \<exists>x \<in> set xs. R x y"
  using assms by (induction rule: list_all2_induct) auto

lemma described_sets:
  assumes d: "list_all2 (described opc) (implicit_operands opc) kim"
  shows "(\<exists>x \<in> set kim. isReg x \<and> isDef x \<and> P (the (getReg x))) \<longleftrightarrow> (\<exists>q \<in> set (implicit_defs opc). P q)"
    and "q \<in> set (implicit_uses opc) \<Longrightarrow> \<exists>x \<in> set kim. isReg x \<and> isUse x \<and> \<not> isUndef x
       \<and> getReg x = Some q \<and> isImplicit x \<and> \<not> (opc = MOVMr \<and> isKill x)"
proof -
  show "(\<exists>x \<in> set kim. isReg x \<and> isDef x \<and> P (the (getReg x))) \<longleftrightarrow> (\<exists>q \<in> set (implicit_defs opc). P q)"
  proof
    assume "\<exists>x \<in> set kim. isReg x \<and> isDef x \<and> P (the (getReg x))"
    then obtain x where x: "x \<in> set kim" "isReg x" "isDef x" "P (the (getReg x))" by blast
    then obtain y where "y \<in> set (implicit_operands opc)" "described opc y x"
      using list_all2_sets(2) [OF d] by blast
    with x show "\<exists>q \<in> set (implicit_defs opc). P q"
      by (auto simp: implicit_operands_def described_iff) (metis option.sel)+
  next
    assume "\<exists>q \<in> set (implicit_defs opc). P q"
    then obtain q where q: "q \<in> set (implicit_defs opc)" "P q" by blast
    then have "MO_Register q True True False False False \<in> set (implicit_operands opc)"
      by (auto simp: implicit_operands_def)
    from list_all2_sets(1) [OF d this] q
    show "\<exists>x \<in> set kim. isReg x \<and> isDef x \<and> P (the (getReg x))"
      unfolding described_iff by (metis isDef.simps(1) getReg.simps(1) option.sel)
  qed
  assume "q \<in> set (implicit_uses opc)"
  then have "MO_Register q False True False False False \<in> set (implicit_operands opc)"
    by (auto simp: implicit_operands_def)
  from list_all2_sets(1) [OF d this]
  show "\<exists>x \<in> set kim. isReg x \<and> isUse x \<and> \<not> isUndef x
       \<and> getReg x = Some q \<and> isImplicit x \<and> \<not> (opc = MOVMr \<and> isKill x)"
    by (auto simp: described_iff isUse_iff)
qed

lemma implicit_use_no_half:
  assumes "list_all2 (\<lambda>c x. c x) (the (reg_classes opc)) rs" "reg_classes opc \<noteq> None"
    and "opc \<noteq> MOVMr" "q \<in> set (implicit_uses opc)" "p \<in> set (drop (num_outs opc) rs)"
  shows "\<not> isSubRegister q p"
  using assms
  by (cases opc; simp add: list_all2_Cons1)
    (auto simp: list_all2_Cons1 elim: GR16All.elims split: if_splits)

lemma wf_defs:
  assumes "wf_instr m" "GR8 r"
  shows "defsReg r m \<longleftrightarrow> (\<exists>q \<in> set (take (num_outs (opcode m)) (ex_regs (operands m))
     @ implicit_defs (opcode m)). regsOverlap q r)"
  using assms(1)
proof (rule wf_instrE)
  fix exs kim him
  assume ops: "set (operands m) \<inter> {x. isReg x} = set exs \<union> set kim \<union> set him"
    and rs: "ex_regs (operands m) = map (the \<circ> getReg) exs"
    and outs: "\<forall>x \<in> set (take (num_outs (opcode m)) exs). isReg x \<and> isDef x"
    and ins: "\<forall>x \<in> set (drop (num_outs (opcode m)) exs). isReg x \<and> isUse x \<and> \<not> isUndef x"
    and d: "list_all2 (described (opcode m)) (implicit_operands (opcode m)) kim"
    and h: "\<forall>x \<in> set him. harmless x"
  let ?n = "num_outs (opcode m)" and ?d = "\<lambda>X. \<exists>x \<in> X. isReg x \<and> isDef x \<and> regsOverlap (the (getReg x)) r"
  have "defsReg r m \<longleftrightarrow> ?d (set (operands m) \<inter> {x. isReg x})"
    by (auto simp: defsReg_iff simp del: regsOverlap_code)
  also have "\<dots> \<longleftrightarrow> ?d (set exs) \<or> ?d (set kim) \<or> ?d (set him)"
    unfolding ops by (auto simp del: regsOverlap_code)
  also have "?d (set him) = False"
    using h harmless_overlap assms(2) by blast
  also have "?d (set kim) \<longleftrightarrow> (\<exists>q \<in> set (implicit_defs (opcode m)). regsOverlap q r)"
    by (rule described_sets(1) [OF d])
  also have "?d (set exs) \<longleftrightarrow> ?d (set (take ?n exs) \<union> set (drop ?n exs))"
    by (simp only: set_append [symmetric] append_take_drop_id)
  also have "\<dots> \<longleftrightarrow> ?d (set (take ?n exs)) \<or> ?d (set (drop ?n exs))"
    by (simp only: bex_Un)
  also have "?d (set (drop ?n exs)) = False"
    using ins isUse_not_isDef by blast
  also have "?d (set (take ?n exs)) \<longleftrightarrow> (\<exists>q \<in> set (take ?n (ex_regs (operands m))). regsOverlap q r)"
    using outs by (auto simp: rs take_map simp del: regsOverlap_code)
  finally show ?thesis by (auto simp del: regsOverlap_code)
qed

lemma wf_uses:
  assumes "wf_instr m" "GR8 r" "\<not> usesReg r m"
    and q: "q \<in> set (drop (num_outs (opcode m)) (ex_regs (operands m)) @ implicit_uses (opcode m))"
  shows "\<not> regsOverlap q r"
  using assms(1)
proof (rule wf_instrE)
  fix exs kim him
  assume ops: "set (operands m) \<inter> {x. isReg x} = set exs \<union> set kim \<union> set him"
    and rs: "ex_regs (operands m) = map (the \<circ> getReg) exs"
    and cls: "list_all2 (\<lambda>c x. c x) (the (reg_classes (opcode m))) (ex_regs (operands m))"
      "reg_classes (opcode m) \<noteq> None"
    and outs: "\<forall>x \<in> set (take (num_outs (opcode m)) exs). isReg x \<and> isDef x"
    and ins: "\<forall>x \<in> set (drop (num_outs (opcode m)) exs). isReg x \<and> isUse x \<and> \<not> isUndef x"
    and ex: "\<forall>x \<in> set exs. \<not> isImplicit x"
    and d: "list_all2 (described (opcode m)) (implicit_operands (opcode m)) kim"
  assume im: "\<forall>x \<in> set kim \<union> set him. isImplicit x"
  let ?n = "num_outs (opcode m)"
  have no: "\<not> regsOverlap (the (getReg x)) r"
    if "x \<in> set (operands m)" "isReg x" "isUse x" "\<not> isUndef x" "\<not> isArtifact r (operands m) x" for x
    using assms(3) that usesReg_iff by blast
  from q consider "q \<in> set (drop ?n (ex_regs (operands m)))" | "q \<in> set (implicit_uses (opcode m))"
    by auto
  then show ?thesis
  proof cases
    case 1
    then obtain x where x: "x \<in> set (drop ?n exs)" "q = the (getReg x)"
      by (auto simp: rs drop_map)
    then have "x \<in> set exs" by (meson in_set_dropD)
    moreover have "x \<in> set (operands m)" using ops \<open>x \<in> set exs\<close> by blast
    moreover have "\<not> isArtifact r (operands m) x"
      using ex \<open>x \<in> set exs\<close> by (simp add: isArtifact_def)
    ultimately show ?thesis using no [of x] ins x by blast
  next
    case 2
    then obtain x where x: "x \<in> set kim" "isReg x" "isUse x" "\<not> isUndef x" "getReg x = Some q"
      "isImplicit x" "\<not> (opcode m = MOVMr \<and> isKill x)"
      using described_sets(2) [OF d] by blast
    have "\<not> isArtifact r (operands m) x"
    proof
      assume art: "isArtifact r (operands m) x"
      then have "opcode m \<noteq> MOVMr" using x by (auto simp: isArtifact_def)
      from art obtain y p where y: "y \<in> set (operands m)" "isReg y" "\<not> isImplicit y" "isUse y"
        "getReg y = Some p" "isSubRegister q p"
        using x by (auto simp: isArtifact_def list_ex_iff simp del: isSubRegister_code split: option.splits)
      have "y \<in> set exs" using ops y im by blast
      moreover have "y \<notin> set (take ?n exs)" using outs y by (auto elim!: isUse.elims)
      ultimately have "y \<in> set (drop ?n exs)"
        by (metis Un_iff append_take_drop_id set_append)
      then have "p \<in> set (drop ?n (ex_regs (operands m)))"
        using y by (force simp: rs drop_map)
      then show False
        using implicit_use_no_half [OF cls] \<open>opcode m \<noteq> MOVMr\<close> 2 y by blast
    qed
    then show ?thesis using no [of x] x ops by auto
  qed
qed
section \<open>The scans of the code generator meet the contract\<close>

lemma exec_frame:
  assumes "wf_instr m" "GR8 r" "\<not> usesReg r m"
  shows "exec env m (setR r v s) = map_option (map_prod id (if defsReg r m then id else setR r v))
    (exec env m s)"
  unfolding exec_def wf_defs [OF assms(1,2)]
  by (rule step_frame; use assms wf_uses in \<open>auto elim!: wf_instrE simp del: regsOverlap_code\<close>)

lemma exec_leaves: "exec env m s = Some (c, t) \<Longrightarrow> c \<noteq> Next \<Longrightarrow> isTerminator m"
  by (cases "opcode m")
    (auto simp: exec_def step_def isTerminator_def split: list.splits if_splits)

lemma terminator_defs:
  assumes "wf_instr m" "isTerminator m" "GR8 r" shows "\<not> defsReg r m"
  unfolding wf_defs [OF assms(1,3)]
  using assms by (cases "opcode m") (auto elim!: wf_instrE simp: isTerminator_def simp del: regsOverlap_code)

abbreviation differ_in :: "preg \<Rightarrow> cpu \<Rightarrow> cpu \<Rightarrow> bool" where
  "differ_in r s t \<equiv> GR8 r \<and> (\<exists>v. t = setR r v s)"

interpretation v6: dead_scan "exec env" "run env" differ_in usesReg defsReg
    "\<lambda>r ms. isRegDeadAtMI r ms succs" "\<lambda>r. liveOut r succs" wf_instr isTerminator
  for env succs
proof
  fix m r s t
  assume "wf_instr m" "\<not> usesReg r m" "\<not> defsReg r m" "differ_in r s t"
  then show "rel_option (rel_prod (=) (differ_in r)) (exec env m s) (exec env m t)"
    by (cases "exec env m s") (auto simp: exec_frame)
next
  fix m r s t
  assume "wf_instr m" "\<not> usesReg r m" "defsReg r m" "differ_in r s t"
  then show "exec env m s = exec env m t"
    by (auto simp: exec_frame option.map_id0 prod.map_id0)
next
  fix r s t
  assume "differ_in r s t"
  then show "differ_in r s s" by (auto intro: exI [of _ "r8 s r"] simp: setR_def)
next
  fix m r s
  assume "wf_instr m" "isTerminator m"
  then show "\<not> (differ_in r s s \<and> defsReg r m)" using terminator_defs by blast
qed (auto simp: exec_leaves split: if_splits)

end
