(* ===== verification/ScanSound.thy ===== *)
theory ScanSound
  imports LivenessSound
begin

text \<open>
  What the scans of V6ClangInstrInfo.cpp tell about an execution of the block: a dead byte
  register may be clobbered, a block for which \<open>priorClearsCarry\<close> answers true leaves CY
  clear, and an LXI found in the block gives the value of its pair.  Three closed theorems show
  where the answers stop being true: a pair query, a flag definition through PSW, and the scan
  window of \<open>findDefiningLXI\<close>.
\<close>

section \<open>What an instruction leaves alone\<close>

lemma setP_keeps: "GR8 r \<Longrightarrow> GR16All p \<or> p = PSW \<Longrightarrow> \<not> regsOverlap p r \<Longrightarrow> r8 (setP p w s) r = r8 s r"
  by (cases p; cases r; simp)

lemma GR16Stack_setP_keeps: "GR8 r \<Longrightarrow> GR16Stack p \<Longrightarrow> \<not> regsOverlap p r \<Longrightarrow> r8 (setP p w s) r = r8 s r"
  by (rule setP_keeps) (cases p; simp)+

lemma setP_keeps_flags:
  "p \<noteq> PSW \<Longrightarrow> fl (setP p w s) = fl s" "GR16All p \<Longrightarrow> fl (setP p w s) = fl s"
  by (cases p; simp)+

lemma step_keeps_reg:
  assumes "list_all2 (\<lambda>c x. c x) (the (reg_classes opc)) rs" "reg_classes opc \<noteq> None" "GR8 r"
    and "\<forall>q \<in> set (take (num_outs opc) rs @ implicit_defs opc). \<not> regsOverlap q r"
    and "step env opc rs vs bs s = Some (c, t)"
  shows "r8 t r = r8 s r"
  using assms
  by (cases opc; simp add: list_all2_Cons1 del: regsOverlap_code)
    (auto simp: step_def list_all2_Cons1 aluA_def setP_keeps GR16Stack_setP_keeps dad_def setCY_def
      store8_def store16_def push16_def
      simp del: regsOverlap_code getP.simps setP.simps split: list.splits if_splits)

lemma step_keeps_flags:
  assumes "list_all2 (\<lambda>c x. c x) (the (reg_classes opc)) rs" "reg_classes opc \<noteq> None"
    and "FLAGS \<notin> set (implicit_defs opc)" "opc = POP \<longrightarrow> rs \<noteq> [PSW]"
    and "step env opc rs vs bs s = Some (c, t)"
  shows "fl t = fl s"
  using assms
  by (cases opc; simp add: list_all2_Cons1)
    (auto simp: step_def list_all2_Cons1 setP_keeps_flags
      store8_def store16_def push16_def
      simp del: getP.simps setP.simps split: list.splits if_splits)

lemma exec_keeps_reg:
  assumes "wf_instr m" "GR8 r" "\<not> defsReg r m" "exec env m s = Some (c, t)"
  shows "r8 t r = r8 s r"
  using assms(1)
  by (rule wf_instrE) (rule step_keeps_reg, use assms wf_defs [OF assms(1,2)] in
    \<open>auto simp: exec_def simp del: regsOverlap_code\<close>)

lemma exec_keeps_flags:
  assumes "wf_instr m" "\<not> definesRegister True m FLAGS" "exec env m s = Some (c, t)"
  shows "fl t = fl s"
  using assms(1)
proof (rule wf_instrE)
  fix exs kim him
  assume cls: "list_all2 (\<lambda>c x. c x) (the (reg_classes (opcode m))) (ex_regs (operands m))"
      "reg_classes (opcode m) \<noteq> None"
    and ops: "set (operands m) \<inter> {x. isReg x} = set exs \<union> set kim \<union> set him"
    and rs: "ex_regs (operands m) = map (the \<circ> getReg) exs"
    and outs: "\<forall>x \<in> set (take (num_outs (opcode m)) exs). isReg x \<and> isDef x"
    and d: "list_all2 (described (opcode m)) (implicit_operands (opcode m)) kim"
  have def: "definesRegister True m FLAGS"
    if "x \<in> set exs \<union> set kim" "isReg x" "isDef x" "getReg x \<in> {Some FLAGS, Some PSW}" for x
    using that ops by (force simp: definesRegister_def list_ex_iff)
  have "FLAGS \<notin> set (implicit_defs (opcode m))"
    using described_sets(1) [OF d, of "\<lambda>q. q = FLAGS"] def assms(2)
    by (force elim: isReg.elims)
  moreover have "opcode m = POP \<longrightarrow> ex_regs (operands m) \<noteq> [PSW]"
    using outs def [of "exs ! 0"] assms(2) by (cases exs) (auto simp: rs elim!: isReg.elims)
  ultimately show "fl t = fl s"
    using assms by (intro step_keeps_flags [OF cls]) (auto simp: exec_def)
qed

lemma run_keeps:
  assumes "\<And>m s c t. m \<in> set ms \<Longrightarrow> exec env m s = Some (c, t) \<Longrightarrow> P t = P s"
    and "run env ms s = Some (c, t)"
  shows "P t = P s"
  using assms
proof (induction ms arbitrary: s)
  case (Cons m ms)
  then obtain c' u where u: "exec env m s = Some (c', u)" by (auto split: option.splits)
  have "P u = P s" using Cons.prems(1) [of m s c' u] u by simp
  moreover have "P t = P u" if "c' = Next"
    using Cons.IH [of u] Cons.prems u that by auto
  ultimately show ?case using Cons.prems(2) u by (auto split: if_splits)
qed auto

lemma run_Cons_cont:
  "run env (m # ms) s = cont t \<longleftrightarrow> (\<exists>u. exec env m s = cont u \<and> run env ms u = cont t)"
  by (auto split: option.splits if_splits)

lemma run_append_cont:
  "run env (xs @ ys) s = cont t \<longleftrightarrow> (\<exists>u. run env xs s = cont u \<and> run env ys u = cont t)"
  by (auto simp: run_append split: option.splits if_splits)

section \<open>Soundness of the backward scans\<close>

lemma priorClearsCarry_scanE:
  assumes "priorClearsCarry_scan ms"
  obtains xs m ys where "ms = xs @ m # ys" "clearsCarryOpcode (opcode m)"
    "\<And>x. x \<in> set xs \<Longrightarrow> isDebugInstr x \<or> \<not> definesRegister False x FLAGS"
  using assms
proof (induction ms arbitrary: thesis)
  case (Cons m ms)
  show ?case
  proof (cases "isDebugInstr m \<or> \<not> definesRegister False m FLAGS")
    case True
    then have "priorClearsCarry_scan ms" using Cons.prems by (auto split: if_splits)
    then obtain xs m' ys where "ms = xs @ m' # ys" "clearsCarryOpcode (opcode m')"
      "\<And>x. x \<in> set xs \<Longrightarrow> isDebugInstr x \<or> \<not> definesRegister False x FLAGS"
      using Cons.IH by blast
    then show ?thesis using True by (intro Cons.prems(1) [of "m # xs" m' ys]) auto
  next
    case False
    then show ?thesis using Cons.prems by (intro Cons.prems(1) [of "[]" m ms]) auto
  qed
qed simp

lemma clearsCarry_exec:
  "clearsCarryOpcode (opcode m) \<Longrightarrow> exec env m s = Some (c, t) \<Longrightarrow> \<not> fCY (fl t)"
  by (cases "opcode m") (auto simp: exec_def step_def aluA_def Let_def split: list.splits if_splits)

lemma scan_lxiE:
  assumes "scan_lxi n i r ms = ScanFound m j"
  obtains xs ys where "ms = xs @ m # ys" "isLXIof r m" "opImm m 1 \<noteq> None" "j = i + length xs"
    "\<And>x. x \<in> set xs \<Longrightarrow> \<not> modifiesRegister x r"
  using assms
proof (induction n i r ms arbitrary: thesis rule: scan_lxi.induct)
  case (3 n i r m' ms)
  show ?case
  proof (cases "isLXIof r m'")
    case True
    then show ?thesis using 3(3) by (intro 3(2) [of "[]" ms]) (auto split: if_splits)
  next
    case False
    then have "scan_lxi n (Suc i) r ms = ScanFound m j" and nm: "\<not> modifiesRegister m' r"
      using 3(3) by (auto split: if_splits)
    then obtain xs ys where "ms = xs @ m # ys" "isLXIof r m" "opImm m 1 \<noteq> None"
      "j = Suc i + length xs" "\<And>x. x \<in> set xs \<Longrightarrow> \<not> modifiesRegister x r"
      using 3(1) False by metis
    then show ?thesis using nm by (intro 3(2) [of "m' # xs" ys]) auto
  qed
qed simp_all

lemma modifies_half:
  "u \<in> set (regunits r) \<Longrightarrow> regunits u = [u] \<Longrightarrow> defsReg u m \<Longrightarrow> modifiesRegister m r"
  by (force simp: defsReg_iff modifiesRegister_def list_ex_iff elim: isReg.elims)

lemma exec_keeps_pair:
  assumes "wf_instr m" "GR16 r" "\<not> modifiesRegister m r" "exec env m s = Some (c, t)"
  shows "getP r t = getP r s"
proof -
  have "\<not> defsReg u m" if "u \<in> {subHi r, subLo r}" for u
    using modifies_half [of u r m] assms(2,3) that by (auto simp del: isDef.simps)
  moreover have "GR8 (subHi r)" "GR8 (subLo r)" using assms(2) by auto
  ultimately show ?thesis
    using exec_keeps_reg [OF assms(1)] assms(2,4) by auto
qed

lemma ex_vals_imm: "MO_Immediate k \<in> set ops \<Longrightarrow> word_of_int k \<in> set (ex_vals env ops)"
  by (induction ops) (auto split: option.splits)

lemma exec_LXI_setP:
  assumes "wf_instr m" "isLXIof r m" "opImm m 1 = Some k" "GR16 r" "exec env m s = Some (c, t)"
  shows "t = setP r (word_of_int k) s" "getP r t = word_of_int k"
proof -
  obtain d v where vs: "ex_vals env (operands m) = [v]" and rs: "ex_regs (operands m) = [d]"
    and t: "t = setP d v s"
    using assms(2,5) by (auto simp: exec_def step_def isLXIof_def split: list.splits)
  have "1 < length (operands m)" "operands m ! 1 = MO_Immediate k"
    using assms(3) by (auto simp: opImm_def split: if_splits elim: getImm.elims)
  then have "MO_Immediate k \<in> set (operands m)" by (metis nth_mem)
  then have "word_of_int k \<in> set (ex_vals env (operands m))"
    by (rule ex_vals_imm)
  then have "v = word_of_int k" using vs by simp
  moreover have "d = r"
  proof -
    obtain x xs where ops: "operands m = x # xs" "getReg x = Some r"
      using assms(2) by (cases "operands m") (auto simp: isLXIof_def opReg_def split: if_splits)
    have "\<not> isImplicit x"
    proof
      assume "isImplicit x"
      then have "ex_regs (operands m) = []"
        using assms(1) ops by (auto simp: wf_instr_def Let_def ex_regs_explicit filter_empty_conv
            split: option.splits)
      then show False using rs by simp
    qed
    then show ?thesis using rs ops by (cases x) auto
  qed
  ultimately show "t = setP r (word_of_int k) s" "getP r t = word_of_int k"
    using t assms(4) by auto
qed

section \<open>Properties\<close>

text \<open>
  C5.  Clobbering a byte register that \<open>isRegDeadAtMI\<close> finds dead is invisible: the rest of the
  block runs to the same exit and, if it leaves the block with a difference at all, then only in
  that register and only when no successor has it live in.
\<close>

theorem isRegDeadAtMI_sound:
  assumes "list_all wf_instr ms" "final_last isTerminator ms" "GR8 r" "isRegDeadAtMI r ms succs"
  shows "rel_option (same_end (\<lambda>s t. \<exists>v. t = setR r v s) (liveOut r succs))
    (run env ms s) (run env ms (setR r v s))"
proof -
  have "rel_option (same_end (differ_in r) (liveOut r succs))
    (run env ms s) (run env ms (setR r v s))"
    using assms by (intro v6.dead_sound) auto
  then show ?thesis by (rule option.rel_mono_strong) (auto simp: same_end_def)
qed

definition demo_dead :: "machine_instr list" where
  "demo_dead = [BuildMI MOVrr [addRegDef A, addReg H], BuildMI MVIr [addRegDef B, addImm 7],
     BuildMI (ALUr ADD) [addRegDef A, addReg A, addReg B], BuildMI RET []]"

lemmas wf_eval = wf_instr_def Let_def BuildMI_def implicit_operands_def explicit_regs_def
  implicit_regs_def isTerminator_def usesReg_def defsReg_def liveOut_def

theorem isRegDeadAtMI_sound_witness:
  "\<forall>env s. rel_option (same_end (\<lambda>s t. \<exists>v. t = setR B v s) (liveOut B [[HL]]))
    (run env demo_dead s) (run env demo_dead (setR B 99 s))"
  by (intro allI, rule isRegDeadAtMI_sound) (simp_all add: demo_dead_def wf_eval)

text \<open>
  C31.  \<open>findDeadGR8AtMI\<close> returns a byte register other than A that overlaps neither excluded
  register and that may be clobbered.
\<close>

theorem findDeadGR8AtMI_sound:
  assumes "findDeadGR8AtMI ms succs ex1 ex2 = Some r"
    and "list_all wf_instr ms" "final_last isTerminator ms"
  shows "GR8 r \<and> r \<noteq> A \<and> (\<forall>x. ex1 = Some x \<or> ex2 = Some x \<longrightarrow> \<not> regsOverlap r x)
    \<and> rel_option (same_end (differ_in r) (liveOut r succs)) (run env ms s) (run env ms (setR r v s))"
proof -
  from assms(1) have r: "r \<in> {B, C, D, E, H, L}" and dead: "isRegDeadAtMI r ms succs"
    and ex: "\<forall>x. ex1 = Some x \<or> ex2 = Some x \<longrightarrow> \<not> regsOverlap r x"
    unfolding findDeadGR8AtMI_def
    by (auto simp: find_Some_iff nth_Cons' split: if_splits option.splits simp del: regsOverlap_code)
  then have "GR8 r" by auto
  then have "rel_option (same_end (differ_in r) (liveOut r succs)) (run env ms s) (run env ms (setR r v s))"
    using assms dead by (intro v6.dead_sound) auto
  then show ?thesis using r ex \<open>GR8 r\<close> by auto
qed

theorem findDeadGR8AtMI_sound_witness:
  "\<forall>env s. rel_option (same_end (differ_in B) (liveOut B [[HL]]))
    (run env demo_dead s) (run env demo_dead (setR B 99 s))"
  by (intro allI, use findDeadGR8AtMI_sound [of demo_dead "[[HL]]" "Some HL" None B] in
      \<open>simp add: findDeadGR8AtMI_def demo_dead_def wf_eval\<close>)

text \<open>
  C30.  When \<open>priorClearsCarry\<close> answers true, every execution of the block up to the position ends
  with CY clear, provided each flag definition names FLAGS itself (\<open>definesRegister\<close> without
  register info sees no other).
\<close>

theorem priorClearsCarry_sound:
  assumes "priorClearsCarry bef" "\<forall>m \<in> set bef. wf_instr m \<or> isDebugInstr m"
    and "\<forall>m \<in> set bef. definesRegister True m FLAGS = definesRegister False m FLAGS"
    and "run env bef s = cont t"
  shows "\<not> fCY (fl t)"
proof -
  obtain xs m ys where ms: "rev bef = xs @ m # ys" and m: "clearsCarryOpcode (opcode m)"
    and xs: "\<And>x. x \<in> set xs \<Longrightarrow> isDebugInstr x \<or> \<not> definesRegister False x FLAGS"
    using assms(1) unfolding priorClearsCarry_def by (rule priorClearsCarry_scanE) blast
  from ms have bef: "bef = (rev ys @ [m]) @ rev xs" by (metis append.assoc append_Cons append_Nil
    rev.simps(2) rev_append rev_rev_ident)
  then obtain u v where u: "run env (rev ys) s = cont u" "exec env m u = cont v"
    "run env (rev xs) v = cont t"
    using assms(4) by (auto simp: run_append_cont run_Cons_cont simp del: run.simps(2))
  have "fl t = fl v"
  proof (rule run_keeps [OF _ u(3)])
    fix x p c q
    assume x: "x \<in> set (rev xs)" and ex: "exec env x p = Some (c, q)"
    show "fl q = fl p"
    proof (cases "isDebugInstr x")
      case True
      then show ?thesis using ex by (auto simp: isDebugInstr_def exec_def step_def)
    next
      case False
      have "x \<in> set bef" using x bef by simp
      then have "wf_instr x" and "\<not> definesRegister True x FLAGS"
        using assms(2,3) xs [of x] x False by auto
      then show ?thesis using exec_keeps_flags ex by blast
    qed
  qed
  then show ?thesis using clearsCarry_exec [OF m u(2)] by simp
qed

definition demo_carry :: "machine_instr list" where
  "demo_carry = [BuildMI (ALUr ANA) [addRegDef A, addReg A, addReg B],
     BuildMI MOVrr [addRegDef C, addReg A]]"

theorem priorClearsCarry_sound_witness:
  "\<forall>env s. \<exists>t. run env demo_carry s = cont t \<and> \<not> fCY (fl t)"
proof (intro allI)
  fix env s
  obtain t where t: "run env demo_carry s = cont t"
    by (simp add: demo_carry_def exec_simps)
  moreover have "\<not> fCY (fl t)"
    using t by (rule priorClearsCarry_sound [rotated 3])
      (simp_all add: demo_carry_def wf_eval priorClearsCarry_def definesRegister_def isDebugInstr_def)
  ultimately show "\<exists>t. run env demo_carry s = cont t \<and> \<not> fCY (fl t)" by blast
qed

text \<open>
  C29.  An LXI that \<open>findDefiningLXI\<close> finds in the block itself fixes the value of its pair at the
  position.
\<close>

theorem findDefiningLXI_sound:
  assumes "findDefiningLXI c r = Some (m, Some i)" "GR16 r" "\<forall>x \<in> set (before c). wf_instr x"
    and "run env (before c) s = cont t"
  shows "\<exists>k. opImm m 1 = Some k \<and> getP r t = word_of_int k \<and> m \<in> set (before c)"
proof -
  have "scan_lxi 16 0 r (rev (before c)) = ScanFound m i"
    using assms(1) by (auto simp: findDefiningLXI_def split: lxi_scan.splits)
  then obtain xs ys where ms: "rev (before c) = xs @ m # ys" and m: "isLXIof r m" "opImm m 1 \<noteq> None"
    and xs: "\<And>x. x \<in> set xs \<Longrightarrow> \<not> modifiesRegister x r"
    by (rule scan_lxiE) blast
  from ms have bef: "before c = (rev ys @ [m]) @ rev xs" by (metis append.assoc append_Cons append_Nil
    rev.simps(2) rev_append rev_rev_ident)
  then obtain u v where u: "exec env m u = cont v" "run env (rev xs) v = cont t"
    using assms(4) by (auto simp: run_append_cont run_Cons_cont simp del: run.simps(2))
  obtain k where k: "opImm m 1 = Some k" using m by auto
  have "getP r t = getP r v"
  proof (rule run_keeps [OF _ u(2)])
    fix x p a q
    assume x: "x \<in> set (rev xs)" and ex: "exec env x p = Some (a, q)"
    have "wf_instr x" "\<not> modifiesRegister x r" using x xs bef assms(3) by auto
    then show "getP r q = getP r p" using exec_keeps_pair [OF _ assms(2) _ ex] by simp
  qed
  moreover have "getP r v = word_of_int k"
    using exec_LXI_setP(2) [OF _ m(1) k assms(2) u(1)] assms(3) bef by simp
  ultimately show ?thesis using k bef by simp
qed

definition demo_lxi :: "machine_instr list" where
  "demo_lxi = [BuildMI LXI [addRegDef DE, addImm 513], BuildMI MVIr [addRegDef L, addImm 7]]"

theorem findDefiningLXI_sound_witness:
  "\<exists>k. opImm (demo_lxi ! 0) 1 = Some k \<and> (\<forall>env s. \<exists>t. run env demo_lxi s = cont t \<and> getP DE t = word_of_int k)"
proof (rule exI [of _ 513], intro conjI allI)
  show "opImm (demo_lxi ! 0) 1 = Some 513" by (simp add: demo_lxi_def opImm_def BuildMI_def)
  fix env :: senv and s
  let ?c = "\<lparr>before = demo_lxi, after = [], liveIns = [], succLiveIns = [], preds = []\<rparr>"
  have "findDefiningLXI ?c DE = Some (demo_lxi ! 0, Some 1)"
    by (simp add: findDefiningLXI_def demo_lxi_def isLXIof_def opReg_def opImm_def BuildMI_def
        modifiesRegister_def implicit_operands_def numeral_eq_Suc)
  moreover have "run env demo_lxi s = cont (setR L (lo8 7) (setP DE 513 s))"
    by (simp add: demo_lxi_def exec_simps)
  ultimately show "\<exists>t. run env demo_lxi s = cont t \<and> getP DE t = word_of_int 513"
    using findDefiningLXI_sound [of ?c DE "demo_lxi ! 0" 1 env s] 
    by (auto simp: demo_lxi_def wf_eval opImm_def)
qed

section \<open>Where the scans are not sound\<close>

definition pair_block :: "machine_instr list" where
  "pair_block = [BuildMI MVIr [addRegDef L, addImm 0], BuildMI MOVrr [addRegDef A, addReg H]]"

text \<open>
  C36.  For a pair \<open>isRegDeadAtMI\<close> is not a clobbering test: redefining L makes HL dead although
  H is still read, and the rest of the block then sees the difference.
\<close>

theorem isRegDeadAtMI_pair_unsound:
  "list_all wf_instr pair_block \<and> isRegDeadAtMI HL pair_block [[A]]
    \<and> \<not> isRegDeadAtMI H pair_block [[A]]
    \<and> run env pair_block (setP HL 0 s) \<noteq> run env pair_block (setP HL 256 s)"
proof -
  have run: "run env pair_block p = cont (setR A (r8 p H) (setR L 0 p))" for p
    by (simp add: pair_block_def exec_simps)
  have "r8 (setP HL 0 s) H \<noteq> r8 (setP HL 256 s) H"
    by (simp add: hi8_def drop_bit_eq_div)
  then have "run env pair_block (setP HL 0 s) \<noteq> run env pair_block (setP HL 256 s)"
    unfolding run by (metis Pair_inject option.inject r8_setR)
  moreover have "list_all wf_instr pair_block \<and> isRegDeadAtMI HL pair_block [[A]]
      \<and> \<not> isRegDeadAtMI H pair_block [[A]]"
    by (simp add: pair_block_def wf_eval isArtifact_def)
  ultimately show ?thesis by simp
qed

definition artifact_store :: machine_instr where
  "artifact_store = \<lparr>opcode = MOVMr,
     operands = [addReg L, MO_Register HL False True True False False]\<rparr>"

text \<open>
  The kill mark on the address pair of a store makes its unread half look unused: H is
  reported dead in front of \<open>MOV M,L\<close>, which reads H for the address.
\<close>

theorem isRegDeadAtMI_artifact_unsound:
  "isRegDeadAtMI H [artifact_store] []
    \<and> run env [artifact_store] (setR H 0 s) = cont (store8 (mk16 0 (r8 s L)) (r8 s L) (setR H 0 s))
    \<and> run env [artifact_store] (setR H 1 s) = cont (store8 (mk16 1 (r8 s L)) (r8 s L) (setR H 1 s))"
  by (simp add: artifact_store_def usesReg_def defsReg_def liveOut_def isArtifact_def exec_def step_def
      del: updates_setR)

definition psw_block :: "machine_instr list" where
  "psw_block = [BuildMI (ALUr ANA) [addRegDef A, addReg A, addReg A], BuildMI POP [addRegDef PSW]]"

text \<open>
  The flag definition of \<open>POP PSW\<close> is not seen by \<open>priorClearsCarry\<close>: the answer is true
  although CY comes from the stack.
\<close>

theorem priorClearsCarry_PSW_unsound:
  "priorClearsCarry psw_block \<and> (\<exists>t. run env psw_block s = cont t \<and> (fCY (fl t) \<longleftrightarrow> bit (mem s (sp s)) 0))"
  by (simp add: psw_block_def priorClearsCarry_def definesRegister_def isDebugInstr_def BuildMI_def
      implicit_operands_def exec_def step_def aluA_def pop16_def unpack_flags_def)

definition window_ctx :: mbb_ctx where
  "window_ctx = \<lparr>before = BuildMI MVIr [addRegDef L, addImm 7] # replicate 16 (BuildMI NOP []),
     after = [], liveIns = [HL], succLiveIns = [],
     preds = [(False, [BuildMI LXI [addRegDef HL, addImm 513]])]\<rparr>"

lemma run_NOPs: "run env (replicate n (BuildMI NOP [])) s = cont s"
  by (induction n) (simp_all add: exec_BuildMI step_def)

text \<open>
  C37.  A block whose last sixteen instructions leave HL alone counts as not modifying HL at all:
  \<open>findDefiningLXI\<close> then answers with the LXI of the predecessor although L was overwritten.
\<close>

theorem findDefiningLXI_window_unsound:
  "findDefiningLXI window_ctx HL = Some (BuildMI LXI [addRegDef HL, addImm 513], None)
    \<and> (\<exists>t. run env (BuildMI LXI [addRegDef HL, addImm 513] # before window_ctx) s = cont t
        \<and> getP HL t = 519)"
proof
  have "\<not> modifiesRegister (BuildMI NOP []) HL"
    by (simp add: modifiesRegister_def BuildMI_def implicit_operands_def)
  then have "scan_lxi n i HL (replicate n (BuildMI NOP []) @ ms) = ScanEnd" for n i ms
    by (induction n arbitrary: i) (simp_all add: isLXIof_def BuildMI_def)
  then have "scan_lxi 16 0 HL (rev (before window_ctx)) = ScanEnd"
    by (simp add: window_ctx_def)
  then show "findDefiningLXI window_ctx HL = Some (BuildMI LXI [addRegDef HL, addImm 513], None)"
    by (simp add: findDefiningLXI_def)
      (simp add: window_ctx_def isLXIof_def opReg_def opImm_def BuildMI_def numeral_eq_Suc)
  have "mk16 2 7 = 519" by (simp add: mk16_def)
  moreover have "hi8 513 = 2" by (simp add: hi8_def drop_bit_eq_div)
  moreover have "lo8 7 = 7" by (simp add: lo8_def)
  ultimately show "\<exists>t. run env (BuildMI LXI [addRegDef HL, addImm 513] # before window_ctx) s = cont t
        \<and> getP HL t = 519"
    by (simp add: window_ctx_def exec_simps run_NOPs)
qed
end
