(* ===== verification/InstrCost.thy ===== *)
theory InstrCost
  imports Main
begin

text \<open>
  The dual cost model of V6ClangInstrCost.h: bytes and cycles, composed into one number by the
  optimization mode.  The 32-bit fields and the 64-bit result are integers here; the costs the
  code generator forms stay far below their bounds.
\<close>

datatype (plugins only: code size) V6ClangOptMode = Speed | Size | Balanced

definition getV6ClangOptMode :: "bool \<Rightarrow> bool \<Rightarrow> nat \<Rightarrow> V6ClangOptMode" where
  "getV6ClangOptMode hasMinSize hasOptSize optLevel =
    (if hasMinSize \<or> hasOptSize then Size else if 2 \<le> optLevel then Speed else Balanced)"

record V6ClangInstrCost =
  Bytes :: int
  Cycles :: int

abbreviation cost :: "int \<Rightarrow> int \<Rightarrow> V6ClangInstrCost" where
  "cost b c \<equiv> \<lparr>Bytes = b, Cycles = c\<rparr>"

fun cost_value :: "V6ClangInstrCost \<Rightarrow> V6ClangOptMode \<Rightarrow> int" where
  "cost_value x Speed = Cycles x * 2 ^ 16 + Bytes x"
| "cost_value x Size = Bytes x * 2 ^ 16 + Cycles x"
| "cost_value x Balanced = Bytes x + Cycles x"

definition isCheaperThan :: "V6ClangInstrCost \<Rightarrow> V6ClangInstrCost \<Rightarrow> V6ClangOptMode \<Rightarrow> bool" where
  "isCheaperThan x y m = (cost_value x m < cost_value y m)"

definition isCheaperOrEqual :: "V6ClangInstrCost \<Rightarrow> V6ClangInstrCost \<Rightarrow> V6ClangOptMode \<Rightarrow> bool" where
  "isCheaperOrEqual x y m = (cost_value x m \<le> cost_value y m)"

definition cost_add :: "V6ClangInstrCost \<Rightarrow> V6ClangInstrCost \<Rightarrow> V6ClangInstrCost" where
  "cost_add x y = cost (Bytes x + Bytes y) (Cycles x + Cycles y)"

definition cost_mul :: "V6ClangInstrCost \<Rightarrow> int \<Rightarrow> V6ClangInstrCost" where
  "cost_mul x n = cost (Bytes x * n) (Cycles x * n)"

definition cost_INX :: V6ClangInstrCost where "cost_INX = cost 1 8"
definition cost_LXI :: V6ClangInstrCost where "cost_LXI = cost 3 12"
definition cost_DAD :: V6ClangInstrCost where "cost_DAD = cost 1 12"

lemmas cost_defs = isCheaperThan_def isCheaperOrEqual_def cost_add_def cost_mul_def cost_INX_def
  cost_LXI_def cost_DAD_def

text \<open>Costs of instruction sequences that an expansion compares: below 2^16 in each component.\<close>

definition cost_in_range :: "V6ClangInstrCost \<Rightarrow> bool" where
  "cost_in_range x = (0 \<le> Bytes x \<and> Bytes x < 2 ^ 16 \<and> 0 \<le> Cycles x \<and> Cycles x < 2 ^ 16)"

text \<open>
  In the range of real costs the composed value orders lexicographically: cycles first for
  speed, bytes first for size, and the sum otherwise.
\<close>

theorem isCheaperThan_lex:
  assumes "cost_in_range x" "cost_in_range y"
  shows "isCheaperThan x y m = (case m of
      Speed \<Rightarrow> Cycles x < Cycles y \<or> Cycles x = Cycles y \<and> Bytes x < Bytes y
    | Size \<Rightarrow> Bytes x < Bytes y \<or> Bytes x = Bytes y \<and> Cycles x < Cycles y
    | Balanced \<Rightarrow> Bytes x + Cycles x < Bytes y + Cycles y)"
  using assms by (cases m) (auto simp: isCheaperThan_def cost_in_range_def)

theorem isCheaperThan_lex_witness:
  "isCheaperThan (cost_mul cost_INX 3) (cost_add cost_LXI cost_DAD) Size"
  using isCheaperThan_lex [of "cost_mul cost_INX 3" "cost_add cost_LXI cost_DAD" Size]
  by (simp add: cost_defs cost_in_range_def)

text \<open>The chains that the comparison with LXI; DAD admits.\<close>

lemma inx_chain_limit:
  "isCheaperOrEqual (cost_mul cost_INX n) (cost_add cost_LXI cost_DAD) m \<Longrightarrow> n \<le> 3"
  by (cases m) (simp_all add: cost_defs)

end
