(* ===== verification/Frame.thy ===== *)
theory Frame
  imports Liveness
begin

text \<open>
  How the correctness of emitted code is stated: the code runs to its end, the destination
  holds the specified value, and everything outside a given set of registers and memory cells
  is unchanged.  The registers that the dead scans license an expansion to clobber are
  \<open>dead_regs\<close>.
\<close>

section \<open>Unchanged state\<close>

definition unchanged :: "preg set \<Rightarrow> u16 set \<Rightarrow> cpu \<Rightarrow> cpu \<Rightarrow> bool" where
  "unchanged X M s t \<longleftrightarrow> (\<forall>q. GR8 q \<longrightarrow> q \<notin> X \<longrightarrow> r8 t q = r8 s q)
     \<and> (FLAGS \<notin> X \<longrightarrow> fl t = fl s) \<and> (SP \<notin> X \<longrightarrow> sp t = sp s)
     \<and> (\<forall>a. a \<notin> M \<longrightarrow> mem t a = mem s a)
     \<and> inte t = inte s \<and> iolog t = iolog s"

lemma GR8_all: "(\<forall>q. GR8 q \<longrightarrow> P q) \<longleftrightarrow> P A \<and> P B \<and> P C \<and> P D \<and> P E \<and> P H \<and> P L"
  by (auto elim!: GR8_cases)

lemma unchanged_code:
  "unchanged X M s t \<longleftrightarrow>
     (A \<in> X \<or> r8 t A = r8 s A) \<and> (B \<in> X \<or> r8 t B = r8 s B) \<and> (C \<in> X \<or> r8 t C = r8 s C)
     \<and> (D \<in> X \<or> r8 t D = r8 s D) \<and> (E \<in> X \<or> r8 t E = r8 s E) \<and> (H \<in> X \<or> r8 t H = r8 s H)
     \<and> (L \<in> X \<or> r8 t L = r8 s L) \<and> (FLAGS \<in> X \<or> fl t = fl s) \<and> (SP \<in> X \<or> sp t = sp s)
     \<and> (\<forall>a. a \<notin> M \<longrightarrow> mem t a = mem s a) \<and> inte t = inte s \<and> iolog t = iolog s"
  unfolding unchanged_def GR8_all by blast

lemma unchanged_refl [simp]: "unchanged X M s s"
  by (simp add: unchanged_def)

lemma unchanged_mono: "unchanged X M s t \<Longrightarrow> X \<subseteq> Y \<Longrightarrow> M \<subseteq> N \<Longrightarrow> unchanged Y N s t"
  unfolding unchanged_def by blast

lemma unchanged_trans:
  "unchanged X M s t \<Longrightarrow> unchanged X M t u \<Longrightarrow> unchanged X M s u"
  by (auto simp: unchanged_def)

text \<open>The two bytes below the stack pointer, which a balanced PUSH / POP overwrites.\<close>

definition below_sp :: "cpu \<Rightarrow> u16 set" where
  "below_sp s = {sp s - 1, sp s - 2}"

text \<open>The value of a byte register or a pair, and its byte registers.\<close>

definition readR :: "preg \<Rightarrow> cpu \<Rightarrow> u16" where
  "readR r s = (if GR8 r then ucast (r8 s r) else getP r s)"

definition units :: "preg \<Rightarrow> preg set" where
  "units r = set (regunits r)"

lemma units_simps [simp]:
  "units BC = {B, C}" "units DE = {D, E}" "units HL = {H, L}" "units PSW = {A, FLAGS}"
  "units A = {A}" "units B = {B}" "units C = {C}" "units D = {D}" "units E = {E}"
  "units H = {H}" "units L = {L}" "units FLAGS = {FLAGS}" "units SP = {SP}"
  by (auto simp: units_def)

lemma units_GR8: "GR8 r \<Longrightarrow> units r = {r}"
  by (cases r) auto

section \<open>Registers that may be clobbered\<close>

definition dead_regs :: "machine_instr list \<Rightarrow> preg list list \<Rightarrow> preg set" where
  "dead_regs ms succs = {r. GR8 r \<and> isRegDeadAtMI r ms succs}"

text \<open>
  A pair may be clobbered when both of its halves are dead; \<open>pair_scan_ok\<close> says that the scan of
  the pair, which answers for the old pair value only, does not promise more than that.
\<close>

definition pair_scan_ok :: "preg \<Rightarrow> machine_instr list \<Rightarrow> preg list list \<Rightarrow> bool" where
  "pair_scan_ok r ms succs = (isRegDeadAtMI r ms succs \<longrightarrow>
     isRegDeadAtMI (subHi r) ms succs \<and> isRegDeadAtMI (subLo r) ms succs)"

lemma isRegDeadAfter_eq [simp]: "isRegDeadAfter ms succs r = isRegDeadAtMI r ms succs"
  by (induction ms) auto

lemma pair_scan_okD:
  "pair_scan_ok r ms succs \<Longrightarrow> isRegDeadAtMI r ms succs \<Longrightarrow> GR16 r
    \<Longrightarrow> subHi r \<in> dead_regs ms succs \<and> subLo r \<in> dead_regs ms succs"
  by (auto simp: pair_scan_ok_def dead_regs_def)

section \<open>Symbolic states\<close>

lemma r8_simps [simp]:
  "r8 (aluA op b s) q = (if q = A then fst (alu op (r8 s A) b (fl s)) else r8 s q)"
  "r8 (setCY cy s) q = r8 s q" "r8 (store8 a v s) q = r8 s q" "r8 (store16 a w s) q = r8 s q"
  "r8 (push16 w s) q = r8 s q"
  by (simp_all add: aluA_def setCY_def store8_def store16_def push16_def)

lemma fl_simps [simp]:
  "fl (aluA op b s) = snd (alu op (r8 s A) b (fl s))"
  "fl (setCY cy s) = (fl s)\<lparr>fCY := cy\<rparr>" "fl (store8 a v s) = fl s" "fl (store16 a w s) = fl s"
  "fl (push16 w s) = fl s"
  by (simp_all add: aluA_def setCY_def store8_def store16_def push16_def)

lemma sp_simps [simp]:
  "sp (aluA op b s) = sp s" "sp (setCY cy s) = sp s" "sp (store8 a v s) = sp s"
  "sp (store16 a w s) = sp s" "sp (push16 w s) = sp s - 2"
  by (simp_all add: aluA_def setCY_def store8_def store16_def push16_def)

lemma mem_simps [simp]:
  "mem (aluA op b s) = mem s" "mem (setCY cy s) = mem s"
  "mem (store8 a v s) = (mem s)(a := v)"
  "mem (store16 a w s) = (mem s)(a := lo8 w, a + 1 := hi8 w)"
  "mem (push16 w s) = (mem s)(sp s - 1 := hi8 w, sp s - 2 := lo8 w)"
  by (simp_all add: aluA_def setCY_def store8_def store16_def push16_def)

lemma misc_simps [simp]:
  "inte (aluA op b s) = inte s" "inte (setCY cy s) = inte s" "inte (store8 a v s) = inte s"
  "inte (store16 a w s) = inte s" "inte (push16 w s) = inte s"
  "iolog (aluA op b s) = iolog s" "iolog (setCY cy s) = iolog s" "iolog (store8 a v s) = iolog s"
  "iolog (store16 a w s) = iolog s" "iolog (push16 w s) = iolog s"
  by (simp_all add: aluA_def setCY_def store8_def store16_def push16_def)

lemma mk16_zero [simp]: "mk16 0 0 = 0"
  by (simp add: mk16_def)

lemma word_step_neq [simp]: "(w :: u16) - 1 \<noteq> w - 2" "(w :: u16) - 2 \<noteq> w - 1" "(w::u16) + 1 \<noteq> w"
  "w - 2 + 1 = (w - 1 :: u16)"
  by (simp_all add: algebra_simps)

end
