(* ===== verification/CopyReg.thy ===== *)
theory CopyReg
  imports Frame
begin

text \<open>
  \<open>copyPhysReg\<close>, \<open>storeRegToStackSlot\<close> and \<open>loadRegFromStackSlot\<close>: copies between physical
  registers and the spill and reload pseudos.  \<open>None\<close> is \<open>llvm_unreachable\<close>.
\<close>

definition copyPhysReg :: "preg \<Rightarrow> preg \<Rightarrow> bool \<Rightarrow> machine_instr list option" where
  "copyPhysReg DestReg SrcReg KillSrc =
    (if GR8 DestReg \<and> GR8 SrcReg then
       Some [BuildMI MOVrr [addRegDef DestReg, addRegKill SrcReg KillSrc]]
     else if GR16 DestReg \<and> GR16 SrcReg then
       if KillSrc \<and> (DestReg = HL \<and> SrcReg = DE \<or> DestReg = DE \<and> SrcReg = HL)
       then Some [BuildMI XCHG []]
       else Some [BuildMI MOVrr [addRegDef (subHi DestReg), addRegKill (subHi SrcReg) KillSrc],
                  BuildMI MOVrr [addRegDef (subLo DestReg), addRegKill (subLo SrcReg) KillSrc]]
     else if DestReg = HL \<and> SrcReg = SP then
       Some [BuildMI LXI [addRegDef HL, addImm 0], BuildMI DAD [addReg SP]]
     else if SrcReg = SP \<and> (DestReg = DE \<or> DestReg = BC) then
       Some [BuildMI PUSH [addReg HL],
             BuildMI LXI [addRegDef HL, addImm 2],
             BuildMI DAD [addReg SP],
             BuildMI MOVrr [addRegDef (subHi DestReg), addReg H],
             BuildMI MOVrr [addRegDef (subLo DestReg), addReg L],
             BuildMI POP [addRegDef HL]]
     else None)"

text \<open>
  C26.  A copy runs to its end and gives the destination the old value of the source.  It changes
  no other register unless the source is killed, flags only when the source is SP, and memory
  only in the two bytes below SP, and there only for a copy of SP to DE or BC.
\<close>

theorem copyPhysReg_correct:
  assumes "copyPhysReg d r k = Some ms"
  shows "\<exists>t. run env ms s = cont t \<and> readR d t = readR r s
    \<and> unchanged (units d \<union> (if k then units r - {SP} else {}) \<union> (if r = SP then {FLAGS} else {}))
        (if r = SP \<and> d \<noteq> HL then below_sp s else {}) s t"
proof -
  consider "GR8 d" "GR8 r" | "GR16 d" "GR16 r" | "d = HL" "r = SP" | "r = SP" "d = DE \<or> d = BC"
    using assms by (auto simp: copyPhysReg_def split: if_splits)
  then show ?thesis
  proof cases
    case 1
    then show ?thesis
      using assms by (auto simp: copyPhysReg_def exec_simps readR_def unchanged_def units_GR8)
  next
    case 2
    then show ?thesis
      using assms by (elim GR16_cases)
        (auto simp: copyPhysReg_def exec_simps readR_def unchanged_code split: if_splits)
  next
    case 3
    then show ?thesis
      using assms by (auto simp: copyPhysReg_def exec_simps readR_def unchanged_code dad_def)
  next
    case 4
    then show ?thesis
      using assms
      by (auto simp: copyPhysReg_def exec_simps readR_def unchanged_code dad_def pop16_def below_sp_def)
  qed
qed

theorem copyPhysReg_correct_witness:
  "\<forall>env s. \<exists>ms t. copyPhysReg DE SP False = Some ms \<and> run env ms s = cont t
    \<and> readR DE t = sp s \<and> unchanged {D, E, FLAGS} (below_sp s) s t"
proof (intro allI)
  fix env s
  obtain ms where ms: "copyPhysReg DE SP False = Some ms" by (simp add: copyPhysReg_def)
  from copyPhysReg_correct [OF this, of env s] show "\<exists>ms t. copyPhysReg DE SP False = Some ms
      \<and> run env ms s = cont t \<and> readR DE t = sp s \<and> unchanged {D, E, FLAGS} (below_sp s) s t"
    using ms by (auto simp: readR_def insert_commute)
qed

section \<open>Spill slots\<close>

text \<open>The register classes of V6ClangRegisterInfo.td and the subclass relation they induce.\<close>

datatype (plugins only: code size) reg_class =
  RC_GR8 | RC_GR8NoA | RC_GR8NoHL | RC_Acc | RC_GR16 | RC_GR16Ptr | RC_GR16Idx | RC_GR16SP
| RC_GR16All | RC_GR16Stack | RC_FlagReg

fun members :: "reg_class \<Rightarrow> preg list" where
  "members RC_GR8 = [A, L, H, E, D, C, B]"
| "members RC_GR8NoA = [L, H, E, D, C, B]"
| "members RC_GR8NoHL = [A, E, D, C, B]"
| "members RC_Acc = [A]"
| "members RC_GR16 = [HL, DE, BC]"
| "members RC_GR16Ptr = [HL]"
| "members RC_GR16Idx = [BC, DE]"
| "members RC_GR16SP = [SP]"
| "members RC_GR16All = [HL, DE, BC, SP]"
| "members RC_GR16Stack = [HL, DE, BC, PSW]"
| "members RC_FlagReg = [FLAGS]"

definition hasSubClassEq :: "reg_class \<Rightarrow> reg_class \<Rightarrow> bool" where
  "hasSubClassEq rc sub = list_all (\<lambda>r. List.member (members rc) r) (members sub)"

definition storeRegToStackSlot ::
  "preg \<Rightarrow> bool \<Rightarrow> int \<Rightarrow> reg_class \<Rightarrow> machine_instr list option" where
  "storeRegToStackSlot SrcReg killSrc FrameIndex RC =
    (if hasSubClassEq RC_GR8 RC \<or> hasSubClassEq RC_Acc RC then
       Some [BuildMI (PSEUDO V6CLANG_SPILL8) [addRegKill SrcReg killSrc, MO_FrameIndex FrameIndex]]
     else if hasSubClassEq RC_GR16 RC then
       Some [BuildMI (PSEUDO V6CLANG_SPILL16) [addRegKill SrcReg killSrc, MO_FrameIndex FrameIndex]]
     else None)"

definition loadRegFromStackSlot ::
  "preg \<Rightarrow> int \<Rightarrow> reg_class \<Rightarrow> machine_instr list option" where
  "loadRegFromStackSlot DestReg FrameIndex RC =
    (if hasSubClassEq RC_GR8 RC \<or> hasSubClassEq RC_Acc RC then
       Some [BuildMI (PSEUDO V6CLANG_RELOAD8) [addRegDef DestReg, MO_FrameIndex FrameIndex]]
     else if hasSubClassEq RC_GR16 RC then
       Some [BuildMI (PSEUDO V6CLANG_RELOAD16) [addRegDef DestReg, MO_FrameIndex FrameIndex]]
     else None)"

text \<open>The slot width of a register that a class holds: every allocatable class has one.\<close>

lemma spill_slots_match:
  assumes "List.member (members rc) r"
  shows "(storeRegToStackSlot r k fi rc \<noteq> None) = (loadRegFromStackSlot r fi rc \<noteq> None)"
    and "storeRegToStackSlot r k fi rc = Some ms \<Longrightarrow>
      ms = [BuildMI (PSEUDO (if GR8 r then V6CLANG_SPILL8 else V6CLANG_SPILL16))
              [addRegKill r k, MO_FrameIndex fi]] \<and> (GR8 r \<or> GR16 r)"
    and "loadRegFromStackSlot r fi rc = Some ms \<Longrightarrow>
      ms = [BuildMI (PSEUDO (if GR8 r then V6CLANG_RELOAD8 else V6CLANG_RELOAD16))
              [addRegDef r, MO_FrameIndex fi]]"
  using assms
  by (cases rc; auto simp: storeRegToStackSlot_def loadRegFromStackSlot_def hasSubClassEq_def
      List.member_iff)+

end
