(* ===== verification/Branches.thy ===== *)
theory Branches
  imports Frame
begin

text \<open>
  Branch analysis: \<open>analyzeBranch\<close>, \<open>removeBranch\<close>, \<open>insertBranch\<close> and
  \<open>reverseBranchCondition\<close>.  A block is its list of instructions; what the generic passes rely on
  is stated through the exit that the terminators take.
\<close>

section \<open>Conditions and opcodes\<close>

fun getCondFromJcc :: "opcode \<Rightarrow> cond option" where
  "getCondFromJcc (Jcc c) = Some c" | "getCondFromJcc _ = None"

fun getJccFromCond :: "cond \<Rightarrow> opcode" where
  "getJccFromCond c = Jcc c"

fun getOppositeCond :: "cond \<Rightarrow> cond" where
  "getOppositeCond COND_NZ = COND_Z"
| "getOppositeCond COND_Z = COND_NZ"
| "getOppositeCond COND_NC = COND_C"
| "getOppositeCond COND_C = COND_NC"
| "getOppositeCond COND_PO = COND_PE"
| "getOppositeCond COND_PE = COND_PO"
| "getOppositeCond COND_P = COND_M"
| "getOppositeCond COND_M = COND_P"

fun isCondBranch :: "opcode \<Rightarrow> bool" where
  "isCondBranch (Jcc c) = True" | "isCondBranch _ = False"

definition isUncondBranch :: "opcode \<Rightarrow> bool" where
  "isUncondBranch opc = (opc = JMP)"

section \<open>analyzeBranch\<close>

text \<open>
  The result of the analysis: \<open>giveUp\<close> is the returned bool (true when the block is not
  understood); the other fields are the out-parameters as they are left.
\<close>

record branch_info =
  giveUp :: bool
  TBB :: "nat option"
  FBB :: "nat option"
  Cond :: "int list"

fun analyze_scan :: "machine_instr list \<Rightarrow> branch_info \<Rightarrow> branch_info" where
  "analyze_scan [] b = b"
| "analyze_scan (m # ms) b =
     (if isDebugInstr m then analyze_scan ms b
      else if \<not> isTerminator m then b
      else if isUncondBranch (opcode m) then
        (if TBB b = None then analyze_scan ms (b\<lparr>TBB := opMBB m 0\<rparr>) else b\<lparr>giveUp := True\<rparr>)
      else (case getCondFromJcc (opcode m) of
        Some cc \<Rightarrow>
          (if TBB b = None
           then analyze_scan ms (b\<lparr>TBB := opMBB m 0, Cond := Cond b @ [cond_code cc]\<rparr>)
           else analyze_scan ms (b\<lparr>FBB := TBB b, TBB := opMBB m 0, Cond := Cond b @ [cond_code cc]\<rparr>))
      | None \<Rightarrow> b\<lparr>giveUp := True\<rparr>))"

definition analyzeBranch :: "machine_instr list \<Rightarrow> branch_info" where
  "analyzeBranch ms = analyze_scan (rev ms) \<lparr>giveUp = False, TBB = None, FBB = None, Cond = []\<rparr>"

section \<open>removeBranch, insertBranch, reverseBranchCondition\<close>

text \<open>The block is scanned from its end; the second component counts the erased branches.\<close>

fun remove_scan :: "machine_instr list \<Rightarrow> machine_instr list \<times> nat" where
  "remove_scan [] = ([], 0)"
| "remove_scan (m # ms) =
     (if isDebugInstr m then (case remove_scan ms of (r, n) \<Rightarrow> (m # r, n))
      else if \<not> isUncondBranch (opcode m) \<and> \<not> isCondBranch (opcode m) then (m # ms, 0)
      else (case remove_scan ms of (r, n) \<Rightarrow> (r, Suc n)))"

definition removeBranch :: "machine_instr list \<Rightarrow> int \<Rightarrow> machine_instr list \<times> nat \<times> int" where
  "removeBranch ms BytesRemoved =
     (case remove_scan (rev ms) of (r, n) \<Rightarrow> (rev r, n, BytesRemoved + 3 * int n))"

definition insertBranch ::
  "machine_instr list \<Rightarrow> nat \<Rightarrow> nat option \<Rightarrow> int list \<Rightarrow> (machine_instr list \<times> nat \<times> int) option" where
  "insertBranch ms T F cond = (case cond of
     [] \<Rightarrow> (if F \<noteq> None then None else Some (ms @ [BuildMI JMP [addMBB T]], 1, 3))
   | [c] \<Rightarrow> (case cond_of c of
       None \<Rightarrow> None
     | Some cc \<Rightarrow> (case F of
         None \<Rightarrow> Some (ms @ [BuildMI (getJccFromCond cc) [addMBB T]], 1, 3)
       | Some f \<Rightarrow> Some (ms @ [BuildMI (getJccFromCond cc) [addMBB T], BuildMI JMP [addMBB f]], 2, 6)))
   | _ \<Rightarrow> None)"

definition reverseBranchCondition :: "int list \<Rightarrow> int list option" where
  "reverseBranchCondition cond = (case cond of
     [c] \<Rightarrow> map_option (\<lambda>cc. [cond_code (getOppositeCond cc)]) (cond_of c)
   | _ \<Rightarrow> None)"

section \<open>The exit of a block\<close>

text \<open>The terminators of a block, and the exit that an analysis result stands for.\<close>

definition terminators :: "machine_instr list \<Rightarrow> machine_instr list" where
  "terminators ms = rev (takeWhile (\<lambda>m. isDebugInstr m \<or> isTerminator m) (rev ms))"

definition branch_exit :: "branch_info \<Rightarrow> flags \<Rightarrow> ctl option" where
  "branch_exit b f = (case Cond b of
     [] \<Rightarrow> Some (case TBB b of Some t \<Rightarrow> Goto t | None \<Rightarrow> Next)
   | [c] \<Rightarrow> (case (cond_of c, TBB b) of
       (Some cc, Some t) \<Rightarrow> Some (if cond_holds cc f then Goto t
         else case FBB b of Some g \<Rightarrow> Goto g | None \<Rightarrow> Next)
     | _ \<Rightarrow> None)
   | _ \<Rightarrow> None)"

text \<open>A branch has one block operand, the target.\<close>

definition branch_wf :: "machine_instr \<Rightarrow> bool" where
  "branch_wf m = (isUncondBranch (opcode m) \<or> isCondBranch (opcode m) \<longrightarrow>
     (\<exists>b. ex_mbbs (operands m) = [b] \<and> opMBB m 0 = Some b))"

lemma exec_JMP:
  "opcode m = JMP \<Longrightarrow> branch_wf m \<Longrightarrow> exec env m s = Some (Goto (the (opMBB m 0)), s) \<and> opMBB m 0 \<noteq> None"
  by (auto simp: branch_wf_def isUncondBranch_def exec_def step_def)

lemma exec_Jcc:
  "opcode m = Jcc c \<Longrightarrow> branch_wf m \<Longrightarrow> opMBB m 0 \<noteq> None
    \<and> exec env m s = Some (if cond_holds c (fl s) then Goto (the (opMBB m 0)) else Next, s)"
  by (auto simp: branch_wf_def exec_def step_def)

lemma exec_debug: "isDebugInstr m \<Longrightarrow> exec env m s = cont s"
  by (simp add: isDebugInstr_def exec_def step_def)

lemma getCond_cases:
  "getCondFromJcc opc = Some c \<longleftrightarrow> opc = Jcc c" "getCondFromJcc opc = None \<longleftrightarrow> \<not> isCondBranch opc"
  by (cases opc; simp)+

lemma Cond_grows: "length (Cond b) \<le> length (Cond (analyze_scan ms b))"
  by (induction ms b rule: analyze_scan.induct) (auto split: option.splits intro: order.trans [rotated])

lemma cond_of_inv: "cond_of i = Some c \<Longrightarrow> i = cond_code c"
  by (auto simp: cond_of_def split: if_splits)

text \<open>What the scan knows after the instructions \<open>seen\<close>: the exit they take.\<close>

lemma analyze_scan_exit:
  assumes "\<forall>m \<in> set ms. branch_wf m" "\<not> giveUp (analyze_scan ms b)"
    and "length (Cond (analyze_scan ms b)) \<le> 1"
    and "TBB b = None \<longrightarrow> Cond b = [] \<and> FBB b = None" "Cond b = [] \<longrightarrow> FBB b = None"
    and "branch_exit b (fl s) = Some x" "run env seen s = Some (x, s)"
  shows "\<exists>y. branch_exit (analyze_scan ms b) (fl s) = Some y
    \<and> run env (rev (takeWhile (\<lambda>m. isDebugInstr m \<or> isTerminator m) ms) @ seen) s = Some (y, s)"
  using assms
proof (induction ms arbitrary: b seen x)
  case (Cons m ms)
  note IH = Cons.IH and prems = Cons.prems
  have wf: "branch_wf m" "\<forall>m \<in> set ms. branch_wf m" using prems(1) by auto
  consider (dbg) "isDebugInstr m" | (stop) "\<not> isDebugInstr m" "\<not> isTerminator m"
    | (jmp) "\<not> isDebugInstr m" "isTerminator m" "opcode m = JMP"
    | (jcc) c where "\<not> isDebugInstr m" "isTerminator m" "opcode m = Jcc c"
    using prems(2) by (cases "getCondFromJcc (opcode m)")
      (auto simp: isUncondBranch_def getCond_cases(1) split: if_splits)
  then show ?case
  proof cases
    case dbg
    have "run env (m # seen) s = Some (x, s)" using prems(7) dbg by (simp add: exec_debug)
    then show ?thesis using IH [of b x "m # seen"] prems wf dbg by simp
  next
    case stop
    then show ?thesis using prems by simp
  next
    case jmp
    then have T: "TBB b = None" using prems(2) by (auto simp: isUncondBranch_def split: if_splits)
    from exec_JMP [OF jmp(3) wf(1)] obtain t where
      t: "opMBB m 0 = Some t" "exec env m s = Some (Goto t, s)" by auto
    have "branch_exit (b\<lparr>TBB := opMBB m 0\<rparr>) (fl s) = Some (Goto t)"
      using prems(4) T t by (simp add: branch_exit_def)
    moreover have "run env (m # seen) s = Some (Goto t, s)" using t by simp
    ultimately show ?thesis
      using IH [of "b\<lparr>TBB := opMBB m 0\<rparr>" "Goto t" "m # seen"] prems wf jmp T t
      by (simp add: isUncondBranch_def)
  next
    case (jcc c)
    obtain t where t: "opMBB m 0 = Some t"
      "exec env m s = Some (if cond_holds c (fl s) then Goto t else Next, s)"
      using exec_Jcc [OF jcc(3) wf(1), of env s] by (cases "opMBB m 0") auto
    let ?b = "b\<lparr>FBB := TBB b, TBB := opMBB m 0, Cond := Cond b @ [cond_code c]\<rparr>"
    have "TBB b = None \<Longrightarrow> b\<lparr>TBB := opMBB m 0, Cond := Cond b @ [cond_code c]\<rparr> = ?b"
      using prems(4) by (cases b) simp
    then have an: "analyze_scan (m # ms) b = analyze_scan ms ?b"
      using jcc by (auto simp: isUncondBranch_def)
    then have "length (Cond ?b) \<le> 1"
      using prems(3) Cond_grows order.trans by metis
    then have C: "Cond b = []" by simp
    then have x: "x = (case TBB b of Some u \<Rightarrow> Goto u | None \<Rightarrow> Next)"
      using prems(6) by (simp add: branch_exit_def)
    let ?y = "if cond_holds c (fl s) then Goto t else x"
    have "branch_exit ?b (fl s) = Some ?y"
      using C t x by (auto simp: branch_exit_def split: option.splits)
    moreover have "run env (m # seen) s = Some (?y, s)" using t prems(7) by simp
    ultimately show ?thesis
      using IH [of ?b ?y "m # seen"] prems wf jcc an t by simp
  qed
qed simp

text \<open>
  C27.  When \<open>analyzeBranch\<close> understands a block and reports at most one condition, the reported
  targets and condition describe exactly the exit that the block's terminators take, in every
  state, and the terminators change nothing else.
\<close>

theorem analyzeBranch_correct:
  assumes "\<forall>m \<in> set ms. branch_wf m" "\<not> giveUp (analyzeBranch ms)"
    and "length (Cond (analyzeBranch ms)) \<le> 1"
  shows "\<exists>y. branch_exit (analyzeBranch ms) (fl s) = Some y
    \<and> run env (terminators ms) s = Some (y, s)"
  using assms analyze_scan_exit [of "rev ms" "\<lparr>giveUp = False, TBB = None, FBB = None, Cond = []\<rparr>"
      s Next env "[]"]
  by (simp add: analyzeBranch_def terminators_def branch_exit_def)

definition demo_branches :: "machine_instr list" where
  "demo_branches = [BuildMI NOP [], BuildMI (Jcc COND_C) [addMBB 3], BuildMI JMP [addMBB 4]]"

theorem analyzeBranch_correct_witness:
  "\<forall>env s. run env (terminators demo_branches) s
     = Some (if fCY (fl s) then Goto 3 else Goto 4, s)"
proof (intro allI)
  fix env s
  have "analyzeBranch demo_branches = \<lparr>giveUp = False, TBB = Some 3, FBB = Some 4, Cond = [3]\<rparr>"
    by (simp add: analyzeBranch_def demo_branches_def BuildMI_def implicit_operands_def opMBB_def
        isDebugInstr_def isTerminator_def isUncondBranch_def)
  then show "run env (terminators demo_branches) s = Some (if fCY (fl s) then Goto 3 else Goto 4, s)"
    using analyzeBranch_correct [of demo_branches s env]
    by (auto simp: demo_branches_def branch_wf_def BuildMI_def implicit_operands_def opMBB_def
        isUncondBranch_def branch_exit_def cond_of_def)
qed

section \<open>Rewriting the end of a block\<close>

lemma branch_opcodes [simp]:
  "opcode (BuildMI opc ops) = opc"
  "isTerminator (BuildMI opc ops) = desc_isTerminator opc"
  "isDebugInstr (BuildMI opc ops) = (opc = DBG_VALUE)"
  by (simp_all add: BuildMI_def isTerminator_def isDebugInstr_def)

lemma opMBB_BuildMI [simp]: "opMBB (BuildMI opc [addMBB b]) 0 = Some b"
  by (simp add: opMBB_def BuildMI_def)

text \<open>A block that ends without a terminator; the branch passes append to such blocks.\<close>

definition open_end :: "machine_instr list \<Rightarrow> bool" where
  "open_end ms = (ms = [] \<or> \<not> isDebugInstr (last ms) \<and> \<not> isTerminator (last ms))"

lemma open_end_scans:
  assumes "open_end ms"
  shows "analyze_scan (rev ms) b = b" "remove_scan (rev ms) = (rev ms, 0)"
proof -
  have "opcode m \<noteq> JMP \<and> \<not> isCondBranch (opcode m)" if "\<not> isTerminator m" for m
    using that by (auto simp: isTerminator_def elim: isCondBranch.elims)
  then show "analyze_scan (rev ms) b = b" "remove_scan (rev ms) = (rev ms, 0)"
    using assms by (cases ms rule: rev_cases; simp add: open_end_def isUncondBranch_def)+
qed

text \<open>
  C28.  The block operations fit together: what \<open>insertBranch\<close> appends, \<open>analyzeBranch\<close> reports
  back unchanged and \<open>removeBranch\<close> takes away again, with the same count and size.
\<close>

theorem insertBranch_roundtrip:
  assumes "open_end ms" "insertBranch ms T F cond = Some (ms', n, sz)"
  shows "analyzeBranch ms' = \<lparr>giveUp = False, TBB = Some T, FBB = F, Cond = cond\<rparr>
    \<and> removeBranch ms' b = (ms, n, b + sz)"
proof -
  consider "cond = []" "F = None" "ms' = ms @ [BuildMI JMP [addMBB T]]" "n = 1" "sz = 3"
    | cc where "cond = [cond_code cc]" "F = None" "ms' = ms @ [BuildMI (Jcc cc) [addMBB T]]"
        "n = 1" "sz = 3"
    | cc f where "cond = [cond_code cc]" "F = Some f" "n = 2" "sz = 6"
        "ms' = ms @ [BuildMI (Jcc cc) [addMBB T], BuildMI JMP [addMBB f]]"
    using assms(2) cond_of_inv
    by (auto simp: insertBranch_def split: list.splits option.splits if_splits)
  then show ?thesis
    by cases (simp_all add: analyzeBranch_def removeBranch_def isUncondBranch_def
        open_end_scans [OF assms(1)])
qed

theorem insertBranch_roundtrip_witness:
  "removeBranch ([BuildMI NOP []] @ [BuildMI (Jcc COND_M) [addMBB 5], BuildMI JMP [addMBB 6]]) 0
     = ([BuildMI NOP []], 2, 6)"
  using insertBranch_roundtrip [of "[BuildMI NOP []]" 5 "Some 6" "[7]" _ 2 6 0]
  by (simp add: open_end_def insertBranch_def cond_of_def)

text \<open>
  Reversing the condition and swapping the targets keeps the exit of the inserted branches,
  whatever the flags are.
\<close>

theorem reverseBranchCondition_swaps:
  assumes "reverseBranchCondition cond = Some cond'"
    and "insertBranch [] T (Some F) cond = Some (ms, n, sz)"
    and "insertBranch [] F (Some T) cond' = Some (ms', n', sz')"
  shows "run env ms s = run env ms' s \<and> n = n' \<and> sz = sz'"
proof -
  obtain cc where c: "cond = [cond_code cc]" "cond' = [cond_code (getOppositeCond cc)]"
    using assms(1) cond_of_inv
    by (auto simp: reverseBranchCondition_def split: list.splits)
  have "cond_holds (getOppositeCond cc) (fl s) = (\<not> cond_holds cc (fl s))"
    by (cases cc) simp_all
  then show ?thesis
    using assms(2,3) by (auto simp: c insertBranch_def exec_simps)
qed

theorem reverseBranchCondition_swaps_witness:
  "\<forall>env s. run env [BuildMI (Jcc COND_Z) [addMBB 1], BuildMI JMP [addMBB 2]] s
     = run env [BuildMI (Jcc COND_NZ) [addMBB 2], BuildMI JMP [addMBB 1]] s"
  using reverseBranchCondition_swaps [of "[1]" "[0]" 1 2
      "[BuildMI (Jcc COND_Z) [addMBB 1], BuildMI JMP [addMBB 2]]" 2 6
      "[BuildMI (Jcc COND_NZ) [addMBB 2], BuildMI JMP [addMBB 1]]" 2 6]
  by (simp add: reverseBranchCondition_def insertBranch_def cond_of_def del: run.simps)

text \<open>
  A block that ends in two conditional branches is reported as understood, with the target of
  the second one as the unconditional false target, although the block also falls through.
\<close>

theorem analyzeBranch_two_conditions:
  "analyzeBranch [BuildMI (Jcc COND_Z) [addMBB 1], BuildMI (Jcc COND_C) [addMBB 2]]
     = \<lparr>giveUp = False, TBB = Some 1, FBB = Some 2, Cond = [3, 1]\<rparr>
   \<and> run env [BuildMI (Jcc COND_Z) [addMBB 1], BuildMI (Jcc COND_C) [addMBB 2]]
       (s\<lparr>fl := (fl s)\<lparr>fZ := False, fCY := False\<rparr>\<rparr>)
     = cont (s\<lparr>fl := (fl s)\<lparr>fZ := False, fCY := False\<rparr>\<rparr>)
   \<and> insertBranch [] 1 (Some 2) [3, 1] = None"
  by (simp add: analyzeBranch_def isUncondBranch_def insertBranch_def exec_simps)
end
