(* ===== verification/Emit.thy ===== *)
theory Emit
  imports ScanSound Frame
begin

text \<open>
  The instruction shapes that the expansions emit, with one execution equation for each, and the
  facts that the undef annotations do not change what is executed.
\<close>

section \<open>Common shapes\<close>

definition MOV :: "preg \<Rightarrow> preg \<Rightarrow> machine_instr" where
  "MOV d r = BuildMI MOVrr [addRegDef d, addReg r]"

definition ALU :: "aluop \<Rightarrow> preg \<Rightarrow> machine_instr" where
  "ALU op r = BuildMI (ALUr op) [addRegDef A, addReg A, addReg r]"

definition XCHGi :: machine_instr where
  "XCHGi = BuildMI XCHG []"

definition INXi :: "opcode \<Rightarrow> preg \<Rightarrow> machine_instr" where
  "INXi opc r = BuildMI opc [addRegDef r, addReg r]"

definition PUSHi :: "preg \<Rightarrow> machine_instr" where
  "PUSHi r = BuildMI PUSH [addReg r]"

definition POPi :: "preg \<Rightarrow> machine_instr" where
  "POPi r = BuildMI POP [addRegDef r]"

definition DADi :: "preg \<Rightarrow> machine_instr" where
  "DADi r = BuildMI DAD [addReg r]"

definition MVI :: "preg \<Rightarrow> int \<Rightarrow> machine_instr" where
  "MVI r i = BuildMI MVIr [addRegDef r, addImm i]"

lemma exec_shapes [exec_simps]:
  "exec env (MOV d r) s = cont (setR d (r8 s r) s)"
  "op \<noteq> CMP \<Longrightarrow> exec env (ALU op r) s = cont (aluA op (r8 s r) s)"
  "exec env XCHGi s = cont (setP HL (getP DE s) (setP DE (getP HL s) s))"
  "exec env (INXi INX r) s = cont (setP r (getP r s + 1) s)"
  "exec env (INXi DCX r) s = cont (setP r (getP r s - 1) s)"
  "exec env (PUSHi r) s = cont (push16 (getP r s) s)"
  "exec env (POPi r) s = cont (setP r (pop16 s) (s\<lparr>sp := sp s + 2\<rparr>))"
  "exec env (DADi r) s = cont (dad (getP r s) s)"
  "exec env (MVI r i) s = cont (setR r (lo8 (word_of_int i)) s)"
  by (simp_all add: MOV_def ALU_def XCHGi_def INXi_def PUSHi_def POPi_def DADi_def MVI_def
      exec_BuildMI step_simps step_simps2)

text \<open>Undef marks do not change what an instruction does.\<close>

lemma ex_setIsUndef [simp]:
  "ex_regs (map (\<lambda>x. if P x then setIsUndef x else x) ops) = ex_regs ops"
  "ex_vals env (map (\<lambda>x. if P x then setIsUndef x else x) ops) = ex_vals env ops"
  "ex_mbbs (map (\<lambda>x. if P x then setIsUndef x else x) ops) = ex_mbbs ops"
proof -
  have "setIsUndef x = x \<or> (\<exists>r d i k e u. x = MO_Register r d i k e u
      \<and> setIsUndef x = MO_Register r d i k e True)" for x
    by (cases x) auto
  note u = this
  have "ex_regs (setIsUndef x # xs) = ex_regs (x # xs)"
    "ex_vals env (setIsUndef x # xs) = ex_vals env (x # xs)"
    "ex_mbbs (setIsUndef x # xs) = ex_mbbs (x # xs)" for x xs
    using u [of x] by auto
  note v = this
  show "ex_regs (map (\<lambda>x. if P x then setIsUndef x else x) ops) = ex_regs ops"
    "ex_vals env (map (\<lambda>x. if P x then setIsUndef x else x) ops) = ex_vals env ops"
    "ex_mbbs (map (\<lambda>x. if P x then setIsUndef x else x) ops) = ex_mbbs ops"
    by (induction ops; simp add: v del: ex_regs.simps(2) ex_vals.simps(2) ex_mbbs.simps(2);
        simp split: machine_operand.splits option.splits)+
qed

lemma exec_markRegUsesUndef [exec_simps]: "exec env (markRegUsesUndef r m) s = exec env m s"
  by (simp add: exec_def markRegUsesUndef_def)

lemma mark_first_use_ex [simp]:
  "ex_regs (mark_first_use r ops) = ex_regs ops"
  "ex_vals env (mark_first_use r ops) = ex_vals env ops"
  "ex_mbbs (mark_first_use r ops) = ex_mbbs ops"
  by (induction ops; auto split: machine_operand.splits option.splits elim!: isUse.elims)+

lemma exec_markXchgUseUndef [exec_simps]: "exec env (markXchgUseUndef r m) s = exec env m s"
  by (simp add: exec_def markXchgUseUndef_def)

text \<open>XRA A with its undef annotation: A is zero afterwards and CY is clear.\<close>

definition zeroA :: "mbb_ctx \<Rightarrow> machine_instr" where
  "zeroA c = (if \<not> isRegLiveBefore (liveIns c) (before c) A
              then markRegUsesUndef A (ALU XRA A) else ALU XRA A)"

lemma exec_zeroA [exec_simps]:
  "exec env (zeroA c) s = cont (s\<lparr>r8 := (r8 s)(A := 0), fl := szp 0 False False\<rparr>)"
  by (simp add: zeroA_def exec_simps aluA_def Let_def)

lemma run_replicate_INX:
  "GR16 r \<Longrightarrow> run env (replicate n (INXi INX r)) s = cont (if n = 0 then s else setP r (getP r s + of_nat n) s)"
  "GR16 r \<Longrightarrow> run env (replicate n (INXi DCX r)) s = cont (if n = 0 then s else setP r (getP r s - of_nat n) s)"
proof -
  have setP2: "setP r x (setP r y s) = setP r x s" if "GR16 r" for x y and s :: cpu
    using that by auto
  assume r: "GR16 r"
  then have "GR16All r" by auto
  with r show "run env (replicate n (INXi INX r)) s = cont (if n = 0 then s else setP r (getP r s + of_nat n) s)"
    "run env (replicate n (INXi DCX r)) s = cont (if n = 0 then s else setP r (getP r s - of_nat n) s)"
    by (induction n arbitrary: s; simp add: exec_simps setP2 algebra_simps del: getP.simps setP.simps;
        simp add: setP2 algebra_simps del: getP.simps setP.simps)+
qed

lemma alu_sub_diff [simp]: "fst (alu_sub a b bw) = a - b - of_bool bw"
  "fCY (snd (alu_sub a b bw)) = (unat a < unat b + of_bool bw)"
  by (simp_all add: alu_sub_def Let_def)

lemma alu_add_sum [simp]: "fst (alu_add a b cy) = a + b + of_bool cy"
  "fCY (snd (alu_add a b cy)) = (256 \<le> unat a + unat b + of_bool cy)"
  by (simp_all add: alu_add_def Let_def)

end
