(* ===== verification/ExpandArith.thy ===== *)
theory ExpandArith
  imports Emit
begin

text \<open>
  \<open>expandPostRAPseudo\<close>, first part: BUILD_PAIR, NEG16, NEG8, SEXT, BRCOND, INX16 and DCX16.
  An expansion is the list of instructions emitted at the position of the pseudo; the ones that
  erase or fold an earlier instruction also return the new list of instructions before it.
\<close>

section \<open>BUILD_PAIR\<close>

definition expand_BUILD_PAIR :: "preg \<Rightarrow> preg \<Rightarrow> preg \<Rightarrow> machine_instr list" where
  "expand_BUILD_PAIR Dst Lo Hi =
     (if Hi \<noteq> subHi Dst then [MOV (subHi Dst) Hi] else [])
     @ (if Lo \<noteq> subLo Dst then [MOV (subLo Dst) Lo] else [])"

text \<open>
  BUILD_PAIR puts the two bytes into the pair and touches nothing else, unless the low byte
  comes from the high half of the destination and that half is overwritten first.
\<close>

theorem expand_BUILD_PAIR_correct:
  assumes "GR16 Dst" "GR8 Lo" "GR8 Hi" "Lo = subHi Dst \<longrightarrow> Hi = subHi Dst"
  shows "\<exists>t. run env (expand_BUILD_PAIR Dst Lo Hi) s = cont t
    \<and> getP Dst t = mk16 (r8 s Hi) (r8 s Lo) \<and> unchanged (units Dst) {} s t"
  using assms by (elim GR16_cases)
    (auto simp: expand_BUILD_PAIR_def exec_simps unchanged_def)

theorem expand_BUILD_PAIR_correct_witness:
  "\<forall>env s. \<exists>t. run env (expand_BUILD_PAIR DE A E) s = cont t \<and> getP DE t = mk16 (r8 s E) (r8 s A)"
  using expand_BUILD_PAIR_correct [of DE A E] by (auto simp del: getP.simps)

text \<open>
  With the low byte in the high half of the destination and the high byte elsewhere the pair
  receives the high byte twice: the low byte is lost.
\<close>

theorem expand_BUILD_PAIR_clobbers_lo:
  "run env (expand_BUILD_PAIR BC B A) s = cont (setR C (r8 s A) (setR B (r8 s A) s))
   \<and> getP BC (setR C (r8 s A) (setR B (r8 s A) s)) = mk16 (r8 s A) (r8 s A)"
  by (simp add: expand_BUILD_PAIR_def exec_simps)

section \<open>NEG16, NEG8, SEXT\<close>

definition expand_NEG16 :: "mbb_ctx \<Rightarrow> preg \<Rightarrow> preg \<Rightarrow> machine_instr list" where
  "expand_NEG16 c DstReg SrcReg =
     [zeroA c, ALU SUB (subLo SrcReg), MOV (subLo DstReg) A,
      ALU SBB A, ALU SUB (subHi SrcReg), MOV (subHi DstReg) A]"

text \<open>The copy \<open>MOV Src, A\<close> that NEG8 looks for in front of itself, and the list without it.\<close>

definition isCopyFromA :: "preg \<Rightarrow> machine_instr \<Rightarrow> bool" where
  "isCopyFromA Src m = ((opcode m = MOVrr \<or> opcode m = COPY)
     \<and> opReg m 0 = Some Src \<and> opReg m 1 = Some A)"

fun fold_copy_scan :: "preg \<Rightarrow> machine_instr list \<Rightarrow> machine_instr list option" where
  "fold_copy_scan Src [] = None"
| "fold_copy_scan Src (m # ms) =
     (if isDebugInstr m \<or> opcode m = PSEUDO V6CLANG_PSEUDO_COMMENT
      then map_option ((#) m) (fold_copy_scan Src ms)
      else if isCopyFromA Src m then Some ms else None)"

definition expand_NEG8 ::
  "mbb_ctx \<Rightarrow> preg \<Rightarrow> preg \<Rightarrow> bool \<Rightarrow> machine_instr list \<times> machine_instr list" where
  "expand_NEG8 c Dst Src SrcKilled =
    (let folded = (if Src \<noteq> A \<and> SrcKilled then fold_copy_scan Src (rev (before c)) else None);
         bef = (case folded of Some ms \<Rightarrow> rev ms | None \<Rightarrow> before c);
         Src' = (if folded \<noteq> None then A else Src)
     in (bef,
       (if Src' = A
        then [BuildMI CMA [addRegDef A, addReg A], BuildMI INRr [addRegDef A, addReg A]]
        else [zeroA (c\<lparr>before := bef\<rparr>),
              BuildMI SUBr [addRegDef A, addReg A, addRegKill Src' SrcKilled]])
       @ (if Dst \<noteq> A then [MOV Dst A] else [])))"

definition expand_SEXT :: "preg \<Rightarrow> preg \<Rightarrow> machine_instr list" where
  "expand_SEXT Dst Src =
     (if Src \<noteq> subLo Dst then [MOV (subLo Dst) Src] else [])
     @ [MOV A Src, BuildMI RLC [addRegDef A, addReg A], ALU SBB A, MOV (subHi Dst) A]"

section \<open>BRCOND, INX16, DCX16\<close>

definition expand_BRCOND :: "nat \<Rightarrow> int \<Rightarrow> machine_instr list option" where
  "expand_BRCOND Target CC = map_option (\<lambda>c. [BuildMI (Jcc c) [addMBB Target]]) (cond_of CC)"

text \<open>The count is read as an unsigned 32-bit number.\<close>

definition expand_INX16 :: "opcode \<Rightarrow> preg \<Rightarrow> int \<Rightarrow> machine_instr list" where
  "expand_INX16 opc Rp Count = replicate (nat (Count mod 2 ^ 32)) (INXi opc Rp)"

text \<open>
  NEG16 computes the two's complement of the pair; A and the flags are clobbered, the
  source survives unless it is the destination.
\<close>

theorem expand_NEG16_correct:
  assumes "GR16 Dst" "GR16 Src"
  shows "\<exists>t. run env (expand_NEG16 c Dst Src) s = cont t
    \<and> getP Dst t = - getP Src s \<and> unchanged (units Dst \<union> {A, FLAGS}) {} s t"
proof -
  have neg: "mk16 (0 - of_bool (0 < unat l) - h) (0 - l) = - mk16 h l" for h l
    by (rule mk16_eqI) (simp_all add: lo8_sub [of 0, simplified] hi8_sub [of 0, simplified])
  show ?thesis
    using assms neg by (elim GR16_cases; simp add: expand_NEG16_def exec_simps unchanged_code)
qed


theorem expand_NEG16_correct_witness:
  "\<forall>c env s. \<exists>t. run env (expand_NEG16 c DE HL) s = cont t \<and> getP DE t = - getP HL s"
  by (metis (no_types) GR16.simps(1) GR16.simps(2) expand_NEG16_correct)

lemma run_noops:
  assumes "\<And>m s. m \<in> set ms \<Longrightarrow> exec env m s = cont s"
  shows "run env ms s = cont s"
  using assms by (induction ms) auto

lemma fold_copy_scanE:
  assumes "fold_copy_scan Src ms = Some ms'"
  obtains d m r where "ms = d @ m # r" "ms' = d @ r" "isCopyFromA Src m"
    "\<And>x. x \<in> set d \<Longrightarrow> isDebugInstr x \<or> opcode x = PSEUDO V6CLANG_PSEUDO_COMMENT"
  using assms
proof (induction ms arbitrary: ms' thesis)
  case (Cons x ms)
  show ?case
  proof (cases "isDebugInstr x \<or> opcode x = PSEUDO V6CLANG_PSEUDO_COMMENT")
    case True
    then obtain ns where ns: "fold_copy_scan Src ms = Some ns" "ms' = x # ns"
      using Cons.prems(2) by auto
    then obtain d m r where "ms = d @ m # r" "ns = d @ r" "isCopyFromA Src m"
      "\<And>x. x \<in> set d \<Longrightarrow> isDebugInstr x \<or> opcode x = PSEUDO V6CLANG_PSEUDO_COMMENT"
      using Cons.IH by blast
    then show ?thesis using ns True by (intro Cons.prems(1) [of "x # d" m r]) auto
  next
    case False
    then show ?thesis using Cons.prems by (intro Cons.prems(1) [of "[]" x ms]) (auto split: if_splits)
  qed
qed simp

lemma exec_noop:
  "isDebugInstr m \<or> opcode m = PSEUDO V6CLANG_PSEUDO_COMMENT \<Longrightarrow> exec env m s = cont s"
  by (auto simp: isDebugInstr_def exec_def step_def)

lemma fold_copy_run:
  assumes "fold_copy_scan Src (rev bef) = Some ms'" "run env bef s0 = cont s"
    and "\<forall>m \<in> set bef. isCopyFromA Src m \<longrightarrow> ex_regs (operands m) = [Src, A]"
  shows "\<exists>u. run env (rev ms') s0 = cont u \<and> s = setR Src (r8 u A) u"
proof -
  obtain d m r where ms: "rev bef = d @ m # r" "ms' = d @ r" and m: "isCopyFromA Src m"
    and d: "\<And>x. x \<in> set d \<Longrightarrow> isDebugInstr x \<or> opcode x = PSEUDO V6CLANG_PSEUDO_COMMENT"
    using assms(1) by (rule fold_copy_scanE) blast
  then have bef: "bef = (rev r @ [m]) @ rev d"
    by (metis append.assoc append_Cons append_Nil rev.simps(2) rev_append rev_rev_ident)
  have noop: "run env (rev d) v = cont v" for v
    by (rule run_noops) (use d exec_noop in simp)
  obtain u v where u: "run env (rev r) s0 = cont u" "exec env m u = cont v" "run env (rev d) v = cont s"
    using assms(2) by (auto simp: bef run_append_cont run_Cons_cont simp del: run.simps(2))
  moreover have "v = setR Src (r8 u A) u"
    using m u(2) assms(3) bef by (auto simp: isCopyFromA_def exec_def step_def)
  ultimately show ?thesis using noop ms by (auto simp: run_append)
qed

text \<open>
  NEG8 negates the byte modulo 256.  When it folds the copy of A in front of it, the block
  before it changes too; the result is still that of the original block, and the copied register,
  killed by the pseudo, is the only further one that may differ.
\<close>

theorem expand_NEG8_correct:
  assumes "GR8 Dst" "GR8 Src" "run env (before c) s0 = cont s"
    and "\<forall>m \<in> set (before c). isCopyFromA Src m \<longrightarrow> ex_regs (operands m) = [Src, A]"
  shows "\<exists>u t. run env (fst (expand_NEG8 c Dst Src k)) s0 = cont u
    \<and> run env (snd (expand_NEG8 c Dst Src k)) u = cont t
    \<and> r8 t Dst = - r8 s Src \<and> unchanged ({Dst, A, FLAGS} \<union> (if k then {Src} else {})) {} s t"
proof (cases "Src \<noteq> A \<and> k \<and> fold_copy_scan Src (rev (before c)) \<noteq> None")
  case True
  then obtain ms' where ms': "fold_copy_scan Src (rev (before c)) = Some ms'" by auto
  from fold_copy_run [OF this assms(3,4)] obtain u
    where "run env (rev ms') s0 = cont u" "s = setR Src (r8 u A) u" by blast
  then show ?thesis
    using True ms' assms(1,2)
    by (auto simp: expand_NEG8_def exec_simps unchanged_def alu_inr_def Let_def minus_eq_not_plus_1)
next
  case False
  then have "expand_NEG8 c Dst Src k = (before c,
       (if Src = A then [BuildMI CMA [addRegDef A, addReg A], BuildMI INRr [addRegDef A, addReg A]]
        else [zeroA c, BuildMI SUBr [addRegDef A, addReg A, addRegKill Src k]])
       @ (if Dst \<noteq> A then [MOV Dst A] else []))"
    by (auto simp: expand_NEG8_def)
  then show ?thesis
    using assms
    by (auto simp: exec_simps unchanged_def alu_inr_def Let_def minus_eq_not_plus_1)
qed

theorem expand_NEG8_correct_witness:
  "\<forall>env s0. \<exists>u t. run env [] s0 = cont u
    \<and> run env [BuildMI CMA [addRegDef A, addReg A], BuildMI INRr [addRegDef A, addReg A], MOV C A] u
      = cont t \<and> r8 t C = - r8 s0 A"
proof (intro allI)
  fix env s0
  let ?c = "\<lparr>before = [MOV B A], after = [], liveIns = [], succLiveIns = [], preds = []\<rparr>"
  have "run env (before ?c) s0 = cont (setR B (r8 s0 A) s0)" by (simp add: exec_simps)
  from expand_NEG8_correct [OF _ _ this, of C B True]
  show "\<exists>u t. run env [] s0 = cont u \<and> run env [BuildMI CMA [addRegDef A, addReg A],
      BuildMI INRr [addRegDef A, addReg A], MOV C A] u = cont t \<and> r8 t C = - r8 s0 A"
    by (auto simp: expand_NEG8_def isCopyFromA_def MOV_def BuildMI_def opReg_def isDebugInstr_def)
qed


lemma mk16_scast: "mk16 (if bit b 7 then - 1 else 0) b = scast b"
  by (rule bit_word_eqI) (auto simp: bit_mk16 bit_simps not_less dest: bit_imp_le_length)

text \<open>
  SEXT sign-extends the byte to the pair and clobbers A and the flags only.
\<close>

theorem expand_SEXT_correct:
  assumes "GR16 Dst" "GR8 Src"
  shows "\<exists>t. run env (expand_SEXT Dst Src) s = cont t
    \<and> getP Dst t = scast (r8 s Src) \<and> unchanged (units Dst \<union> {A, FLAGS}) {} s t"
proof -
  have "mk16 (- of_bool (bit b 7)) b = scast b" for b
    using mk16_scast [of b] by (cases "bit b 7") simp_all
  then show ?thesis
    using assms by (elim GR16_cases GR8_cases)
      (simp_all add: expand_SEXT_def exec_simps unchanged_code step_simps2 exec_BuildMI)
qed

theorem expand_SEXT_correct_witness:
  "\<forall>env s. \<exists>t. run env (expand_SEXT HL E) s = cont t \<and> getP HL t = scast (r8 s E)"
  using expand_SEXT_correct [of HL E] by (auto simp del: getP.simps)

text \<open>
  INX16 and DCX16 add and subtract their count modulo 65536 without touching A or the flags.
\<close>

theorem expand_INX16_correct:
  assumes "GR16 Rp" "0 \<le> n" "n < 2 ^ 32"
  shows "\<exists>t u. run env (expand_INX16 INX Rp n) s = cont t \<and> getP Rp t = getP Rp s + word_of_int n
    \<and> unchanged (units Rp) {} s t
    \<and> run env (expand_INX16 DCX Rp n) s = cont u \<and> getP Rp u = getP Rp s - word_of_int n
    \<and> unchanged (units Rp) {} s u"
proof -
  have n: "(of_nat (nat n) :: u16) = word_of_int n" using assms(2) by (simp add: of_nat_nat)
  have fr: "unchanged (units Rp) {} s (setP Rp w s)" for w
    using assms(1) by (auto simp: unchanged_code)
  have "GR16All Rp" using assms(1) by auto
  moreover have "n mod 2 ^ 32 = n" using assms(2,3) by simp
  moreover have "nat n = 0 \<Longrightarrow> word_of_int n = (0 :: u16)" using assms(2) by auto
  ultimately show ?thesis
    using fr by (auto simp: expand_INX16_def run_replicate_INX [OF assms(1)] n simp del: getP.simps setP.simps)
qed

theorem expand_INX16_correct_witness:
  "\<forall>env s. \<exists>t. run env (expand_INX16 INX DE 3) s = cont t \<and> getP DE t = getP DE s + 3"
  using expand_INX16_correct [of DE 3] by (auto simp del: getP.simps)

lemma expand_BRCOND_exit:
  "expand_BRCOND T i = Some ms \<Longrightarrow> cond_of i = Some c
    \<Longrightarrow> run env ms s = Some (if cond_holds c (fl s) then Goto T else Next, s)"
  by (auto simp: expand_BRCOND_def exec_simps)

end
