(* ===== verification/ExpandAdd.thy ===== *)
theory ExpandAdd
  imports Emit InstrCost CopyReg
begin

text \<open>
  \<open>expandPostRAPseudo\<close>, second part: V6CLANG_DAD, V6CLANG_ADD16 and V6CLANG_SUB16 with their
  INX / DCX chains for constants that an earlier LXI loads.  Each expansion returns the
  instructions before the pseudo (an LXI may have been erased) and the emitted code.
\<close>

section \<open>Constant chains\<close>

text \<open>
  \<open>inx_chain Mode sub m\<close>: the chain that replaces adding (subtracting, for \<open>sub\<close>) the constant of
  the LXI \<open>m\<close>, when the cost model prefers it to LXI and DAD.
\<close>

definition inx_chain :: "V6ClangOptMode \<Rightarrow> bool \<Rightarrow> machine_instr \<Rightarrow> (opcode \<times> nat) option" where
  "inx_chain Mode sub m = (case opImm m 1 of None \<Rightarrow> None | Some i \<Rightarrow>
    let ImmVal = (if i > 0x7FFF then i - 0x10000 else i);
        AbsVal = (if ImmVal > 0 then ImmVal else - ImmVal)
    in if ImmVal = 0 then None
       else if isCheaperOrEqual (cost_mul cost_INX AbsVal) (cost_add cost_LXI cost_DAD) Mode
       then Some (if (ImmVal > 0) \<noteq> sub then INX else DCX, nat AbsVal)
       else None)"

definition remove_nth :: "nat \<Rightarrow> 'a list \<Rightarrow> 'a list" where
  "remove_nth i xs = take i xs @ drop (Suc i) xs"

text \<open>The LXI is erased when it is in the block and its register is dead after the pseudo.\<close>

definition erase_LXI :: "mbb_ctx \<Rightarrow> machine_instr \<Rightarrow> nat option \<Rightarrow> machine_instr list" where
  "erase_LXI c m i = (case (i, opReg m 0) of
     (Some k, Some ConstReg) \<Rightarrow>
       if isRegDeadAfter (after c) (succLiveIns c) ConstReg
       then remove_nth (length (before c) - Suc k) (before c) else before c
   | _ \<Rightarrow> before c)"

definition copyPair :: "preg \<Rightarrow> preg \<Rightarrow> machine_instr list" where
  "copyPair d r = the (copyPhysReg d r False)"

section \<open>V6CLANG_DAD\<close>

definition HLDead :: "mbb_ctx \<Rightarrow> bool" where
  "HLDead c = (isRegDeadAfter (after c) (succLiveIns c) H \<and> isRegDeadAfter (after c) (succLiveIns c) L)"

definition dad_around :: "bool \<Rightarrow> preg \<Rightarrow> preg \<Rightarrow> machine_instr list \<Rightarrow> machine_instr list" where
  "dad_around PreserveHL BaseReg DstReg mid =
     (if PreserveHL then [PUSHi HL] else [])
     @ (if BaseReg \<noteq> HL then copyPair HL BaseReg else [])
     @ mid
     @ (if DstReg \<noteq> HL then copyPair DstReg HL else [])
     @ (if PreserveHL then [POPi HL] else [])"

definition dad_chain ::
  "V6ClangOptMode \<Rightarrow> mbb_ctx \<Rightarrow> machine_instr \<Rightarrow> preg \<Rightarrow> (opcode \<times> nat \<times> machine_instr list) option"
  where
  "dad_chain Mode c MI AddReg = (if isFlagsDefDead MI
     then (case findDefiningLXI c AddReg of None \<Rightarrow> None
       | Some (m, i) \<Rightarrow> map_option (\<lambda>(opc, n). (opc, n, erase_LXI c m i)) (inx_chain Mode False m))
     else None)"

definition expand_DAD ::
  "V6ClangOptMode \<Rightarrow> mbb_ctx \<Rightarrow> machine_instr \<Rightarrow> preg \<Rightarrow> preg \<Rightarrow> preg
    \<Rightarrow> machine_instr list \<times> machine_instr list" where
  "expand_DAD Mode c MI DstReg LhsReg RhsReg =
    (let BaseReg = (if RhsReg = HL then RhsReg else LhsReg);
         AddReg = (if RhsReg = HL then LhsReg else RhsReg);
         PreserveHL = (DstReg \<noteq> HL \<and> \<not> HLDead c)
     in case dad_chain Mode c MI AddReg of
        Some (opc, n, bef) \<Rightarrow> (bef, dad_around PreserveHL BaseReg DstReg (replicate n (INXi opc HL)))
      | None \<Rightarrow> (before c,
          if PreserveHL \<and> BaseReg = HL \<and> AddReg = DE \<and> DstReg = DE
          then [XCHGi, DADi DE, XCHGi]
          else dad_around PreserveHL BaseReg DstReg [DADi AddReg]))"

section \<open>V6CLANG_ADD16\<close>

definition add_chain ::
  "V6ClangOptMode \<Rightarrow> mbb_ctx \<Rightarrow> machine_instr \<Rightarrow> preg \<Rightarrow> preg \<Rightarrow> preg
    \<Rightarrow> (opcode \<times> nat \<times> machine_instr list) option" where
  "add_chain Mode c MI DstReg LhsReg RhsReg = (if isFlagsDefDead MI
     then (let rhs = findDefiningLXI c RhsReg;
               lxi = (if rhs = None then findDefiningLXI c LhsReg else rhs);
               BaseReg = (if rhs = None then RhsReg else LhsReg)
       in case lxi of None \<Rightarrow> None
        | Some (m, i) \<Rightarrow> if DstReg = BaseReg
            then map_option (\<lambda>(opc, n). (opc, n, erase_LXI c m i)) (inx_chain Mode False m)
            else None)
     else None)"

text \<open>XCHG; DAD rp; XCHG, with the undef marks when HL holds no defined value.\<close>

definition xchg_dad_xchg :: "mbb_ctx \<Rightarrow> preg \<Rightarrow> machine_instr list" where
  "xchg_dad_xchg c rp = (if \<not> isRegLiveBefore (liveIns c) (before c) HL
     then [markXchgUseUndef HL XCHGi, DADi rp, markXchgUseUndef DE XCHGi]
     else [XCHGi, DADi rp, XCHGi])"

text \<open>Path A: one operand is HL and the destination is not.\<close>

definition add_path_A :: "mbb_ctx \<Rightarrow> preg \<Rightarrow> preg \<Rightarrow> machine_instr list" where
  "add_path_A c DstReg OtherReg =
    (let dead = isRegDeadAfter (after c) (succLiveIns c) HL
     in if DstReg = DE then
          if dead then [DADi OtherReg, XCHGi]
          else if OtherReg = DE then [XCHGi, DADi DE, XCHGi]
          else [PUSHi HL, DADi OtherReg, XCHGi, POPi HL]
        else if dead then [DADi OtherReg, MOV (subHi DstReg) H, MOV (subLo DstReg) L]
        else [PUSHi HL, DADi OtherReg, MOV (subHi DstReg) H, MOV (subLo DstReg) L, POPi HL])"

text \<open>Path B: the destination is HL and no operand is.\<close>

definition add_path_B :: "mbb_ctx \<Rightarrow> preg \<Rightarrow> preg \<Rightarrow> machine_instr list" where
  "add_path_B c LhsReg RhsReg =
    (if LhsReg \<noteq> RhsReg \<and> (LhsReg = DE \<or> RhsReg = DE) \<and> isRegDeadAfter (after c) (succLiveIns c) DE
     then [XCHGi, DADi (if LhsReg = DE then RhsReg else LhsReg)]
     else [MOV H (subHi LhsReg), MOV L (subLo LhsReg), DADi RhsReg])"

definition byte_chain :: "aluop \<Rightarrow> aluop \<Rightarrow> preg \<Rightarrow> preg \<Rightarrow> preg \<Rightarrow> machine_instr list" where
  "byte_chain opLo opHi DstReg LhsReg RhsReg =
     [MOV A (subLo LhsReg), ALU opLo (subLo RhsReg), MOV (subLo DstReg) A,
      MOV A (subHi LhsReg), ALU opHi (subHi RhsReg), MOV (subHi DstReg) A]"

definition add_code :: "mbb_ctx \<Rightarrow> preg \<Rightarrow> preg \<Rightarrow> preg \<Rightarrow> machine_instr list" where
  "add_code c DstReg LhsReg RhsReg =
    (if DstReg = HL \<and> LhsReg = HL then [DADi RhsReg]
     else if DstReg = HL \<and> RhsReg = HL then [DADi LhsReg]
     else if DstReg = DE \<and> LhsReg = DE \<and> RhsReg = DE then xchg_dad_xchg c HL
     else if DstReg = DE \<and> (LhsReg = DE \<and> RhsReg = BC \<or> LhsReg = BC \<and> RhsReg = DE)
       then xchg_dad_xchg c BC
     else if DstReg = BC \<and> (LhsReg = BC \<and> RhsReg = DE \<or> LhsReg = DE \<and> RhsReg = BC)
         \<and> isRegDeadAfter (after c) (succLiveIns c) DE
       then xchg_dad_xchg c BC @ [MOV B D, MOV C E]
     else if DstReg \<noteq> HL \<and> (LhsReg = HL \<or> RhsReg = HL)
       then add_path_A c DstReg (if LhsReg = HL then RhsReg else LhsReg)
     else if DstReg = HL \<and> LhsReg \<noteq> HL \<and> RhsReg \<noteq> HL then add_path_B c LhsReg RhsReg
     else byte_chain ADD ADC DstReg LhsReg RhsReg)"

definition expand_ADD16 ::
  "V6ClangOptMode \<Rightarrow> mbb_ctx \<Rightarrow> machine_instr \<Rightarrow> preg \<Rightarrow> preg \<Rightarrow> preg
    \<Rightarrow> machine_instr list \<times> machine_instr list" where
  "expand_ADD16 Mode c MI DstReg LhsReg RhsReg =
    (case add_chain Mode c MI DstReg LhsReg RhsReg of
       Some (opc, n, bef) \<Rightarrow> (bef, replicate n (INXi opc DstReg))
     | None \<Rightarrow> (before c, add_code c DstReg LhsReg RhsReg))"

section \<open>V6CLANG_SUB16\<close>

definition sub_chain ::
  "V6ClangOptMode \<Rightarrow> mbb_ctx \<Rightarrow> machine_instr \<Rightarrow> preg \<Rightarrow> preg \<Rightarrow> preg
    \<Rightarrow> (opcode \<times> nat \<times> machine_instr list) option" where
  "sub_chain Mode c MI DstReg LhsReg RhsReg = (if isFlagsDefDead MI \<and> DstReg = LhsReg
     then (case findDefiningLXI c RhsReg of None \<Rightarrow> None
       | Some (m, i) \<Rightarrow> map_option (\<lambda>(opc, n). (opc, n, erase_LXI c m i)) (inx_chain Mode True m))
     else None)"

definition expand_SUB16 ::
  "V6ClangOptMode \<Rightarrow> mbb_ctx \<Rightarrow> machine_instr \<Rightarrow> preg \<Rightarrow> preg \<Rightarrow> preg
    \<Rightarrow> machine_instr list \<times> machine_instr list" where
  "expand_SUB16 Mode c MI DstReg LhsReg RhsReg =
    (case sub_chain Mode c MI DstReg LhsReg RhsReg of
       Some (opc, n, bef) \<Rightarrow> (bef, replicate n (INXi opc DstReg))
     | None \<Rightarrow> (before c, byte_chain SUB SBB DstReg LhsReg RhsReg))"


section \<open>What the chains compute\<close>

text \<open>The value that the defining LXI of a pair promises is the value of the pair.\<close>

definition lxi_value :: "mbb_ctx \<Rightarrow> preg \<Rightarrow> cpu \<Rightarrow> bool" where
  "lxi_value c r s = (\<forall>m i k. findDefiningLXI c r = Some (m, i) \<longrightarrow> opImm m 1 = Some k
     \<longrightarrow> getP r s = word_of_int k)"

lemma inx_chainD:
  assumes "inx_chain Mode sub m = Some (opc, n)" "opImm m 1 = Some k"
  shows "0 < n" "opc = INX \<or> opc = DCX"
    "(if opc = INX then of_nat n else - of_nat n) = (if sub then - word_of_int k else word_of_int k :: u16)"
proof -
  define v where "v = (if k > 0x7FFF then k - 0x10000 else k)"
  have "(word_of_int k :: u16) = word_of_int v"
    by (simp add: v_def)
  moreover have "v \<noteq> 0" "opc = (if (v > 0) \<noteq> sub then INX else DCX)" "n = nat (if v > 0 then v else - v)"
    using assms by (auto simp: inx_chain_def v_def [symmetric] Let_def split: if_splits)
  moreover have "of_nat (nat \<bar>v\<bar>) = (word_of_int \<bar>v\<bar> :: u16)" by simp
  ultimately show "0 < n" "opc = INX \<or> opc = DCX"
    "(if opc = INX then of_nat n else - of_nat n) = (if sub then - word_of_int k else word_of_int k :: u16)"
    by (auto simp: word_of_int_minus)
qed

lemma run_chain:
  assumes "inx_chain Mode sub m = Some (opc, n)" "opImm m 1 = Some k" "GR16 r"
  shows "run env (replicate n (INXi opc r)) s
    = cont (setP r (if sub then getP r s - word_of_int k else getP r s + word_of_int k) s)"
  using inx_chainD [OF assms(1,2)] run_replicate_INX [OF assms(3), of env n s]
  by (cases "opc = INX"; cases sub; simp add: algebra_simps del: getP.simps setP.simps;
      metis add_diff_cancel_left' diff_minus_eq_add uminus_add_conv_diff)


lemma pred_lxi_imm:
  "pred_lxi r ps acc = Some m \<Longrightarrow> (\<And>x. acc = Some x \<Longrightarrow> opImm x 1 \<noteq> None \<and> opReg x 0 = Some r)
    \<Longrightarrow> opImm m 1 \<noteq> None \<and> opReg m 0 = Some r"
proof (induction r ps acc rule: pred_lxi.induct)
  case (2 r self ms ps acc)
  have "opImm x 1 \<noteq> None \<and> opReg x 0 = Some r" if "scan_lxi 16 0 r (rev ms) = ScanFound x j" for x j
    using that by (rule scan_lxiE) (auto simp: isLXIof_def)
  then show ?case
    using 2 by (auto split: if_splits lxi_scan.splits option.splits)
qed auto

lemma findDefiningLXI_imm:
  "findDefiningLXI c r = Some (m, i) \<Longrightarrow> opImm m 1 \<noteq> None \<and> opReg m 0 = Some r"
  by (auto simp: findDefiningLXI_def isLXIof_def split: lxi_scan.splits
      dest: pred_lxi_imm elim!: scan_lxiE)

lemma copyPair_simps [simp]:
  "GR16 d \<Longrightarrow> GR16 r \<Longrightarrow> copyPair d r = [BuildMI MOVrr [addRegDef (subHi d), addRegKill (subHi r) False],
     BuildMI MOVrr [addRegDef (subLo d), addRegKill (subLo r) False]]"
  by (auto simp: copyPair_def copyPhysReg_def)

lemma dead_regs_simps [simp]: "r \<in> dead_regs ms succs \<longleftrightarrow> GR8 r \<and> isRegDeadAtMI r ms succs"
  by (simp add: dead_regs_def)

lemma dad_HL:
  "getP HL (dad w s) = getP HL s + w" "unchanged {H, L, FLAGS} {} s (dad w s)"
  by (simp_all add: dad_def unchanged_code)

text \<open>
  The frame around a computation in HL: HL is saved when it must be, the base is copied in, the
  middle part computes from HL, and the result is copied out.
\<close>

lemma dad_around_frame:
  assumes "GR16 Dst" "GR16 Base" "Dst = HL \<or> P \<or> {H, L} \<subseteq> X" "P \<longrightarrow> Dst \<noteq> HL"
    and K: "K = {} \<or> K = {A}"
    and mid: "\<And>u. getP HL u = getP Base s \<Longrightarrow> \<forall>q\<in>{A, B, C, D, E}. r8 u q = r8 s q \<Longrightarrow> fl u = fl s \<Longrightarrow>
      sp u = (if P then sp s - 2 else sp s) \<Longrightarrow> \<exists>v. run env mid u = cont v \<and> getP HL v = w \<and> unchanged ({H, L, FLAGS} \<union> K) {} u v"
  shows "\<exists>t. run env (dad_around P Base Dst mid) s = cont t \<and> getP Dst t = w
    \<and> unchanged (units Dst \<union> {FLAGS} \<union> K \<union> X) (below_sp s) s t"
proof -
  let ?s = "if P then push16 (getP HL s) s else s"
  let ?u = "if Base = HL then ?s else setP HL (getP Base s) ?s"
  obtain v where v: "run env mid ?u = cont v" "getP HL v = w" "unchanged ({H, L, FLAGS} \<union> K) {} ?u v"
  proof -
    have "getP HL ?u = getP Base s" by (cases P; cases "Base = HL") simp_all
    moreover have "\<forall>q \<in> {A, B, C, D, E}. r8 ?u q = r8 s q"
      by (cases P; cases "Base = HL"; simp)
    moreover have "fl ?u = fl s" "sp ?u = (if P then sp s - 2 else sp s)" by (cases P; cases "Base = HL"; simp)+
    ultimately show thesis using mid [of ?u] that by blast
  qed
  have "run env (dad_around P Base Dst mid) s = run env (mid
      @ (if Dst \<noteq> HL then copyPair Dst HL else []) @ (if P then [POPi HL] else [])) ?u"
    using assms(2) by (elim GR16_cases) (auto simp: dad_around_def exec_simps setR_def)
  also have "\<dots> = run env ((if Dst \<noteq> HL then copyPair Dst HL else []) @ (if P then [POPi HL] else [])) v"
    by (simp only: run_append_Next [OF v(1)])
  finally have run: "run env (dad_around P Base Dst mid) s = \<dots>" .
  have "sp v = sp ?u" "mem v = mem ?u" "inte v = inte ?u" "iolog v = iolog ?u"
    using v(3) K by (auto simp: unchanged_def)
  then have sys: "sp v = (if P then sp s - 2 else sp s)" "inte v = inte s" "iolog v = iolog s"
    "mem v = (if P then (mem s)(sp s - 1 := hi8 (getP HL s), sp s - 2 := lo8 (getP HL s)) else mem s)"
    by (cases P; cases "Base = HL"; simp)+
  have regs: "\<forall>q \<in> {B, C, D, E}. r8 v q = r8 s q" "A \<in> K \<or> A \<in> X \<or> r8 v A = r8 s A"
    using v(3) K by (cases P; cases "Base = HL"; auto simp: unchanged_def)+
  show ?thesis
    unfolding run using assms(1-5) v(2) sys regs
    by (elim GR16_cases; cases P; simp add: exec_simps unchanged_code pop16_def below_sp_def)
qed

text \<open>When the middle part does not look at SP.\<close>

lemma dad_around_correct:
  assumes "GR16 Dst" "GR16 Base" "Dst = HL \<or> P \<or> {H, L} \<subseteq> X" "P \<longrightarrow> Dst \<noteq> HL" "K = {} \<or> K = {A}"
    and "\<And>u. getP HL u = getP Base s \<Longrightarrow> \<forall>q\<in>{A, B, C, D, E}. r8 u q = r8 s q \<Longrightarrow> fl u = fl s \<Longrightarrow>
      \<exists>v. run env mid u = cont v \<and> getP HL v = w \<and> unchanged ({H, L, FLAGS} \<union> K) {} u v"
  shows "\<exists>t. run env (dad_around P Base Dst mid) s = cont t \<and> getP Dst t = w
    \<and> unchanged (units Dst \<union> {FLAGS} \<union> K \<union> X) (below_sp s) s t"
  using assms by (intro dad_around_frame)

section \<open>Correctness\<close>

definition dad_frame :: "mbb_ctx \<Rightarrow> preg set" where
  "dad_frame c = (if HLDead c then {H, L} else {})"

text \<open>
  The stack pointer may be the second source.  A PUSH that saves HL would change it, so then HL must
  not have to be saved.
\<close>

definition sp_unmoved :: "mbb_ctx \<Rightarrow> preg \<Rightarrow> preg \<Rightarrow> bool" where
  "sp_unmoved c Dst Rhs \<longleftrightarrow> (Rhs = SP \<longrightarrow> Dst = HL \<or> HLDead c)"

lemma expand_DAD_run:
  assumes "GR16 Dst" "GR16 Lhs" "GR16All Rhs" "lxi_value c Lhs s" "lxi_value c Rhs s" "sp_unmoved c Dst Rhs"
  shows "\<exists>t. run env (snd (expand_DAD Mode c MI Dst Lhs Rhs)) s = cont t
    \<and> getP Dst t = getP Lhs s + getP Rhs s
    \<and> unchanged (units Dst \<union> {FLAGS} \<union> dad_frame c) (below_sp s) s t"
proof -
  let ?Base = "if Rhs = HL then Rhs else Lhs" and ?Add = "if Rhs = HL then Lhs else Rhs"
  let ?P = "Dst \<noteq> HL \<and> \<not> HLDead c"
  have GR: "GR16 ?Base" "GR16 ?Add \<or> ?Add = SP \<and> \<not> ?P" and sum: "getP Lhs s + getP Rhs s = getP ?Base s + getP ?Add s"
    using assms(2,3,6) by (cases Rhs; simp add: sp_unmoved_def add.commute)+
  have X: "Dst = HL \<or> ?P \<or> {H, L} \<subseteq> dad_frame c" "?P \<longrightarrow> Dst \<noteq> HL" by (auto simp: dad_frame_def)
  have K0: "({} :: preg set) = {} \<or> {} = {A}" by simp
  show ?thesis
  proof (cases "dad_chain Mode c MI ?Add")
    case None
    have mid: "\<exists>v. run env [DADi ?Add] u = cont v \<and> getP HL v = getP ?Base s + getP ?Add s
        \<and> unchanged ({H, L, FLAGS} \<union> {}) {} u v"
      if u: "getP HL u = getP ?Base s" "\<forall>q\<in>{A, B, C, D, E}. r8 u q = r8 s q" "fl u = fl s"
        "sp u = (if ?P then sp s - 2 else sp s)" for u
    proof -
      have "getP ?Add u = getP ?Add s"
        using GR(2)
      proof
        assume "GR16 ?Add"
        then show ?thesis using u by (cases "Rhs = HL"; elim GR16_cases; simp)
      next
        assume sp: "?Add = SP \<and> \<not> ?P"
        then show ?thesis using u(4) unfolding conjunct1 [OF sp] by (simp only: getP.simps(1) if_False)
      qed
      then show ?thesis
        using u(1) by (simp add: exec_simps dad_HL del: getP.simps)
    qed
    show ?thesis
    proof (cases "?P \<and> ?Base = HL \<and> ?Add = DE \<and> Dst = DE")
      case True
      then show ?thesis unfolding sum
        using None by (simp add: expand_DAD_def exec_simps unchanged_code dad_def add.commute)
    next
      case False
      then have code: "snd (expand_DAD Mode c MI Dst Lhs Rhs) = dad_around ?P ?Base Dst [DADi ?Add]"
        using None by (simp only: expand_DAD_def Let_def option.simps if_False snd_conv)
      show ?thesis unfolding sum code
        by (rule dad_around_frame [OF assms(1) GR(1) X K0 mid, unfolded Un_empty_right])
    qed
  next
    case (Some x)
    then obtain opc n bef m i where x: "x = (opc, n, bef)" and m: "findDefiningLXI c ?Add = Some (m, i)"
      "inx_chain Mode False m = Some (opc, n)"
      by (cases x) (auto simp: dad_chain_def split: if_splits option.splits)
    obtain k where k: "opImm m 1 = Some k" using findDefiningLXI_imm [OF m(1)] by auto
    then have w: "getP ?Add s = word_of_int k"
      using assms(4,5) m(1) by (auto simp: lxi_value_def)
    have mid: "\<exists>v. run env (replicate n (INXi opc HL)) u = cont v \<and> getP HL v = getP ?Base s + getP ?Add s
        \<and> unchanged ({H, L, FLAGS} \<union> {}) {} u v"
      if "getP HL u = getP ?Base s" "\<forall>q\<in>{A, B, C, D, E}. r8 u q = r8 s q" "fl u = fl s" for u
      unfolding w run_chain [OF m(2) k, of HL env u, simplified] using that
      by (simp add: unchanged_code del: getP.simps) simp
    have code: "snd (expand_DAD Mode c MI Dst Lhs Rhs) = dad_around ?P ?Base Dst (replicate n (INXi opc HL))"
      using Some x by (simp add: expand_DAD_def Let_def)
    show ?thesis unfolding sum code
      by (rule dad_around_correct [OF assms(1) GR(1) X K0 mid, unfolded Un_empty_right])
  qed
qed

lemma dad_frame_dead: "dad_frame c \<subseteq> dead_regs (after c) (succLiveIns c)"
  by (auto simp: dad_frame_def HLDead_def)

text \<open>
  C8.  V6CLANG_DAD adds two pairs, or a pair and SP, modulo 65536 on every path, with the constant chains
  read off the LXI, provided the constant that \<open>findDefiningLXI\<close> reports for a source is the one it holds,
  and HL need not be saved when SP is a source.  Apart from the destination, the flags and the two bytes
  below the stack pointer it changes only H and L, and those only when the scans of both report them dead.
\<close>

theorem expand_DAD_correct:
  assumes "GR16 Dst" "GR16 Lhs" "GR16All Rhs" "lxi_value c Lhs s" "lxi_value c Rhs s" "sp_unmoved c Dst Rhs"
  shows "\<exists>t. run env (snd (expand_DAD Mode c MI Dst Lhs Rhs)) s = cont t
    \<and> getP Dst t = getP Lhs s + getP Rhs s
    \<and> unchanged (units Dst \<union> {FLAGS} \<union> (if HLDead c then {H, L} else {})) (below_sp s) s t"
  using assms unfolding dad_frame_def [symmetric] by (rule expand_DAD_run)

lemma byte_chain_add:
  assumes "GR16 Dst" "GR16 Lhs" "GR16 Rhs"
  shows "\<exists>t. run env (byte_chain ADD ADC Dst Lhs Rhs) s = cont t \<and> getP Dst t = getP Lhs s + getP Rhs s
    \<and> unchanged (units Dst \<union> {A, FLAGS}) {} s t"
proof -
  have sum: "mk16 h l + mk16 h' l' = mk16 (h + h' + of_bool (256 \<le> unat l + unat l')) (l + l')" for h l h' l'
    by (rule mk16_eqI) (simp_all add: lo8_add hi8_add)
  show ?thesis
    using assms by (elim GR16_cases)
      (simp_all add: byte_chain_def exec_simps unchanged_code sum)
qed

lemma byte_chain_sub:
  assumes "GR16 Dst" "GR16 Lhs" "GR16 Rhs"
  shows "\<exists>t. run env (byte_chain SUB SBB Dst Lhs Rhs) s = cont t \<and> getP Dst t = getP Lhs s - getP Rhs s
    \<and> unchanged (units Dst \<union> {A, FLAGS}) {} s t"
proof -
  have diff: "mk16 h l - mk16 h' l' = mk16 (h - h' - of_bool (unat l < unat l')) (l - l')" for h l h' l'
    by (rule mk16_eqI) (simp_all add: lo8_sub hi8_sub)
  show ?thesis
    using assms by (elim GR16_cases)
      (simp_all add: byte_chain_def exec_simps unchanged_code diff)
qed


lemma xchg_dad_xchg_run:
  "run env (xchg_dad_xchg c rp) s = run env [XCHGi, DADi rp, XCHGi] s"
  by (simp add: xchg_dad_xchg_def exec_simps)

text \<open>The three families of paths; D stands for what the scans of HL and DE answer.\<close>

lemma add_path_A_correct:
  assumes "GR16 Dst" "GR16 Other" "Dst \<noteq> HL" "pair_scan_ok HL (after c) (succLiveIns c)"
  shows "\<exists>t. run env (add_path_A c Dst Other) s = cont t \<and> getP Dst t = getP HL s + getP Other s
    \<and> unchanged (units Dst \<union> {A, FLAGS} \<union> dead_regs (after c) (succLiveIns c)) (below_sp s) s t"
proof (cases "isRegDeadAtMI HL (after c) (succLiveIns c)")
  case True
  then have "H \<in> dead_regs (after c) (succLiveIns c)" "L \<in> dead_regs (after c) (succLiveIns c)"
    using assms(4) pair_scan_okD [of HL] by auto
  then show ?thesis using assms(1-3) True
    by (elim GR16_cases) (simp_all add: add_path_A_def exec_simps unchanged_code dad_def)
next
  case False
  then show ?thesis using assms(1-3)
    by (elim GR16_cases)
      (simp_all add: add_path_A_def exec_simps unchanged_code dad_def add.commute pop16_def below_sp_def)
qed

lemma add_path_B_correct:
  assumes "GR16 Lhs" "GR16 Rhs" "Lhs \<noteq> HL" "Rhs \<noteq> HL" "pair_scan_ok DE (after c) (succLiveIns c)"
  shows "\<exists>t. run env (add_path_B c Lhs Rhs) s = cont t \<and> getP HL t = getP Lhs s + getP Rhs s
    \<and> unchanged (units HL \<union> {A, FLAGS} \<union> dead_regs (after c) (succLiveIns c)) (below_sp s) s t"
proof (cases "isRegDeadAtMI DE (after c) (succLiveIns c)")
  case True
  then have "D \<in> dead_regs (after c) (succLiveIns c)" "E \<in> dead_regs (after c) (succLiveIns c)"
    using assms(5) pair_scan_okD [of DE] by auto
  then show ?thesis using assms(1-4) True
    by (elim GR16_cases) (simp_all add: add_path_B_def exec_simps unchanged_code dad_def add.commute)
next
  case False
  then show ?thesis using assms(1-4)
    by (elim GR16_cases) (simp_all add: add_path_B_def exec_simps unchanged_code dad_def)
qed

lemma add_code_correct:
  assumes "GR16 Dst" "GR16 Lhs" "GR16 Rhs"
    and ok: "pair_scan_ok HL (after c) (succLiveIns c)" "pair_scan_ok DE (after c) (succLiveIns c)"
  shows "\<exists>t. run env (add_code c Dst Lhs Rhs) s = cont t \<and> getP Dst t = getP Lhs s + getP Rhs s
    \<and> unchanged (units Dst \<union> {A, FLAGS} \<union> dead_regs (after c) (succLiveIns c)) (below_sp s) s t"
proof -
  let ?X = "dead_regs (after c) (succLiveIns c)"
  consider (dad) "Dst = HL" "Lhs = HL \<or> Rhs = HL"
    | (pathA) "Dst \<noteq> HL" "Lhs = HL \<or> Rhs = HL" | (pathB) "Dst = HL" "Lhs \<noteq> HL" "Rhs \<noteq> HL"
    | (xde) "Dst = DE" "Lhs = DE \<and> Rhs = DE"
    | (xde') "Dst = DE" "{Lhs, Rhs} = {BC, DE}"
    | (xbc) "Dst = BC" "{Lhs, Rhs} = {BC, DE}" "isRegDeadAtMI DE (after c) (succLiveIns c)"
    | (bytes) "add_code c Dst Lhs Rhs = byte_chain ADD ADC Dst Lhs Rhs"
    using assms(1-3)
    by (cases "isRegDeadAtMI DE (after c) (succLiveIns c)"; elim GR16_cases)
      (auto simp: add_code_def doubleton_eq_iff)
  then show ?thesis
  proof cases
    case dad
    then show ?thesis using assms(2,3)
      by (elim GR16_cases) (auto simp: add_code_def exec_simps unchanged_code dad_def add.commute)
  next
    case pathA
    then have code: "add_code c Dst Lhs Rhs = add_path_A c Dst (if Lhs = HL then Rhs else Lhs)"
      by (auto simp: add_code_def)
    have sum: "getP Lhs s + getP Rhs s = getP HL s + getP (if Lhs = HL then Rhs else Lhs) s"
      using pathA(2) by (auto simp: add.commute simp del: getP.simps)
    have "GR16 (if Lhs = HL then Rhs else Lhs)" using assms by simp
    from add_path_A_correct [OF assms(1) this pathA(1) ok(1)] show ?thesis
      unfolding code sum .
  next
    case pathB
    then show ?thesis
      using add_path_B_correct [OF assms(2,3) pathB(2,3) ok(2), of env s]
      by (simp add: add_code_def del: getP.simps)
  next
    case xde
    then show ?thesis
      by (simp add: add_code_def xchg_dad_xchg_run) (simp add: exec_simps unchanged_code dad_def)
  next
    case xde'
    then have "add_code c Dst Lhs Rhs = xchg_dad_xchg c BC" by (auto simp: add_code_def doubleton_eq_iff)
    moreover have "getP Lhs s + getP Rhs s = getP DE s + getP BC s"
      using xde' by (auto simp: doubleton_eq_iff add.commute)
    ultimately show ?thesis using xde'(1)
      by (simp add: xchg_dad_xchg_run) (simp add: exec_simps unchanged_code dad_def)
  next
    case xbc
    then have "add_code c Dst Lhs Rhs = xchg_dad_xchg c BC @ [MOV B D, MOV C E]"
      by (auto simp: add_code_def doubleton_eq_iff)
    moreover have "getP Lhs s + getP Rhs s = getP DE s + getP BC s"
      using xbc by (auto simp: doubleton_eq_iff add.commute)
    moreover have "D \<in> ?X" "E \<in> ?X" using xbc(3) ok(2) pair_scan_okD [of DE] by auto
    ultimately show ?thesis using xbc(1)
      by (simp add: run_append xchg_dad_xchg_run) (simp add: exec_simps unchanged_code dad_def)
  next
    case bytes
    obtain t where "run env (byte_chain ADD ADC Dst Lhs Rhs) s = cont t"
      "getP Dst t = getP Lhs s + getP Rhs s" "unchanged (units Dst \<union> {A, FLAGS}) {} s t"
      using byte_chain_add [OF assms(1-3)] by blast
    moreover from this(3) have
      "unchanged (units Dst \<union> {A, FLAGS} \<union> ?X) (below_sp s) s t"
      by (rule unchanged_mono) auto
    ultimately show ?thesis using bytes by auto
  qed
qed

text \<open>A chain that replaces \<open>Dst = Dst + constant\<close> or \<open>Dst = Dst - constant\<close>.\<close>

lemma chain_correct:
  assumes "GR16 Dst" "inx_chain Mode sub m = Some (opc, n)" "findDefiningLXI c r = Some (m, i)"
    and "lxi_value c r s"
  shows "\<exists>t. run env (replicate n (INXi opc Dst)) s = cont t
    \<and> getP Dst t = (if sub then getP Dst s - getP r s else getP Dst s + getP r s)
    \<and> unchanged (units Dst) {} s t"
proof -
  obtain k where k: "opImm m 1 = Some k" using findDefiningLXI_imm [OF assms(3)] by auto
  then have w: "getP r s = word_of_int k" using assms(3,4) by (auto simp: lxi_value_def)
  have "GR16All Dst" "unchanged (units Dst) {} s (setP Dst v s)" for v
    using assms(1) by (auto simp: unchanged_code)
  then show ?thesis
    unfolding w run_chain [OF assms(2) k assms(1)] by (auto simp del: getP.simps setP.simps)
qed

lemma expand_ADD16_run:
  assumes "GR16 Dst" "GR16 Lhs" "GR16 Rhs" "lxi_value c Lhs s" "lxi_value c Rhs s"
    and "pair_scan_ok HL (after c) (succLiveIns c)" "pair_scan_ok DE (after c) (succLiveIns c)"
  shows "\<exists>t. run env (snd (expand_ADD16 Mode c MI Dst Lhs Rhs)) s = cont t
    \<and> getP Dst t = getP Lhs s + getP Rhs s
    \<and> unchanged (units Dst \<union> {A, FLAGS} \<union> dead_regs (after c) (succLiveIns c)) (below_sp s) s t"
proof (cases "add_chain Mode c MI Dst Lhs Rhs")
  case None
  then show ?thesis
    using add_code_correct [OF assms(1-3,6,7)] by (simp add: expand_ADD16_def del: getP.simps)
next
  case (Some x)
  then obtain opc n bef m i r b where x: "x = (opc, n, bef)" and m: "findDefiningLXI c r = Some (m, i)"
    "inx_chain Mode False m = Some (opc, n)" and r: "r = Rhs \<and> b = Lhs \<or> r = Lhs \<and> b = Rhs" "Dst = b"
    by (cases x) (auto simp: add_chain_def Let_def split: if_splits option.splits)
  have "lxi_value c r s" using r assms(4,5) by auto
  from chain_correct [OF assms(1) m(2,1) this] obtain t where
    "run env (replicate n (INXi opc Dst)) s = cont t" "getP Dst t = getP Dst s + getP r s"
    "unchanged (units Dst) {} s t" by auto
  moreover from this have "unchanged (units Dst \<union> {A, FLAGS} \<union> dead_regs (after c) (succLiveIns c)) (below_sp s) s t"
    by (auto elim!: unchanged_mono)
  ultimately show ?thesis
    using Some x r by (auto simp: expand_ADD16_def add.commute simp del: getP.simps)
qed

text \<open>
  C7.  V6CLANG_ADD16 adds two pairs modulo 65536 on each of its fourteen paths.  Apart from the
  destination, A and the flags it changes only registers that the byte scans found dead,
  provided the pair scans of HL and DE promise no more than the scans of their halves and the constant
  that \<open>findDefiningLXI\<close> reports for a source is the one it holds.
\<close>

theorem expand_ADD16_correct:
  assumes "GR16 Dst" "GR16 Lhs" "GR16 Rhs" "lxi_value c Lhs s" "lxi_value c Rhs s"
    and "pair_scan_ok HL (after c) (succLiveIns c)" "pair_scan_ok DE (after c) (succLiveIns c)"
  shows "\<exists>t. run env (snd (expand_ADD16 Mode c MI Dst Lhs Rhs)) s = cont t
    \<and> getP Dst t = getP Lhs s + getP Rhs s
    \<and> unchanged (units Dst \<union> {A, FLAGS} \<union> dead_regs (after c) (succLiveIns c)) (below_sp s) s t"
  using assms by (rule expand_ADD16_run)

lemma expand_SUB16_run:
  assumes "GR16 Dst" "GR16 Lhs" "GR16 Rhs" "lxi_value c Rhs s"
  shows "\<exists>t. run env (snd (expand_SUB16 Mode c MI Dst Lhs Rhs)) s = cont t
    \<and> getP Dst t = getP Lhs s - getP Rhs s \<and> unchanged (units Dst \<union> {A, FLAGS}) {} s t"
proof (cases "sub_chain Mode c MI Dst Lhs Rhs")
  case None
  then show ?thesis using byte_chain_sub [OF assms(1-3)] by (simp add: expand_SUB16_def del: getP.simps)
next
  case (Some x)
  then obtain opc n bef m i where x: "x = (opc, n, bef)" and m: "findDefiningLXI c Rhs = Some (m, i)"
    "inx_chain Mode True m = Some (opc, n)" and "Dst = Lhs"
    by (cases x) (auto simp: sub_chain_def split: if_splits option.splits)
  moreover from chain_correct [OF assms(1) m(2,1) assms(4)] obtain t where
    "run env (replicate n (INXi opc Dst)) s = cont t" "getP Dst t = getP Dst s - getP Rhs s"
    "unchanged (units Dst) {} s t" by auto
  moreover from this have "unchanged (units Dst \<union> {A, FLAGS}) {} s t" by (auto elim!: unchanged_mono)
  ultimately show ?thesis using Some by (auto simp: expand_SUB16_def simp del: getP.simps)
qed

text \<open>
  V6CLANG_SUB16 subtracts modulo 65536, by a chain of DCX or INX when the subtrahend is a small
  constant and byte by byte with borrow otherwise.
\<close>

theorem expand_SUB16_correct:
  assumes "GR16 Dst" "GR16 Lhs" "GR16 Rhs" "lxi_value c Rhs s"
  shows "\<exists>t. run env (snd (expand_SUB16 Mode c MI Dst Lhs Rhs)) s = cont t
    \<and> getP Dst t = getP Lhs s - getP Rhs s \<and> unchanged (units Dst \<union> {A, FLAGS}) {} s t"
  using assms by (rule expand_SUB16_run)

text \<open>Concrete positions: nothing around the pseudo, and HL, DE live out.\<close>

definition ctx0 :: mbb_ctx where
  "ctx0 = \<lparr>before = [], after = [], liveIns = [], succLiveIns = [[HL, DE]], preds = []\<rparr>"

lemma ctx0_simps [simp]:
  "findDefiningLXI ctx0 r = None" "lxi_value ctx0 r s"
  "pair_scan_ok HL (after ctx0) (succLiveIns ctx0)" "pair_scan_ok DE (after ctx0) (succLiveIns ctx0)"
  by (simp_all add: ctx0_def findDefiningLXI_def lxi_value_def pair_scan_ok_def liveOut_def
      numeral_eq_Suc)

theorem expand_DAD_correct_witness:
  "\<forall>MI env s. \<exists>t. run env (snd (expand_DAD Speed ctx0 MI BC DE HL)) s = cont t
    \<and> getP BC t = getP DE s + getP HL s"
proof (intro allI)
  fix MI env s
  show "\<exists>t. run env (snd (expand_DAD Speed ctx0 MI BC DE HL)) s = cont t
    \<and> getP BC t = getP DE s + getP HL s"
    using expand_DAD_correct [of BC DE HL ctx0 s env Speed MI] by (auto simp: sp_unmoved_def simp del: getP.simps)
qed

theorem expand_ADD16_correct_witness:
  "\<forall>MI env s. \<exists>t. run env (snd (expand_ADD16 Speed ctx0 MI BC BC DE)) s = cont t
    \<and> getP BC t = getP BC s + getP DE s"
proof (intro allI)
  fix MI env s
  show "\<exists>t. run env (snd (expand_ADD16 Speed ctx0 MI BC BC DE)) s = cont t
    \<and> getP BC t = getP BC s + getP DE s"
    using expand_ADD16_correct [of BC BC DE ctx0 s env Speed MI] by (auto simp del: getP.simps)
qed

theorem expand_SUB16_correct_witness:
  "\<forall>MI env s. \<exists>t. run env (snd (expand_SUB16 Size ctx0 MI HL DE BC)) s = cont t
    \<and> getP HL t = getP DE s - getP BC s"
proof (intro allI)
  fix MI env s
  show "\<exists>t. run env (snd (expand_SUB16 Size ctx0 MI HL DE BC)) s = cont t
    \<and> getP HL t = getP DE s - getP BC s"
    using expand_SUB16_correct [of HL DE BC ctx0 s env Size MI] by (auto simp del: getP.simps)
qed

section \<open>Erasing the LXI\<close>

lemma run_frame_reg:
  assumes "\<forall>x \<in> set ms. wf_instr x \<and> \<not> usesReg q x \<and> \<not> defsReg q x" "GR8 q" "run env ms s = cont t"
  shows "run env ms (setR q v s) = cont (setR q v t)"
  using assms
proof (induction ms arbitrary: s)
  case (Cons x ms)
  then obtain u where u: "exec env x s = cont u" "run env ms u = cont t"
    by (auto simp: run_Cons_cont simp del: run.simps(2))
  then have "exec env x (setR q v s) = cont (setR q v u)"
    using Cons.prems by (simp add: exec_frame)
  then show ?case using Cons.IH [OF _ _ u(2)] Cons.prems by simp
qed simp

lemma setP_as_setR: "GR16 r \<Longrightarrow> setP r w s = setR (subHi r) (hi8 w) (setR (subLo r) (lo8 w) s)"
  by (auto simp: setR_def fun_upd_twist)

lemma erase_LXI_run:
  assumes "findDefiningLXI c r = Some (m, Some i)" "GR16 r" "run env (before c) s0 = cont s"
    and "\<forall>x \<in> set (before c). wf_instr x"
    and "\<forall>x \<in> set (drop (length (before c) - i) (before c)).
      \<not> usesReg (subHi r) x \<and> \<not> usesReg (subLo r) x"
  shows "\<exists>w. run env (erase_LXI c m (Some i)) s0 = cont (setP r w s)"
proof -
  have "scan_lxi 16 0 r (rev (before c)) = ScanFound m i"
    using assms(1) by (auto simp: findDefiningLXI_def split: lxi_scan.splits)
  then obtain xs ys where ms: "rev (before c) = xs @ m # ys" and m: "isLXIof r m" "opImm m 1 \<noteq> None"
    and i: "i = length xs" and xs: "\<And>x. x \<in> set xs \<Longrightarrow> \<not> modifiesRegister x r"
    by (rule scan_lxiE) auto
  from ms have bef: "before c = rev ys @ m # rev xs"
    by (metis append.assoc append_Cons append_Nil rev.simps(2) rev_append rev_rev_ident)
  then obtain u v where u: "run env (rev ys) s0 = cont u" "exec env m u = cont v"
    "run env (rev xs) v = cont s"
    using assms(3) by (auto simp: run_append_cont run_Cons_cont simp del: run.simps(2))
  obtain k where k: "opImm m 1 = Some k" using m by auto
  have v: "v = setP r (word_of_int k) u"
    using exec_LXI_setP(1) [OF _ m(1) k assms(2) u(2)] assms(4) bef by simp
  have halves: "GR8 (subHi r)" "GR8 (subLo r)" using assms(2) by auto
  have nd: "\<not> defsReg q x" if "x \<in> set xs" "q = subHi r \<or> q = subLo r" for q x
    using modifies_half [of q r x] xs [OF that(1)] that(2) assms(2) by (elim GR16_cases) auto
  have fr: "\<forall>x \<in> set (rev xs). wf_instr x \<and> \<not> usesReg q x \<and> \<not> defsReg q x"
    if "q = subHi r \<or> q = subLo r" for q
    using that assms(4,5) bef i nd by auto
  have undo: "setP r (getP r u) v = u"
    unfolding v using assms(2) by (auto simp: setR_def fun_upd_idem_iff fun_eq_iff)
  have "run env (rev xs) (setP r (getP r u) v) = cont (setP r (getP r u) s)"
    unfolding setP_as_setR [OF assms(2)]
    by (intro run_frame_reg fr halves u(3)) auto
  then have "run env (rev ys @ rev xs) s0 = cont (setP r (getP r u) s)"
    using u(1) undo by (simp add: run_append)
  moreover have "setP r (getP r s) s = s"
    using assms(2) by (auto simp: setR_def)
  moreover have "erase_LXI c m (Some i) \<in> {rev ys @ rev xs, before c}"
    using bef i by (auto simp: erase_LXI_def remove_nth_def split: option.splits)
  ultimately show ?thesis using assms(3) by (metis insert_iff singletonD)
qed

text \<open>
  Erasing the LXI is harmless when nothing between it and the pseudo reads a half of its pair:
  the remaining block reaches the position in the same state up to that pair.
\<close>

theorem erase_LXI_harmless:
  assumes "findDefiningLXI c r = Some (m, Some i)" "GR16 r" "run env (before c) s0 = cont s"
    and "\<forall>x \<in> set (before c). wf_instr x"
    and "\<forall>x \<in> set (drop (length (before c) - i) (before c)).
      \<not> usesReg (subHi r) x \<and> \<not> usesReg (subLo r) x"
  shows "\<exists>u. run env (erase_LXI c m (Some i)) s0 = cont u \<and> unchanged (units r) {} u s"
proof -
  have "unchanged (units r) {} (setP r w s) s" for w using assms(2) by (auto simp: unchanged_code)
  then show ?thesis using erase_LXI_run [OF assms] by blast
qed

definition erase_ctx :: "machine_instr list \<Rightarrow> mbb_ctx" where
  "erase_ctx mid = \<lparr>before = BuildMI LXI [addRegDef DE, addImm 1] # mid, after = [], liveIns = [],
     succLiveIns = [[A, HL]], preds = []\<rparr>"

definition dad_pseudo :: machine_instr where
  "dad_pseudo = \<lparr>opcode = PSEUDO V6CLANG_DAD, operands = [addRegDef HL, addReg HL, addReg DE,
     MO_Register FLAGS True True False True False]\<rparr>"

lemmas lxi_eval = findDefiningLXI_def isLXIof_def opReg_def opImm_def BuildMI_def modifiesRegister_def
  implicit_operands_def numeral_eq_Suc MOV_def

theorem erase_LXI_harmless_witness:
  "\<forall>env s0. \<exists>u. run env [MOV A C] s0 = cont u
    \<and> unchanged {D, E} {} u (setR A (r8 s0 C) (setP DE 1 s0))"
proof (intro allI)
  fix env s0
  let ?c = "erase_ctx [MOV A C]" and ?m = "BuildMI LXI [addRegDef DE, addImm 1]"
  have 1: "findDefiningLXI ?c DE = Some (?m, Some 1)"
    by (simp add: erase_ctx_def lxi_eval)
  have 2: "run env (before ?c) s0 = cont (setR A (r8 s0 C) (setP DE 1 s0))"
    by (simp add: erase_ctx_def exec_simps)
  have 3: "erase_LXI ?c ?m (Some 1) = [MOV A C]"
    by (simp add: erase_LXI_def erase_ctx_def opReg_def BuildMI_def remove_nth_def liveOut_def)
  have "wf_instr ?m" "wf_instr (MOV A C)" "\<not> usesReg D (MOV A C)" "\<not> usesReg E (MOV A C)"
    by (simp_all add: MOV_def wf_eval)
  then have "\<exists>u. run env (erase_LXI ?c ?m (Some 1)) s0 = cont u
      \<and> unchanged (units DE) {} u (setR A (r8 s0 C) (setP DE 1 s0))"
    by (intro erase_LXI_harmless [OF 1 _ 2]) (simp_all add: erase_ctx_def)
  then show "\<exists>u. run env [MOV A C] s0 = cont u
    \<and> unchanged {D, E} {} u (setR A (r8 s0 C) (setP DE 1 s0))"
    unfolding 3 by (simp del: setP.simps)
qed

text \<open>
  C38.  The expansion of V6CLANG_DAD erases the LXI of its constant even when an instruction between
  the two reads the constant: here A must be 1 at the end of the block, but the expanded block
  leaves the old E in it.
\<close>

theorem expand_DAD_erases_used_LXI:
  "expand_DAD Speed (erase_ctx [MOV A E]) dad_pseudo HL HL DE = ([MOV A E], [INXi INX HL])
   \<and> (\<exists>t. run env (before (erase_ctx [MOV A E])) s = cont t \<and> r8 t A = 1)
   \<and> (\<exists>t. run env [MOV A E] s = cont t \<and> r8 t A = r8 s E)"
proof -
  have 1: "findDefiningLXI (erase_ctx [MOV A E]) DE
      = Some (BuildMI LXI [addRegDef DE, addImm 1], Some 1)"
    by (simp add: erase_ctx_def lxi_eval)
  have 2: "isFlagsDefDead dad_pseudo" by (simp add: isFlagsDefDead_def dad_pseudo_def)
  have 3: "inx_chain Speed False (BuildMI LXI [addRegDef DE, addImm 1]) = Some (INX, 1)"
    by (simp add: inx_chain_def opImm_def BuildMI_def cost_defs)
  have 4: "erase_LXI (erase_ctx [MOV A E]) (BuildMI LXI [addRegDef DE, addImm 1]) (Some 1) = [MOV A E]"
    by (simp add: erase_LXI_def erase_ctx_def opReg_def BuildMI_def remove_nth_def liveOut_def)
  have "expand_DAD Speed (erase_ctx [MOV A E]) dad_pseudo HL HL DE = ([MOV A E], [INXi INX HL])"
    using 1 2 3 4 by (simp add: expand_DAD_def dad_chain_def dad_around_def)
  moreover have "lo8 1 = 1" by (simp add: lo8_def)
  ultimately show ?thesis by (simp add: erase_ctx_def exec_simps)
qed

text \<open>
  The second source may be SP (\<open>GR16All\<close> in the definition of the pseudo).  With HL live and another
  destination, HL is pushed first and DAD SP adds what the PUSH has left in SP.
\<close>

theorem expand_DAD_SP_moved:
  "\<exists>t. run env (snd (expand_DAD Speed (erase_ctx []) MI DE BC SP)) s = cont t
    \<and> getP DE t = getP BC s + (sp s - 2)"
proof -
  have "findDefiningLXI (erase_ctx []) SP = None"
    by (simp add: erase_ctx_def lxi_eval)
  then have "dad_chain Speed (erase_ctx []) MI SP = None" by (simp add: dad_chain_def)
  moreover have "\<not> HLDead (erase_ctx [])" by (simp add: HLDead_def erase_ctx_def liveOut_def)
  ultimately have "snd (expand_DAD Speed (erase_ctx []) MI DE BC SP) = dad_around True BC DE [DADi SP]"
    by (simp add: expand_DAD_def)
  then show ?thesis by (simp add: dad_around_def exec_simps dad_def)
qed

end
