(* ===== verification/ExpandLogic.thy ===== *)
theory ExpandLogic
  imports Emit
begin

text \<open>
  \<open>expandPostRAPseudo\<close>, third part: the bitwise 16-bit operations, with a register and with a
  constant operand.  The locale \<open>bytewise\<close> is the contract that AND, OR and XOR share.
\<close>

section \<open>AND16, OR16, XOR16\<close>

fun logic_opc :: "pseudo \<Rightarrow> aluop option" where
  "logic_opc V6CLANG_AND16 = Some ANA"
| "logic_opc V6CLANG_OR16 = Some ORA"
| "logic_opc V6CLANG_XOR16 = Some XRA"
| "logic_opc _ = None"

definition expand_LOGIC16 ::
  "aluop \<Rightarrow> mbb_ctx \<Rightarrow> preg \<Rightarrow> preg \<Rightarrow> preg \<Rightarrow> machine_instr list" where
  "expand_LOGIC16 OpOpc c DstReg LhsReg RhsReg =
    (let HiDead = isRegDeadAfter (after c) (succLiveIns c) (subHi DstReg)
     in [MOV A (subLo LhsReg), ALU OpOpc (subLo RhsReg), MOV (subLo DstReg) A]
        @ (if \<not> HiDead then [MOV A (subHi LhsReg), ALU OpOpc (subHi RhsReg), MOV (subHi DstReg) A]
           else []))"

section \<open>AND16_IMM, OR16_IMM, XOR16_IMM\<close>

fun logic_imm_opc :: "pseudo \<Rightarrow> aluop option" where
  "logic_imm_opc V6CLANG_AND16_IMM = Some ANA"
| "logic_imm_opc V6CLANG_OR16_IMM = Some ORA"
| "logic_imm_opc V6CLANG_XOR16_IMM = Some XRA"
| "logic_imm_opc _ = None"

text \<open>One byte: the identities, the constant results, and the generic sequence through A.\<close>

definition emitByte :: "aluop \<Rightarrow> int \<Rightarrow> preg \<Rightarrow> machine_instr list" where
  "emitByte OpOpc ByteVal RegByte =
    (if OpOpc = ANA \<and> ByteVal = 0xFF then []
     else if OpOpc = ANA \<and> ByteVal = 0x00 then [MVI RegByte 0]
     else if OpOpc = ORA \<and> ByteVal = 0x00 then []
     else if OpOpc = ORA \<and> ByteVal = 0xFF then [MVI RegByte 0xFF]
     else if OpOpc = XRA \<and> ByteVal = 0x00 then []
     else [MVI A ByteVal, ALU OpOpc RegByte, MOV RegByte A])"

definition expand_LOGIC16_IMM :: "aluop \<Rightarrow> mbb_ctx \<Rightarrow> preg \<Rightarrow> int \<Rightarrow> machine_instr list" where
  "expand_LOGIC16_IMM OpOpc c DstReg Imm =
    (let LoByte = Imm mod 256; HiByte = (Imm div 256) mod 256;
         HiDead = isRegDeadAfter (after c) (succLiveIns c) (subHi DstReg)
     in emitByte OpOpc LoByte (subLo DstReg)
        @ (if \<not> HiDead then emitByte OpOpc HiByte (subHi DstReg) else []))"

section \<open>Bytes of a constant\<close>

declare word_of_int_mod_byte [simp]

lemma word_of_int_bytes: "mk16 (word_of_int (i div 256)) (word_of_int i) = word_of_int i"
  by (rule mk16_eqI) (simp_all add: lo8_word_of_int hi8_word_of_int)

section \<open>The contract of a bitwise operation\<close>

locale bytewise =
  fixes op :: aluop and f8 :: "byte \<Rightarrow> byte \<Rightarrow> byte" and f16 :: "u16 \<Rightarrow> u16 \<Rightarrow> u16"
  assumes not_CMP: "op \<noteq> CMP"
    and alu_f8: "fst (alu op a b g) = f8 a b"
    and lo_f16: "lo8 (f16 v w) = f8 (lo8 v) (lo8 w)"
    and hi_f16: "hi8 (f16 v w) = f8 (hi8 v) (hi8 w)"
    and emitByte_val: "0 \<le> i \<Longrightarrow> i < 256 \<Longrightarrow> GR8 r \<Longrightarrow> r \<noteq> A \<Longrightarrow>
      \<exists>t. run env (emitByte op i r) s = cont t \<and> r8 t r = f8 (r8 s r) (word_of_int i)
        \<and> unchanged {r, A, FLAGS} {} s t"
begin

lemma mk16_f8: "mk16 (f8 h h') (f8 l l') = f16 (mk16 h l) (mk16 h' l')"
  by (rule mk16_eqI) (simp_all add: lo_f16 hi_f16)

lemma register_form:
  assumes "GR16 Dst" "GR16 Lhs" "GR16 Rhs"
  shows "\<exists>t. run env (expand_LOGIC16 op c Dst Lhs Rhs) s = cont t
    \<and> lo8 (getP Dst t) = lo8 (f16 (getP Lhs s) (getP Rhs s))
    \<and> (isRegDeadAtMI (subHi Dst) (after c) (succLiveIns c) \<or> getP Dst t = f16 (getP Lhs s) (getP Rhs s))
    \<and> unchanged (units Dst \<union> {A, FLAGS}) {} s t"
  using assms not_CMP
  by (cases "isRegDeadAtMI (subHi Dst) (after c) (succLiveIns c)"; elim GR16_cases)
    (simp_all add: expand_LOGIC16_def exec_simps unchanged_code alu_f8 lo_f16 flip: mk16_f8)

lemma immediate_form:
  assumes "GR16 Dst"
  shows "\<exists>t. run env (expand_LOGIC16_IMM op c Dst Imm) s = cont t
    \<and> lo8 (getP Dst t) = lo8 (f16 (getP Dst s) (word_of_int Imm))
    \<and> (isRegDeadAtMI (subHi Dst) (after c) (succLiveIns c) \<or> getP Dst t = f16 (getP Dst s) (word_of_int Imm))
    \<and> unchanged (units Dst \<union> {A, FLAGS}) {} s t"
proof -
  let ?lo = "Imm mod 256" and ?hi = "(Imm div 256) mod 256"
  have regs: "GR8 (subLo Dst)" "subLo Dst \<noteq> A" "GR8 (subHi Dst)" "subHi Dst \<noteq> A" "subHi Dst \<noteq> subLo Dst"
    using assms by auto
  obtain u where u: "run env (emitByte op ?lo (subLo Dst)) s = cont u"
    "r8 u (subLo Dst) = f8 (r8 s (subLo Dst)) (word_of_int ?lo)" "unchanged {subLo Dst, A, FLAGS} {} s u"
    using emitByte_val [of ?lo "subLo Dst" env s] regs by auto
  obtain v where v: "run env (emitByte op ?hi (subHi Dst)) u = cont v"
    "r8 v (subHi Dst) = f8 (r8 u (subHi Dst)) (word_of_int ?hi)" "unchanged {subHi Dst, A, FLAGS} {} u v"
    using emitByte_val [of ?hi "subHi Dst" env u] regs by auto
  have keep: "r8 u (subHi Dst) = r8 s (subHi Dst)" "r8 v (subLo Dst) = r8 u (subLo Dst)"
    using u(3) v(3) regs by (auto simp: unchanged_def)
  have un: "unchanged (units Dst \<union> {A, FLAGS}) {} s u" "unchanged (units Dst \<union> {A, FLAGS}) {} u v"
    using u(3) v(3) assms by (auto elim!: unchanged_mono)
  then have sv: "unchanged (units Dst \<union> {A, FLAGS}) {} s v" by (rule unchanged_trans)
  have P: "getP Dst x = mk16 (r8 x (subHi Dst)) (r8 x (subLo Dst))" for x using assms by auto
  have w: "f16 (getP Dst s) (word_of_int Imm)
      = mk16 (f8 (r8 s (subHi Dst)) (word_of_int ?hi)) (f8 (r8 s (subLo Dst)) (word_of_int ?lo))"
    unfolding P mk16_f8 by (simp add: word_of_int_bytes)
  show ?thesis
    using u v keep un(1) sv unfolding w by (auto simp: P expand_LOGIC16_IMM_def Let_def run_append)
qed

end

section \<open>AND, OR and XOR meet it\<close>

lemma byte_255: "(255 :: byte) = - 1" and lo8_255: "lo8 255 = - 1"
  by (simp_all add: lo8_def)

lemma emit_generic:
  "op \<noteq> CMP \<Longrightarrow> GR8 r \<Longrightarrow> r \<noteq> A \<Longrightarrow> (\<And>a b g. fst (alu op a b g) = f8 a b) \<Longrightarrow>
    \<exists>t. run env [MVI A i, ALU op r, MOV r A] s = cont t \<and> r8 t r = f8 (word_of_int i) (r8 s r)
      \<and> unchanged {r, A, FLAGS} {} s t"
  by (simp add: exec_simps unchanged_def lo8_word_of_int)

lemma emitByte_cases:
  assumes "GR8 r" "r \<noteq> A" "op \<noteq> CMP" "\<And>a b g. fst (alu op a b g) = f8 a b" "\<And>a b. f8 a b = f8 b a"
    and "op = ANA \<Longrightarrow> f8 = (AND)" "op = ORA \<Longrightarrow> f8 = (OR)" "op = XRA \<Longrightarrow> f8 = (XOR)"
  shows "\<exists>t. run env (emitByte op i r) s = cont t \<and> r8 t r = f8 (r8 s r) (word_of_int i)
        \<and> unchanged {r, A, FLAGS} {} s t"
  using emit_generic [of op r f8 env i s] assms
  by (simp add: emitByte_def) (simp add: exec_simps unchanged_def lo8_word_of_int byte_255 lo8_255)

interpretation and16: bytewise ANA "(AND)" "(AND)"
  by unfold_locales (auto simp: Let_def lo8_and hi8_and and.commute intro!: emitByte_cases)

interpretation or16: bytewise ORA "(OR)" "(OR)"
  by unfold_locales (auto simp: Let_def lo8_or hi8_or or.commute intro!: emitByte_cases)

interpretation xor16: bytewise XRA "(XOR)" "(XOR)"
  by unfold_locales (auto simp: Let_def lo8_xor hi8_xor xor.commute intro!: emitByte_cases)

text \<open>The operation of an accumulator opcode on 16-bit words, for the three bitwise ones.\<close>

fun logic_fun :: "aluop \<Rightarrow> u16 \<Rightarrow> u16 \<Rightarrow> u16" where
  "logic_fun ANA v w = v AND w"
| "logic_fun ORA v w = v OR w"
| "logic_fun XRA v w = v XOR w"
| "logic_fun _ v w = v"

definition ctx_hl :: mbb_ctx where
  "ctx_hl = \<lparr>before = [], after = [], liveIns = [], succLiveIns = [[HL]], preds = []\<rparr>"

text \<open>
  AND16, OR16 and XOR16 compute the bitwise operation; the high byte is left out only when it
  is dead.  A and the flags are the only further registers clobbered.
\<close>

theorem expand_LOGIC16_correct:
  assumes "GR16 Dst" "GR16 Lhs" "GR16 Rhs" "logic_opc p = Some op"
  shows "\<exists>t. run env (expand_LOGIC16 op c Dst Lhs Rhs) s = cont t
    \<and> lo8 (getP Dst t) = lo8 (logic_fun op (getP Lhs s) (getP Rhs s))
    \<and> (isRegDeadAtMI (subHi Dst) (after c) (succLiveIns c)
       \<or> getP Dst t = logic_fun op (getP Lhs s) (getP Rhs s))
    \<and> unchanged (units Dst \<union> {A, FLAGS}) {} s t"
  using and16.register_form [OF assms(1-3), of env c s] or16.register_form [OF assms(1-3), of env c s]
    xor16.register_form [OF assms(1-3), of env c s] assms(4)
  by (cases p) (auto simp del: getP.simps)

theorem expand_LOGIC16_correct_witness:
  "\<forall>env s. \<exists>t. run env (expand_LOGIC16 XRA ctx_hl HL HL DE) s = cont t
    \<and> getP HL t = getP HL s XOR getP DE s"
proof (intro allI)
  fix env s
  show "\<exists>t. run env (expand_LOGIC16 XRA ctx_hl HL HL DE) s = cont t
    \<and> getP HL t = getP HL s XOR getP DE s"
    using expand_LOGIC16_correct [of HL HL DE V6CLANG_XOR16 XRA env ctx_hl s]
    by (auto simp: ctx_hl_def liveOut_def simp del: getP.simps)
qed

lemma expand_LOGIC16_IMM_run:
  assumes "GR16 Dst" "logic_imm_opc p = Some op"
  shows "\<exists>t. run env (expand_LOGIC16_IMM op c Dst Imm) s = cont t
    \<and> lo8 (getP Dst t) = lo8 (logic_fun op (getP Dst s) (word_of_int Imm))
    \<and> (isRegDeadAtMI (subHi Dst) (after c) (succLiveIns c)
       \<or> getP Dst t = logic_fun op (getP Dst s) (word_of_int Imm))
    \<and> unchanged (units Dst \<union> {A, FLAGS}) {} s t"
  using and16.immediate_form [OF assms(1), of env c Imm s] or16.immediate_form [OF assms(1), of env c Imm s]
    xor16.immediate_form [OF assms(1), of env c Imm s] assms(2)
  by (cases p) (auto simp del: getP.simps)

text \<open>
  The forms with a constant operand compute the same operation with the constant modulo
  65536, also where a byte of the constant makes an instruction sequence unnecessary.
\<close>

theorem expand_LOGIC16_IMM_correct:
  assumes "GR16 Dst" "logic_imm_opc p = Some op"
  shows "\<exists>t. run env (expand_LOGIC16_IMM op c Dst Imm) s = cont t
    \<and> lo8 (getP Dst t) = lo8 (logic_fun op (getP Dst s) (word_of_int Imm))
    \<and> (isRegDeadAtMI (subHi Dst) (after c) (succLiveIns c)
       \<or> getP Dst t = logic_fun op (getP Dst s) (word_of_int Imm))
    \<and> unchanged (units Dst \<union> {A, FLAGS}) {} s t"
  using assms by (rule expand_LOGIC16_IMM_run)

theorem expand_LOGIC16_IMM_correct_witness:
  "\<forall>env s. \<exists>t. run env (expand_LOGIC16_IMM ORA ctx_hl HL 0xFF01) s = cont t
    \<and> getP HL t = getP HL s OR 0xFF01"
proof (intro allI)
  fix env s
  show "\<exists>t. run env (expand_LOGIC16_IMM ORA ctx_hl HL 0xFF01) s = cont t
    \<and> getP HL t = getP HL s OR 0xFF01"
    using expand_LOGIC16_IMM_correct [where Dst = HL and p = V6CLANG_OR16_IMM and op = ORA
        and env = env and c = ctx_hl and Imm = "0xFF01" and s = s]
    by (auto simp: ctx_hl_def liveOut_def simp del: getP.simps)
qed

end
