(* ===== verification/ExpandCmp.thy ===== *)
theory ExpandCmp
  imports Emit ExpandLogic Branches
begin

text \<open>
  \<open>expandPostRAPseudo\<close>, fourth part: the comparisons CMP16_ZERO, CMP16_SIGN, CMP8_ZERO, CMP16 and
  CMP16_IMM and the fused compare-and-branch pseudos BR_CC16 and BR_CC16_IMM, which may split
  their block.
\<close>

section \<open>Comparisons\<close>

definition expand_CMP16_ZERO :: "preg \<Rightarrow> machine_instr list" where
  "expand_CMP16_ZERO SrcReg = [MOV A (subHi SrcReg), ALU ORA (subLo SrcReg)]"

definition expand_CMP16_SIGN :: "mbb_ctx \<Rightarrow> preg \<Rightarrow> machine_instr list" where
  "expand_CMP16_SIGN c SrcReg = [zeroA c, ALU ADD (subHi SrcReg)]"

definition expand_CMP8_ZERO :: "mbb_ctx \<Rightarrow> preg \<Rightarrow> bool \<Rightarrow> machine_instr list" where
  "expand_CMP8_ZERO c Src SrcKilled =
    (if Src = A then [ALU ORA A]
     else if isRegDeadAtMI A (after c) (succLiveIns c)
     then [zeroA c, BuildMI CMPr [addReg A, addRegKill Src SrcKilled]]
     else [BuildMI INRr [addRegDef Src, addReg Src],
           BuildMI DCRr [addRegDef Src, addRegKill Src SrcKilled]])"

definition cmp_chain :: "preg \<Rightarrow> preg \<Rightarrow> machine_instr list" where
  "cmp_chain LhsReg RhsReg =
     [MOV A (subLo LhsReg), ALU SUB (subLo RhsReg), MOV A (subHi LhsReg), ALU SBB (subHi RhsReg)]"

definition expand_CMP16 :: "preg \<Rightarrow> preg \<Rightarrow> machine_instr list" where
  "expand_CMP16 LhsReg RhsReg = cmp_chain LhsReg RhsReg"

text \<open>The low and the high byte of an immediate operand, symbols by target flag.\<close>

fun addImmLo :: "machine_operand \<Rightarrow> machine_operand option" where
  "addImmLo (MO_Immediate i) = Some (MO_Immediate (i mod 256))"
| "addImmLo (MO_GlobalAddress g off _) = Some (MO_GlobalAddress g off MO_LO8)"
| "addImmLo (MO_ExternalSymbol g _) = Some (MO_ExternalSymbol g MO_LO8)"
| "addImmLo _ = None"

fun addImmHi :: "machine_operand \<Rightarrow> machine_operand option" where
  "addImmHi (MO_Immediate i) = Some (MO_Immediate ((i div 256) mod 256))"
| "addImmHi (MO_GlobalAddress g off _) = Some (MO_GlobalAddress g off MO_HI8)"
| "addImmHi (MO_ExternalSymbol g _) = Some (MO_ExternalSymbol g MO_HI8)"
| "addImmHi _ = None"

definition imm_chain :: "preg \<Rightarrow> machine_operand \<Rightarrow> machine_instr list option" where
  "imm_chain LhsReg RhsOp = (case (addImmLo RhsOp, addImmHi RhsOp) of
     (Some lo, Some hi) \<Rightarrow> Some [BuildMI MVIr [addRegDef A, lo], ALU SUB (subLo LhsReg),
                                BuildMI MVIr [addRegDef A, hi], ALU SBB (subHi LhsReg)]
   | _ \<Rightarrow> None)"

definition expand_CMP16_IMM :: "preg \<Rightarrow> machine_operand \<Rightarrow> machine_instr list option" where
  "expand_CMP16_IMM LhsReg RhsOp = imm_chain LhsReg RhsOp"

section \<open>Compare and branch\<close>

text \<open>
  The pseudo is replaced in place, or the block is split: the block then consists of
  \<open>mainMBB\<close> with successors \<open>mainSucc\<close> and falls through to a new block \<open>hiMBB\<close> with successors
  \<open>hiSucc\<close> and live-ins \<open>hiLiveIns\<close>.
\<close>

datatype (plugins only: code size) br_expansion =
  InPlace "machine_instr list"
| Split "machine_instr list" "nat list" "machine_instr list" "nat list" "preg list"

text \<open>The fall-through block: the first successor other than the target, or the only one.\<close>

definition fallthroughMBB :: "nat \<Rightarrow> nat list \<Rightarrow> nat option" where
  "fallthroughMBB Target succs = (case find (\<lambda>b. b \<noteq> Target) succs of
     Some b \<Rightarrow> Some b
   | None \<Rightarrow> (case succs of [b] \<Rightarrow> Some b | _ \<Rightarrow> None))"

definition pop_terminators :: "machine_instr list \<Rightarrow> machine_instr list" where
  "pop_terminators ms = rev (dropWhile isTerminator (rev ms))"

definition ordering_jcc :: "int \<Rightarrow> cond option" where
  "ordering_jcc CC = (case cond_of CC of
     Some cc \<Rightarrow> if cc = COND_Z \<or> cc = COND_NZ then None else Some cc | None \<Rightarrow> None)"

text \<open>
  The equality split.  \<open>loCode\<close> and \<open>hiCode\<close> compare one byte each; NZ leaves to the target from
  both blocks, Z leaves to the fall-through from the first.
\<close>

definition split_equality ::
  "bool \<Rightarrow> machine_instr list \<Rightarrow> machine_instr list \<Rightarrow> machine_instr list \<Rightarrow> preg list
    \<Rightarrow> nat \<Rightarrow> nat \<Rightarrow> nat \<Rightarrow> br_expansion" where
  "split_equality isNE block loCode hiCode lives Target Fall CompareHi =
    (if isNE then
       Split (pop_terminators block @ loCode @ [BuildMI (Jcc COND_NZ) [addMBB Target]])
         [Target, CompareHi]
         (hiCode @ [BuildMI (Jcc COND_NZ) [addMBB Target], BuildMI JMP [addMBB Fall]])
         [Target, Fall] lives
     else
       Split (pop_terminators block @ loCode @ [BuildMI (Jcc COND_NZ) [addMBB Fall]])
         [Fall, CompareHi]
         (hiCode @ [BuildMI (Jcc COND_Z) [addMBB Target], BuildMI JMP [addMBB Fall]])
         [Target, Fall] lives)"

definition CMPi :: "preg \<Rightarrow> machine_instr" where
  "CMPi r = BuildMI CMPr [addReg A, addReg r]"

definition expand_BR_CC16 ::
  "mbb_ctx \<Rightarrow> machine_instr \<Rightarrow> nat list \<Rightarrow> nat \<Rightarrow> preg \<Rightarrow> preg \<Rightarrow> int \<Rightarrow> nat \<Rightarrow> br_expansion option"
  where
  "expand_BR_CC16 c MI succs CompareHi LhsReg RhsReg CC Target =
    (if cond_of CC = Some COND_Z \<or> cond_of CC = Some COND_NZ then
       map_option (\<lambda>Fall. split_equality (cond_of CC = Some COND_NZ) (before c @ MI # after c)
           [MOV A (subLo LhsReg), CMPi (subLo RhsReg)]
           [MOV A (subHi LhsReg), CMPi (subHi RhsReg)] [] Target Fall CompareHi)
         (fallthroughMBB Target succs)
     else map_option (\<lambda>cc. InPlace (cmp_chain LhsReg RhsReg @ [BuildMI (Jcc cc) [addMBB Target]]))
       (ordering_jcc CC))"

definition imm_zero :: "machine_operand \<Rightarrow> bool" where
  "imm_zero RhsOp = (RhsOp = MO_Immediate 0)"

definition sameLoHi :: "machine_operand \<Rightarrow> bool" where
  "sameLoHi RhsOp = (case RhsOp of MO_Immediate i \<Rightarrow> i mod 256 = (i div 256) mod 256 | _ \<Rightarrow> False)"

definition expand_BR_CC16_IMM ::
  "mbb_ctx \<Rightarrow> machine_instr \<Rightarrow> nat list \<Rightarrow> nat \<Rightarrow> preg \<Rightarrow> machine_operand \<Rightarrow> int \<Rightarrow> nat
    \<Rightarrow> br_expansion option" where
  "expand_BR_CC16_IMM c MI succs CompareHi LhsReg RhsOp CC Target = (case cond_of CC of
     None \<Rightarrow> None
   | Some cc \<Rightarrow>
     if cc = COND_PO \<or> cc = COND_PE then None
     else if imm_zero RhsOp \<and> (cc = COND_Z \<or> cc = COND_NZ) then
       Some (InPlace [MOV A (subHi LhsReg), ALU ORA (subLo LhsReg), BuildMI (Jcc cc) [addMBB Target]])
     else if cc \<noteq> COND_Z \<and> cc \<noteq> COND_NZ then
       map_option (\<lambda>code. InPlace (code @ [BuildMI (Jcc cc) [addMBB Target]])) (imm_chain LhsReg RhsOp)
     else (case (addImmLo RhsOp, addImmHi RhsOp, fallthroughMBB Target succs) of
       (Some lo, Some hi, Some Fall) \<Rightarrow>
         Some (split_equality (cc = COND_NZ) (before c @ MI # after c)
           [BuildMI MVIr [addRegDef A, lo], CMPi (subLo LhsReg)]
           ((if sameLoHi RhsOp then [] else [BuildMI MVIr [addRegDef A, hi]]) @ [CMPi (subHi LhsReg)])
           ([subHi LhsReg] @ (if sameLoHi RhsOp then [A] else [])) Target Fall CompareHi)
     | _ \<Rightarrow> None))"

section \<open>Flags of the comparisons\<close>

lemma exec_CMP [exec_simps]:
  "exec env (CMPi r) s = cont (aluA CMP (r8 s r) s)"
  by (simp add: CMPi_def exec_simps)

text \<open>Flags after a subtraction of \<open>w\<close> from \<open>v\<close> through the byte chain: those of the high byte.\<close>

definition sub_flags :: "u16 \<Rightarrow> u16 \<Rightarrow> flags \<Rightarrow> bool" where
  "sub_flags v w f = (fCY f = (v < w) \<and> fS f = bit (v - w) 15 \<and> fZ f = (hi8 (v - w) = 0)
     \<and> fP f = parity8 (hi8 (v - w)))"

lemma digits_less:
  "l < 256 \<Longrightarrow> l' < 256 \<Longrightarrow> 256 * h + l < 256 * h' + l' \<longleftrightarrow> h < h' + of_bool (l < l')" for h l h' l' :: nat
proof -
  assume "l < 256" "l' < 256"
  then have "256 * h + l < 256 * h' + l' \<longleftrightarrow> h < h' \<or> h = h' \<and> l < l'" by linarith
  also have "\<dots> \<longleftrightarrow> h < h' + of_bool (l < l')" by auto
  finally show ?thesis .
qed

lemma mk16_less: "mk16 h l < mk16 h' l' \<longleftrightarrow> unat h < unat h' + of_bool (unat l < unat l')"
  by (simp add: word_less_nat_alt unat_mk16 digits_less)

lemma sub_flags_chain:
  "sub_flags (mk16 h l) (mk16 h' l')
     (snd (alu_sub h h' (unat l < unat l')))"
proof -
  have "bit (h - h' - of_bool (unat l < unat l')) 7 = bit (mk16 h l - mk16 h' l') 15"
    using bit_hi8 [of "mk16 h l - mk16 h' l'" 7] by (simp add: hi8_sub)
  then show ?thesis
    by (simp add: sub_flags_def alu_sub_def Let_def mk16_less hi8_sub)
qed

lemma cmp_chain_flags:
  assumes "GR16 Lhs" "GR16 Rhs"
  shows "\<exists>t. run env (cmp_chain Lhs Rhs) s = cont t \<and> sub_flags (getP Lhs s) (getP Rhs s) (fl t)
    \<and> unchanged {A, FLAGS} {} s t"
  using assms sub_flags_chain sub_flags_chain [of h l h l for h l, simplified]
  by (elim GR16_cases; simp add: cmp_chain_def exec_simps unchanged_code)

text \<open>The operand without its target flag: the value the comparison is about.\<close>

fun strip :: "machine_operand \<Rightarrow> machine_operand" where
  "strip (MO_GlobalAddress g off _) = MO_GlobalAddress g off MO_NO_FLAG"
| "strip (MO_ExternalSymbol g _) = MO_ExternalSymbol g MO_NO_FLAG"
| "strip x = x"

text \<open>Immediate operands: the two byte operands split the value of the operand.\<close>

lemma lo8_ucast [simp]: "lo8 (ucast (b :: byte)) = b"
  by (rule bit_word_eqI) (auto simp: bit_lo8 bit_simps)

lemma addImm_bytes:
  assumes "addImmLo x = Some lo" "addImmHi x = Some hi" "opval env (strip x) = Some v"
  shows "ex_regs [addRegDef A, lo] = [A]" "ex_regs [addRegDef A, hi] = [A]"
    and "\<exists>p q. ex_vals env [addRegDef A, lo] = [p] \<and> ex_vals env [addRegDef A, hi] = [q]
      \<and> lo8 p = lo8 v \<and> lo8 q = hi8 v"
  using assms by (cases x; auto simp: lo8_word_of_int hi8_word_of_int)+

lemma imm_chain_flags:
  assumes "GR16 Lhs" "imm_chain Lhs x = Some ms" "opval env (strip x) = Some v"
  shows "\<exists>t. run env ms s = cont t \<and> sub_flags v (getP Lhs s) (fl t) \<and> unchanged {A, FLAGS} {} s t"
proof -
  obtain lo hi where ops: "addImmLo x = Some lo" "addImmHi x = Some hi" and
    ms: "ms = [BuildMI MVIr [addRegDef A, lo], ALU SUB (subLo Lhs),
               BuildMI MVIr [addRegDef A, hi], ALU SBB (subHi Lhs)]"
    using assms(2) by (auto simp: imm_chain_def split: option.splits)
  obtain p q where pq: "ex_vals env [addRegDef A, lo] = [p]" "ex_vals env [addRegDef A, hi] = [q]"
    "lo8 p = lo8 v" "lo8 q = hi8 v"
    using addImm_bytes(3) [OF ops assms(3)] by blast
  have "exec env (BuildMI MVIr [addRegDef A, lo]) s = cont (setR A (lo8 v) s)"
    "exec env (BuildMI MVIr [addRegDef A, hi]) s = cont (setR A (hi8 v) s)" for s
    using pq addImm_bytes(1,2) [OF ops assms(3)] by (simp_all only: exec_BuildMI step_simps)
  then show ?thesis
    using assms(1) sub_flags_chain [of "hi8 v" "lo8 v"]
    by (elim GR16_cases; simp add: ms exec_simps unchanged_code)
qed

lemma byte_zero_tests: "mk16 h l = 0 \<longleftrightarrow> h = 0 \<and> l = 0" "h OR l = 0 \<longleftrightarrow> h = 0 \<and> l = 0" for h l :: byte
  using mk16_eq_iff [of h l 0 0] by (auto simp: bit_eq_iff bit_simps)

lemma zero_test_run:
  assumes "GR16 r"
  shows "\<exists>t. run env (expand_CMP16_ZERO r) s = cont t \<and> fZ (fl t) = (getP r s = 0)
      \<and> unchanged {A, FLAGS} {} s t"
  using assms
  by (elim GR16_cases; simp add: expand_CMP16_ZERO_def exec_simps unchanged_code Let_def byte_zero_tests)

lemma same_bytes: "i mod 256 = i div 256 mod 256 \<Longrightarrow> lo8 (word_of_int i) = hi8 (word_of_int i)"
  unfolding lo8_word_of_int hi8_word_of_int using word_of_int_mod_byte by metis

text \<open>
  The zero tests set Z exactly when the value is zero, on every path, and CMP16_SIGN leaves the
  sign of the pair in S; CMP8_ZERO clobbers A only when A is dead.
\<close>

theorem expand_zero_tests_correct:
  assumes "GR16 r" "GR8 q"
  shows "\<exists>t u v. run env (expand_CMP16_ZERO r) s = cont t \<and> fZ (fl t) = (getP r s = 0)
      \<and> unchanged {A, FLAGS} {} s t
    \<and> run env (expand_CMP16_SIGN c r) s = cont u \<and> fS (fl u) = bit (getP r s) 15
      \<and> unchanged {A, FLAGS} {} s u
    \<and> run env (expand_CMP8_ZERO c q k) s = cont v \<and> fZ (fl v) = (r8 s q = 0)
      \<and> unchanged (insert FLAGS (if q \<noteq> A \<and> isRegDeadAtMI A (after c) (succLiveIns c) then {A} else {})) {} s v"
proof -
  note zero_test_run [OF assms(1), of env s]
  moreover have "\<exists>u. run env (expand_CMP16_SIGN c r) s = cont u \<and> fS (fl u) = bit (getP r s) 15
      \<and> unchanged {A, FLAGS} {} s u"
    using assms(1) by (elim GR16_cases;
      simp add: expand_CMP16_SIGN_def exec_simps unchanged_code alu_add_def Let_def bit_mk16)
  moreover have "\<exists>v. run env (expand_CMP8_ZERO c q k) s = cont v \<and> fZ (fl v) = (r8 s q = 0)
      \<and> unchanged (insert FLAGS (if q \<noteq> A \<and> isRegDeadAtMI A (after c) (succLiveIns c) then {A} else {})) {} s v"
    using assms(2) by (auto simp: expand_CMP8_ZERO_def exec_simps unchanged_def alu_inr_def alu_dcr_def
      alu_sub_def Let_def)
  ultimately show ?thesis by blast
qed

theorem expand_zero_tests_correct_witness:
  "\<forall>env s. \<exists>t. run env (expand_CMP16_ZERO DE) s = cont t \<and> fZ (fl t) = (getP DE s = 0)"
proof (intro allI)
  fix env s
  show "\<exists>t. run env (expand_CMP16_ZERO DE) s = cont t \<and> fZ (fl t) = (getP DE s = 0)"
    using expand_zero_tests_correct [of DE A env s ctx_hl False] by (auto simp del: getP.simps)
qed

text \<open>
  Where A is dead and the source is another register, CMP8_ZERO compares 0 with the source:
  S is then the sign of the negated value, so a signed test against zero reads it wrongly.
\<close>

theorem expand_CMP8_ZERO_sign_wrong:
  "\<exists>t u. run env (expand_CMP8_ZERO ctx_hl B k) (setR B 1 s) = cont t \<and> fS (fl t)
    \<and> run env (expand_CMP8_ZERO ctx_hl A k) (setR A 1 s) = cont u \<and> \<not> fS (fl u)"
  by (simp add: expand_CMP8_ZERO_def ctx_hl_def liveOut_def exec_simps alu_sub_def Let_def)

text \<open>
  C33.  CMP16 and CMP16_IMM leave the carry of the whole 16-bit subtraction, and S, Z and P of its
  high byte; the immediate form subtracts the register from the constant.
\<close>

theorem expand_CMP16_correct:
  assumes "GR16 Lhs" "GR16 Rhs" "expand_CMP16_IMM Lhs x = Some ms" "opval env (strip x) = Some v"
  shows "\<exists>t u. run env (expand_CMP16 Lhs Rhs) s = cont t \<and> sub_flags (getP Lhs s) (getP Rhs s) (fl t)
      \<and> unchanged {A, FLAGS} {} s t
    \<and> run env ms s = cont u \<and> sub_flags v (getP Lhs s) (fl u) \<and> unchanged {A, FLAGS} {} s u"
  using cmp_chain_flags [OF assms(1,2), of env s] imm_chain_flags [OF assms(1) _ assms(4), of ms s] assms(3)
  by (auto simp: expand_CMP16_def expand_CMP16_IMM_def simp del: getP.simps)

theorem expand_CMP16_correct_witness:
  "\<forall>env s. \<exists>t. run env (expand_CMP16 HL BC) s = cont t \<and> fCY (fl t) = (getP HL s < getP BC s)"
proof (intro allI)
  fix env s
  obtain ms where "expand_CMP16_IMM HL (MO_GlobalAddress ''g'' 2 MO_NO_FLAG) = Some ms"
    by (simp add: expand_CMP16_IMM_def imm_chain_def)
  from expand_CMP16_correct [OF _ _ this, of BC env _ s]
  show "\<exists>t. run env (expand_CMP16 HL BC) s = cont t \<and> fCY (fl t) = (getP HL s < getP BC s)"
    by (auto simp: sub_flags_def simp del: getP.simps)
qed

section \<open>Branches\<close>

fun cc16_holds :: "cond \<Rightarrow> u16 \<Rightarrow> u16 \<Rightarrow> bool" where
  "cc16_holds COND_Z v w = (v = w)"
| "cc16_holds COND_NZ v w = (v \<noteq> w)"
| "cc16_holds COND_C v w = (v < w)"
| "cc16_holds COND_NC v w = (\<not> v < w)"
| "cc16_holds COND_M v w = bit (v - w) 15"
| "cc16_holds COND_P v w = (\<not> bit (v - w) 15)"
| "cc16_holds COND_PE v w = parity8 (hi8 (v - w))"
| "cc16_holds COND_PO v w = (\<not> parity8 (hi8 (v - w)))"

text \<open>Running the replaced block: in place it ends with the emitted code, split it falls through.\<close>

fun run_br :: "senv \<Rightarrow> mbb_ctx \<Rightarrow> br_expansion \<Rightarrow> cpu \<Rightarrow> (ctl \<times> cpu) option" where
  "run_br env c (InPlace code) s = run env (before c @ code) s"
| "run_br env c (Split main ms hi hs ls) s = (case run env main s of
     Some (Next, t) \<Rightarrow> run env hi t | r \<Rightarrow> r)"

fun fall_ctl :: "nat \<Rightarrow> nat list \<Rightarrow> br_expansion \<Rightarrow> ctl" where
  "fall_ctl Target succs (InPlace _) = Next"
| "fall_ctl Target succs (Split _ _ _ _ _) = Goto (the (fallthroughMBB Target succs))"

lemma ordering_exit:
  "ordering_jcc CC = Some cc \<Longrightarrow> sub_flags v w f \<Longrightarrow> cond_holds cc f = cc16_holds cc v w"
  "cc \<noteq> COND_Z \<Longrightarrow> cc \<noteq> COND_NZ \<Longrightarrow> sub_flags v w f \<Longrightarrow> cond_holds cc f = cc16_holds cc v w"
  by (cases cc; auto simp: ordering_jcc_def sub_flags_def split: option.splits if_splits)+

text \<open>What the two comparison blocks of a split establish, one byte each.\<close>

lemma run_split_equality:
  assumes "run env (before c) s0 = cont s" "pop_terminators blk = before c"
    and "\<exists>t. run env lo s = cont t \<and> fZ (fl t) = pl \<and> unchanged {A, FLAGS} {} s t
      \<and> (\<exists>u. run env hi t = cont u \<and> fZ (fl u) = ph \<and> unchanged {A, FLAGS} {} s u)"
  shows "\<exists>t. run_br env c (split_equality ne blk lo hi ls Target Fall h) s0
      = Some (if (pl \<and> ph) \<noteq> ne then Goto Target else Goto Fall, t) \<and> unchanged {A, FLAGS} {} s t"
proof -
  obtain t u where t: "run env lo s = cont t" "fZ (fl t) = pl" "unchanged {A, FLAGS} {} s t"
    and u: "run env hi t = cont u" "fZ (fl u) = ph" "unchanged {A, FLAGS} {} s u"
    using assms(3) by blast
  show ?thesis
    using t u assms(1,2)
    by (cases ne; cases pl) (auto simp: split_equality_def run_append exec_simps)
qed

text \<open>The ordering conditions: SUB, SBB and one branch in place.\<close>

lemma run_ordering:
  assumes "expand_BR_CC16 c MI succs h Lhs Rhs CC Target = Some e" "cond_of CC = Some cc" "cc \<noteq> COND_Z" "cc \<noteq> COND_NZ"
    and "GR16 Lhs" "GR16 Rhs" "run env (before c) s0 = cont s"
  shows "\<exists>t. run_br env c e s0 = Some (if cc16_holds cc (getP Lhs s) (getP Rhs s) then Goto Target else Next, t)
    \<and> fall_ctl Target succs e = Next \<and> unchanged {A, FLAGS} {} s t"
proof -
  obtain cc' where cc': "ordering_jcc CC = Some cc'" and
    e: "e = InPlace (cmp_chain Lhs Rhs @ [BuildMI (Jcc cc') [addMBB Target]])"
    using assms(1-4) by (auto simp: expand_BR_CC16_def)
  then have "cc' = cc" using assms(2) by (auto simp: ordering_jcc_def split: if_splits)
  obtain t where "run env (cmp_chain Lhs Rhs) s = cont t" "sub_flags (getP Lhs s) (getP Rhs s) (fl t)"
    "unchanged {A, FLAGS} {} s t"
    using cmp_chain_flags [OF assms(5,6)] by blast
  then show ?thesis
    using assms(7) ordering_exit(1) [OF cc'] \<open>cc' = cc\<close>
    by (auto simp: e run_append exec_simps simp del: getP.simps)
qed

text \<open>
  C6.  BR_CC16 leaves the block exactly as the condition on the two pairs says, for all eight
  conditions, in place or through the split block; only A and the flags are clobbered.
\<close>

theorem expand_BR_CC16_correct:
  assumes "expand_BR_CC16 c MI succs h Lhs Rhs CC Target = Some e" "cond_of CC = Some cc"
    and "GR16 Lhs" "GR16 Rhs"
    and "run env (before c) s0 = cont s" "pop_terminators (before c @ MI # after c) = before c"
  shows "\<exists>t. run_br env c e s0 = Some (if cc16_holds cc (getP Lhs s) (getP Rhs s) then Goto Target
      else fall_ctl Target succs e, t) \<and> unchanged {A, FLAGS} {} s t"
proof (cases "cc = COND_Z \<or> cc = COND_NZ")
  case True
  then obtain Fall where F: "fallthroughMBB Target succs = Some Fall"
    and e: "e = split_equality (cc = COND_NZ) (before c @ MI # after c)
      [MOV A (subLo Lhs), CMPi (subLo Rhs)] [MOV A (subHi Lhs), CMPi (subHi Rhs)] [] Target Fall h"
    using assms(1,2) by (auto simp: expand_BR_CC16_def split: if_splits)
  have eq: "mk16 a b = mk16 a' b' \<longleftrightarrow> b = b' \<and> a = a'" for a b a' b' by auto
  let ?pl = "r8 s (subLo Lhs) = r8 s (subLo Rhs)" and ?ph = "r8 s (subHi Lhs) = r8 s (subHi Rhs)"
  have "\<exists>t. run env [MOV A (subLo Lhs), CMPi (subLo Rhs)] s = cont t \<and> fZ (fl t) = ?pl
      \<and> unchanged {A, FLAGS} {} s t
      \<and> (\<exists>u. run env [MOV A (subHi Lhs), CMPi (subHi Rhs)] t = cont u \<and> fZ (fl u) = ?ph
        \<and> unchanged {A, FLAGS} {} s u)"
    using assms(3,4) by (elim GR16_cases; simp add: exec_simps unchanged_code alu_sub_def Let_def)
  from run_split_equality [OF assms(5,6) this]
  have "\<exists>t. run_br env c e s0 = Some (if (?pl \<and> ?ph) \<noteq> (cc = COND_NZ) then Goto Target else Goto Fall, t)
    \<and> unchanged {A, FLAGS} {} s t" unfolding e .
  moreover have "(?pl \<and> ?ph) = (getP Lhs s = getP Rhs s)"
    using assms(3,4) by (elim GR16_cases) auto
  moreover have "fall_ctl Target succs e = Goto Fall" using F by (auto simp: e split_equality_def)
  ultimately show ?thesis using True by (auto simp del: getP.simps)
next
  case False
  then show ?thesis using run_ordering [OF assms(1,2) _ _ assms(3-5)] by auto
qed

lemma pop_terminators_open:
  "list_all isTerminator ts \<Longrightarrow> ms = [] \<or> \<not> isTerminator (last ms) \<Longrightarrow> pop_terminators (ms @ ts) = ms"
  by (induction ts rule: rev_induct; cases ms rule: rev_cases) (auto simp: pop_terminators_def)

theorem expand_BR_CC16_correct_witness:
  "\<forall>env s. \<exists>e t. expand_BR_CC16 ctx_hl (BuildMI (PSEUDO V6CLANG_BR_CC16) []) [4, 5] 9 HL DE 1 4 = Some e
    \<and> run_br env ctx_hl e s = Some (if getP HL s = getP DE s then Goto 4 else Goto 5, t)"
proof (intro allI)
  fix env s
  let ?mi = "BuildMI (PSEUDO V6CLANG_BR_CC16) []"
  have cc: "cond_of 1 = Some COND_Z" by (simp add: cond_of_def)
  obtain e where e: "expand_BR_CC16 ctx_hl ?mi [4, 5] 9 HL DE 1 4 = Some e"
    and f: "fall_ctl 4 [4, 5] e = Goto 5"
    using cc by (simp add: expand_BR_CC16_def fallthroughMBB_def split_equality_def)
  have "pop_terminators (before ctx_hl @ ?mi # after ctx_hl) = before ctx_hl"
    by (simp add: ctx_hl_def pop_terminators_def)
  then have "\<exists>t. run_br env ctx_hl e s = Some (if cc16_holds COND_Z (getP HL s) (getP DE s) then Goto 4
      else fall_ctl 4 [4, 5] e, t) \<and> unchanged {A, FLAGS} {} s t"
    using expand_BR_CC16_correct [OF e cc _ _ _ , of env s s] by (simp add: ctx_hl_def)
  then show "\<exists>e t. expand_BR_CC16 ctx_hl ?mi [4, 5] 9 HL DE 1 4 = Some e
    \<and> run_br env ctx_hl e s = Some (if getP HL s = getP DE s then Goto 4 else Goto 5, t)"
    using e f by (auto simp del: getP.simps run_br.simps)
qed

text \<open>
  C32.  BR_CC16_IMM branches on the constant compared with the pair, also by the zero test and when
  both bytes of the constant are equal and the second load is left out.
\<close>

theorem expand_BR_CC16_IMM_correct:
  assumes "expand_BR_CC16_IMM c MI succs h Lhs x CC Target = Some e" "cond_of CC = Some cc"
    and "GR16 Lhs" "opval env (strip x) = Some v"
    and "run env (before c) s0 = cont s" "pop_terminators (before c @ MI # after c) = before c"
  shows "\<exists>t. run_br env c e s0 = Some (if cc16_holds cc v (getP Lhs s) then Goto Target
      else fall_ctl Target succs e, t) \<and> unchanged {A, FLAGS} {} s t"
proof -
  have conds: "cc \<noteq> COND_PO" "cc \<noteq> COND_PE"
    using assms(1,2) by (auto simp: expand_BR_CC16_IMM_def)
  consider (zero) "imm_zero x" "cc = COND_Z \<or> cc = COND_NZ"
    | (order) "cc \<noteq> COND_Z" "cc \<noteq> COND_NZ" | (eq) "\<not> imm_zero x" "cc = COND_Z \<or> cc = COND_NZ"
    by blast
  then show ?thesis
  proof cases
    case zero
    then have e: "e = InPlace (expand_CMP16_ZERO Lhs @ [BuildMI (Jcc cc) [addMBB Target]])"
      using assms(1,2) conds by (simp add: expand_BR_CC16_IMM_def expand_CMP16_ZERO_def)
    have v: "v = 0" using zero(1) assms(4) by (simp add: imm_zero_def)
    obtain t where "run env (expand_CMP16_ZERO Lhs) s = cont t" "fZ (fl t) = (getP Lhs s = 0)"
      "unchanged {A, FLAGS} {} s t"
      using zero_test_run [OF assms(3)] by blast
    then show ?thesis
      using zero(2) assms(5) v by (auto simp: e run_append exec_simps simp del: getP.simps)
  next
    case order
    then obtain code where code: "imm_chain Lhs x = Some code"
      and e: "e = InPlace (code @ [BuildMI (Jcc cc) [addMBB Target]])"
      using assms(1,2) conds by (auto simp: expand_BR_CC16_IMM_def)
    obtain t where t: "run env code s = cont t" "sub_flags v (getP Lhs s) (fl t)" "unchanged {A, FLAGS} {} s t"
      using imm_chain_flags [OF assms(3) code assms(4)] by blast
    then show ?thesis
      using assms(5) ordering_exit(2) [OF order t(2)]
      by (auto simp: e run_append exec_simps simp del: getP.simps)
  next
    case eq
    then obtain lo hi Fall where ops: "addImmLo x = Some lo" "addImmHi x = Some hi"
      and F: "fallthroughMBB Target succs = Some Fall"
      and e: "e = split_equality (cc = COND_NZ) (before c @ MI # after c)
           [BuildMI MVIr [addRegDef A, lo], CMPi (subLo Lhs)]
           ((if sameLoHi x then [] else [BuildMI MVIr [addRegDef A, hi]]) @ [CMPi (subHi Lhs)])
           ([subHi Lhs] @ (if sameLoHi x then [A] else [])) Target Fall h"
      using assms(1,2) conds by (auto simp: expand_BR_CC16_IMM_def split: option.splits)
    obtain p q where pq: "ex_vals env [addRegDef A, lo] = [p]" "ex_vals env [addRegDef A, hi] = [q]"
      "lo8 p = lo8 v" "lo8 q = hi8 v"
      using addImm_bytes(3) [OF ops assms(4)] by blast
    have mvi: "exec env (BuildMI MVIr [addRegDef A, lo]) s = cont (setR A (lo8 v) s)"
      "exec env (BuildMI MVIr [addRegDef A, hi]) s = cont (setR A (hi8 v) s)" for s
      using pq addImm_bytes(1,2) [OF ops assms(4)] by (simp_all only: exec_BuildMI step_simps)
    have same: "sameLoHi x \<Longrightarrow> lo8 v = hi8 v"
      using assms(4) same_bytes by (cases x) (auto simp: sameLoHi_def)
    let ?pl = "lo8 v = r8 s (subLo Lhs)" and ?ph = "hi8 v = r8 s (subHi Lhs)"
    have "\<exists>t. run env [BuildMI MVIr [addRegDef A, lo], CMPi (subLo Lhs)] s = cont t \<and> fZ (fl t) = ?pl
        \<and> unchanged {A, FLAGS} {} s t
        \<and> (\<exists>u. run env ((if sameLoHi x then [] else [BuildMI MVIr [addRegDef A, hi]]) @ [CMPi (subHi Lhs)]) t
            = cont u \<and> fZ (fl u) = ?ph \<and> unchanged {A, FLAGS} {} s u)"
      using assms(3) same
      by (cases "sameLoHi x"; elim GR16_cases; simp add: mvi exec_CMP exec_shapes unchanged_code alu_sub_def Let_def)
    from run_split_equality [OF assms(5,6) this]
    have "\<exists>t. run_br env c e s0 = Some (if (?pl \<and> ?ph) \<noteq> (cc = COND_NZ) then Goto Target else Goto Fall, t)
      \<and> unchanged {A, FLAGS} {} s t" unfolding e .
    moreover have "(?pl \<and> ?ph) = (v = getP Lhs s)"
      using assms(3) by (elim GR16_cases) (auto intro: mk16_eqI)
    moreover have "fall_ctl Target succs e = Goto Fall" using F by (auto simp: e split_equality_def)
    ultimately show ?thesis using eq(2) by (auto simp del: getP.simps)
  qed
qed

theorem expand_BR_CC16_IMM_correct_witness:
  "\<forall>env s. \<exists>e t. expand_BR_CC16_IMM ctx_hl (BuildMI (PSEUDO V6CLANG_BR_CC16_IMM) []) [4, 5] 9 DE
      (MO_Immediate 300) 3 4 = Some e
    \<and> run_br env ctx_hl e s = Some (if 300 < getP DE s then Goto 4 else Next, t)"
proof (intro allI)
  fix env s
  let ?mi = "BuildMI (PSEUDO V6CLANG_BR_CC16_IMM) []" and ?x = "MO_Immediate 300"
  have cc: "cond_of 3 = Some COND_C" by (simp add: cond_of_def)
  obtain e where e: "expand_BR_CC16_IMM ctx_hl ?mi [4, 5] 9 DE ?x 3 4 = Some e"
    and f: "fall_ctl 4 [4, 5] e = Next"
    using cc by (simp add: expand_BR_CC16_IMM_def imm_zero_def imm_chain_def)
  have "pop_terminators (before ctx_hl @ ?mi # after ctx_hl) = before ctx_hl"
    by (simp add: ctx_hl_def pop_terminators_def)
  then have "\<exists>t. run_br env ctx_hl e s = Some (if cc16_holds COND_C 300 (getP DE s) then Goto 4
      else fall_ctl 4 [4, 5] e, t) \<and> unchanged {A, FLAGS} {} s t"
    using expand_BR_CC16_IMM_correct [OF e cc, of env 300 s s] by (simp add: ctx_hl_def)
  then show "\<exists>e t. expand_BR_CC16_IMM ctx_hl ?mi [4, 5] 9 DE ?x 3 4 = Some e
    \<and> run_br env ctx_hl e s = Some (if 300 < getP DE s then Goto 4 else Next, t)"
    using e f by (auto simp del: getP.simps run_br.simps)
qed

section \<open>Signed comparison\<close>

lemma sign_bit: "bit (w :: u16) 15 \<longleftrightarrow> sint w < 0"
  using bit_last_iff [of w] by simp

lemma sint_sub16: "sint (v - w :: u16) = (sint v - sint w + 32768) mod 65536 - 32768"
  by (simp add: sint_word_ariths signed_take_bit_eq_take_bit_shift take_bit_eq_mod)

lemma sint_range16: "- 32768 \<le> sint (x :: u16)" "sint (x :: u16) < 32768"
  using sint_ge [of x] sint_lt [of x] by simp_all

lemma mod_wrap:
  fixes d :: int
  assumes "- 65536 < d" "d < 65536"
  shows "(d + 32768) mod 65536
    = (if d < - 32768 then d + 98304 else if d < 32768 then d + 32768 else d - 32768)"
  using assms mod_add_self2 [of "d + 32768" 65536] mod_add_self2 [of "d - 32768" 65536]
    mod_pos_pos_trivial [of "d + 98304" 65536] mod_pos_pos_trivial [of "d - 32768" 65536]
  by (auto simp: add.commute)

lemma sign_of_difference:
  "(bit (v - w :: u16) 15 = (sint v < sint w)) = (sint v - sint w \<in> {- 32768..32767})"
proof -
  define d where "d = sint v - sint w"
  have d: "- 65536 < d" "d < 65536" using sint_range16 [of v] sint_range16 [of w] by (simp_all add: d_def)
  have "sint (v - w) = (if d < - 32768 then d + 65536 else if d < 32768 then d else d - 65536)"
    unfolding sint_sub16 d_def [symmetric] mod_wrap [OF d] by simp
  then show ?thesis using d by (auto simp: sign_bit d_def)
qed

text \<open>
  C34.  BR_CC16 with the condition M, to which signed less-than is lowered, or P, for greater-or-equal,
  branches on the sign of the difference: it decides the signed comparison of the two pairs exactly when
  their difference is a 16-bit signed number.
\<close>

theorem expand_BR_CC16_signed_exact:
  assumes "expand_BR_CC16 c MI succs h Lhs Rhs CC Target = Some e" "cond_of CC = Some cc" "cc = COND_M \<or> cc = COND_P"
    and "GR16 Lhs" "GR16 Rhs" "run env (before c) s0 = cont s"
  shows "\<exists>x t. run_br env c e s0 = Some (x, t) \<and> unchanged {A, FLAGS} {} s t \<and> (x = Goto Target \<or> x = Next) \<and>
    ((x = Goto Target \<longleftrightarrow> (if cc = COND_M then sint (getP Lhs s) < sint (getP Rhs s) else sint (getP Rhs s) \<le> sint (getP Lhs s)))
      \<longleftrightarrow> sint (getP Lhs s) - sint (getP Rhs s) \<in> {- 32768..32767})"
proof -
  obtain t where t: "run_br env c e s0 = Some (if cc16_holds cc (getP Lhs s) (getP Rhs s) then Goto Target else Next, t)"
    "unchanged {A, FLAGS} {} s t"
    using run_ordering [OF assms(1,2) _ _ assms(4-6)] assms(3) by auto
  have iff: "cc16_holds cc v w = (if cc = COND_M then bit (v - w) 15 else \<not> bit (v - w) 15)" for v w
    using assms(3) by auto
  show ?thesis
    using t assms(3) unfolding sign_of_difference [symmetric] iff
    by (intro exI conjI) (auto simp del: getP.simps split: if_splits)
qed

text \<open>100 is less than 200, and 200 is not less than 100.\<close>

theorem expand_BR_CC16_signed_exact_witness:
  "\<exists>e. expand_BR_CC16 ctx_hl (BuildMI (PSEUDO V6CLANG_BR_CC16) []) [4, 5] 9 HL DE 7 4 = Some e \<and>
    (\<forall>env s. \<exists>t. run_br env ctx_hl e (setP HL 100 (setP DE 200 s)) = Some (Goto 4, t)) \<and>
    (\<forall>env s. \<exists>t. run_br env ctx_hl e (setP HL 200 (setP DE 100 s)) = Some (Next, t))"
proof -
  let ?mi = "BuildMI (PSEUDO V6CLANG_BR_CC16) []"
  have cc: "ordering_jcc 7 = Some COND_M" "cond_of 7 = Some COND_M"
    by (simp_all add: ordering_jcc_def cond_of_def)
  then obtain e where e: "expand_BR_CC16 ctx_hl ?mi [4, 5] 9 HL DE 7 4 = Some e"
    by (simp add: expand_BR_CC16_def)
  have run: "run env (before ctx_hl) s = cont s" for env s by (simp add: ctx_hl_def)
  have vals: "sint (100 :: u16) = 100" "sint (200 :: u16) = 200" by simp_all
  have 1: "\<exists>t. run_br env ctx_hl e (setP HL 100 (setP DE 200 s)) = Some (Goto 4, t)" for env s
    using expand_BR_CC16_signed_exact [OF e cc(2) _ _ _ run, of env "setP HL 100 (setP DE 200 s)"] vals by auto
  have 2: "\<exists>t. run_br env ctx_hl e (setP HL 200 (setP DE 100 s)) = Some (Next, t)" for env s
    using expand_BR_CC16_signed_exact [OF e cc(2) _ _ _ run, of env "setP HL 200 (setP DE 100 s)"] vals by auto
  show ?thesis using e 1 2 by blast
qed

text \<open>
  C35.  The branch for a signed less-than therefore goes wrong on overflow: with 32767 and -1 in
  the pairs BR_CC16 takes the branch of "less than".
\<close>

theorem expand_BR_CC16_signed_overflow:
  "\<exists>e t. expand_BR_CC16 ctx_hl MI [4, 5] 9 HL DE 7 4 = Some e
    \<and> run_br env ctx_hl e (setP HL 0x7FFF (setP DE 0xFFFF s)) = Some (Goto 4, t)
    \<and> \<not> sint (0x7FFF :: u16) < sint (0xFFFF :: u16)"
proof -
  let ?s = "setP HL 0x7FFF (setP DE 0xFFFF s)"
  have cc: "ordering_jcc 7 = Some COND_M" "cond_of 7 = Some COND_M"
    by (simp_all add: ordering_jcc_def cond_of_def)
  then have e: "expand_BR_CC16 ctx_hl MI [4, 5] 9 HL DE 7 4
      = Some (InPlace (cmp_chain HL DE @ [BuildMI (Jcc COND_M) [addMBB 4]]))"
    by (simp add: expand_BR_CC16_def)
  obtain t where t: "run env (cmp_chain HL DE) ?s = cont t" "sub_flags (getP HL ?s) (getP DE ?s) (fl t)"
    using cmp_chain_flags [of HL DE env ?s] by auto
  have vals: "getP HL ?s = 0x7FFF" "getP DE ?s = 0xFFFF" by simp_all
  have "(0x7FFF :: u16) - 0xFFFF = 0x8000" by simp
  then have "bit ((0x7FFF :: u16) - 0xFFFF) 15" by (simp add: bit_iff_odd)
  then have "fS (fl t)" using t(2) unfolding vals sub_flags_def by simp
  then have "run_br env ctx_hl (InPlace (cmp_chain HL DE @ [BuildMI (Jcc COND_M) [addMBB 4]])) ?s = Some (Goto 4, t)"
    using t(1) by (simp add: ctx_hl_def run_append exec_simps del: setP.simps)
  then show ?thesis using e by auto
qed

text \<open>
  The equality split gives the new block no live-ins of its own: a register that is live only
  into the fall-through counts as dead at the end of the first block although the second block
  leads there.
\<close>

theorem expand_BR_CC16_split_loses_liveness:
  "\<exists>main ms hi hs ls. expand_BR_CC16 ctx_hl MI [4, 5] 9 HL DE 0 4 = Some (Split main ms hi hs ls)
    \<and> ms = [4, 9] \<and> hs = [4, 5] \<and> ls = []
    \<and> liveOut B [[A], [B]]
    \<and> \<not> liveOut B (map (\<lambda>b. if b = 4 then [A] else if b = 5 then [B] else ls) ms)"
  by (simp add: expand_BR_CC16_def cond_of_def fallthroughMBB_def split_equality_def liveOut_def)

end
