(* ===== verification/ExpandShift.thy ===== *)
theory ExpandShift
  imports ExpandAdd ExpandLogic
begin

text \<open>
  \<open>expandPostRAPseudo\<close>, fifth part: the 16-bit shifts by constants and the rotation by one.  The
  shift amount is the unsigned immediate of the pseudo.
\<close>

section \<open>The expansions\<close>

definition ROTi :: "opcode \<Rightarrow> machine_instr" where
  "ROTi opc = BuildMI opc [addRegDef A, addReg A]"

definition ANIi :: "int \<Rightarrow> machine_instr" where
  "ANIi i = BuildMI ANI [addRegDef A, addReg A, addImm i]"

definition expand_SHL16_DAD :: "mbb_ctx \<Rightarrow> preg \<Rightarrow> preg \<Rightarrow> nat \<Rightarrow> machine_instr list" where
  "expand_SHL16_DAD c DstReg SrcReg ShAmt =
    (if DstReg = DE \<and> SrcReg = DE then [XCHGi] @ replicate ShAmt (DADi HL) @ [XCHGi]
     else dad_around (DstReg \<noteq> HL \<and> \<not> HLDead c) SrcReg DstReg (replicate ShAmt (DADi HL)))"

definition expand_SHL16_BYTE :: "preg \<Rightarrow> preg \<Rightarrow> machine_instr list" where
  "expand_SHL16_BYTE DstReg SrcReg =
     (if subHi DstReg \<noteq> subLo SrcReg then [MOV (subHi DstReg) (subLo SrcReg)] else [])
     @ [MVI (subLo DstReg) 0]"

definition expand_SHL16_RAM_HI :: "preg \<Rightarrow> preg \<Rightarrow> nat \<Rightarrow> machine_instr list" where
  "expand_SHL16_RAM_HI DstReg SrcReg ShAmt =
    (let TailAmt = ShAmt - 8
     in if 6 \<le> TailAmt then
          [MOV A (subLo SrcReg)] @ replicate (16 - ShAmt) (ROTi RRC)
          @ [ANIi (if ShAmt = 14 then 0xC0 else 0x80), MVI (subLo DstReg) 0, MOV (subHi DstReg) A]
        else
          [MOV A (subLo SrcReg)] @ replicate TailAmt (ALU ADD A)
          @ [MVI (subLo DstReg) 0, MOV (subHi DstReg) A])"

definition copy_halves :: "preg \<Rightarrow> preg \<Rightarrow> machine_instr list" where
  "copy_halves DstReg SrcReg = (if DstReg \<noteq> SrcReg
     then [MOV (subHi DstReg) (subHi SrcReg), MOV (subLo DstReg) (subLo SrcReg)] else [])"

fun srl_steps :: "bool \<Rightarrow> preg \<Rightarrow> nat \<Rightarrow> machine_instr list" where
  "srl_steps CYClear DstReg 0 = []"
| "srl_steps CYClear DstReg (Suc n) =
     [MOV A (subHi DstReg)] @ (if \<not> CYClear then [ALU ORA A] else [])
     @ [ROTi RAR, MOV (subHi DstReg) A, MOV A (subLo DstReg), ROTi RAR, MOV (subLo DstReg) A]
     @ srl_steps False DstReg n"

definition expand_SRL16_RAR :: "mbb_ctx \<Rightarrow> preg \<Rightarrow> preg \<Rightarrow> nat \<Rightarrow> machine_instr list" where
  "expand_SRL16_RAR c DstReg SrcReg ShAmt = copy_halves DstReg SrcReg
     @ srl_steps (priorClearsCarry (before c @ copy_halves DstReg SrcReg)) DstReg ShAmt"

text \<open>The loop of the 24-bit trick: A:HL is shifted left, eight minus the amount times.\<close>

definition loop24 :: "nat \<Rightarrow> machine_instr list" where
  "loop24 n = concat (replicate n [DADi HL, ALU ADC A])"

definition shift24 :: "mbb_ctx \<Rightarrow> preg \<Rightarrow> preg \<Rightarrow> machine_instr list \<Rightarrow> nat \<Rightarrow> machine_instr list" where
  "shift24 c DstReg SrcReg seed ShAmt =
    (let body = seed @ loop24 (8 - ShAmt) @ [MOV L H, MOV H A]
     in if DstReg = DE \<and> SrcReg = DE then [XCHGi] @ body @ [XCHGi]
        else dad_around (DstReg \<noteq> HL \<and> \<not> HLDead c) SrcReg DstReg body)"

definition expand_SRL16_24BIT :: "mbb_ctx \<Rightarrow> preg \<Rightarrow> preg \<Rightarrow> nat \<Rightarrow> machine_instr list" where
  "expand_SRL16_24BIT c DstReg SrcReg ShAmt = shift24 c DstReg SrcReg [ALU XRA A] ShAmt"

definition expand_SRL16_BYTE :: "preg \<Rightarrow> preg \<Rightarrow> machine_instr list" where
  "expand_SRL16_BYTE DstReg SrcReg =
     (if subLo DstReg \<noteq> subHi SrcReg then [MOV (subLo DstReg) (subHi SrcReg)] else [])
     @ [MVI (subHi DstReg) 0]"

text \<open>Rotate A right by the tail amount, the shorter way round.\<close>

definition rotate_tail :: "nat \<Rightarrow> machine_instr list" where
  "rotate_tail TailAmt = (if TailAmt \<le> 4 then replicate TailAmt (ROTi RRC)
                          else replicate (8 - TailAmt) (ROTi RLC))"

definition expand_SRL16_RAM_LO :: "preg \<Rightarrow> preg \<Rightarrow> nat \<Rightarrow> machine_instr list" where
  "expand_SRL16_RAM_LO DstReg SrcReg ShAmt =
     [MOV A (subHi SrcReg)] @ rotate_tail (ShAmt - 8)
     @ [ANIi (2 ^ (16 - ShAmt) - 1), MOV (subLo DstReg) A, MVI (subHi DstReg) 0]"

fun sra_steps :: "preg \<Rightarrow> nat \<Rightarrow> machine_instr list" where
  "sra_steps DstReg 0 = []"
| "sra_steps DstReg (Suc n) =
     [MOV A (subHi DstReg), ROTi RLC, MOV A (subHi DstReg), ROTi RAR, MOV (subHi DstReg) A,
      MOV A (subLo DstReg), ROTi RAR, MOV (subLo DstReg) A] @ sra_steps DstReg n"

definition expand_SRA16_RAR :: "preg \<Rightarrow> preg \<Rightarrow> nat \<Rightarrow> machine_instr list" where
  "expand_SRA16_RAR DstReg SrcReg ShAmt = copy_halves DstReg SrcReg @ sra_steps DstReg ShAmt"

definition expand_SRA16_24BIT :: "mbb_ctx \<Rightarrow> preg \<Rightarrow> preg \<Rightarrow> nat \<Rightarrow> machine_instr list" where
  "expand_SRA16_24BIT c DstReg SrcReg ShAmt =
     shift24 c DstReg SrcReg [MOV A H, ROTi RLC, ALU SBB A] ShAmt"

definition expand_SRA16_BYTE :: "preg \<Rightarrow> preg \<Rightarrow> machine_instr list" where
  "expand_SRA16_BYTE DstReg SrcReg =
     [MOV A (subHi SrcReg)]
     @ (if subLo DstReg \<noteq> subHi SrcReg then [MOV (subLo DstReg) (subHi SrcReg)] else [])
     @ [ROTi RLC, ALU SBB A, MOV (subHi DstReg) A]"

definition expand_SRA16_RAM_LO :: "mbb_ctx \<Rightarrow> preg \<Rightarrow> preg \<Rightarrow> nat \<Rightarrow> machine_instr list" where
  "expand_SRA16_RAM_LO c DstReg SrcReg ShAmt =
    (let DstHi = subHi DstReg; DstLo = subLo DstReg; SrcHi = subHi SrcReg;
         DstHiDead = isRegDeadAfter (after c) (succLiveIns c) DstHi;
         TailAmt = ShAmt - 8
     in if TailAmt = 1 then
          if DstHiDead then [MOV A SrcHi, ROTi RLC, MOV A SrcHi, ROTi RAR, MOV DstLo A]
          else [MOV A SrcHi] @ (if DstLo \<noteq> SrcHi then [MOV DstLo SrcHi] else [])
            @ [ROTi RLC, ALU SBB A, MOV DstHi A, MOV A DstLo, ROTi RLC, MOV A DstLo, ROTi RAR,
               MOV DstLo A]
        else if TailAmt = 7 then
          [MOV A SrcHi, ROTi RLC, ALU SBB A] @ (if \<not> DstHiDead then [MOV DstHi A] else [])
          @ [MOV DstLo A]
        else
          [MOV A SrcHi] @ rotate_tail TailAmt @ [ANIi (2 ^ (8 - TailAmt) - 1), MOV DstLo A,
           MOV A SrcHi, ROTi RLC, ALU SBB A] @ (if \<not> DstHiDead then [MOV DstHi A] else [])
          @ [ANIi ((0xFF * 2 ^ (8 - TailAmt)) mod 256), ALU ORA DstLo, MOV DstLo A])"

definition expand_ROTL16_1 :: "machine_instr list" where
  "expand_ROTL16_1 = [DADi HL, MVI A 0, ALU ADC L, MOV L A]"

section \<open>Bits of the accumulator operations\<close>

lemma bit_byte_less: "bit (b :: byte) n \<Longrightarrow> n < 8"
  by (auto dest: bit_imp_le_length)

lemma bit_rrc: "bit (rrc x) n \<longleftrightarrow> n < 8 \<and> (if n = 7 then bit x 0 else bit x (n + 1))"
  by (auto simp: rrc_def bit_simps dest: bit_byte_less)

lemma bit_rlc: "bit (rlc x) n \<longleftrightarrow> n < 8 \<and> (if n = 0 then bit x 7 else bit x (n - 1))"
  unfolding rlc_def bit_or_iff bit_push_bit_iff by (auto simp: bit_simps dest: bit_byte_less)

lemma bit_rar: "bit (rar x cy) n \<longleftrightarrow> n < 8 \<and> (if n = 7 then cy else bit x (n + 1))"
  by (auto simp: rar_def bit_simps dest: bit_byte_less)

lemma bit_mod_8: "bit (x :: byte) n \<longleftrightarrow> n < 8 \<and> bit x (n mod 8)"
  using bit_byte_less [of x n] by auto

lemma bit_rotates:
  "bit (rrc x) n \<longleftrightarrow> n < 8 \<and> bit x ((n + 1) mod 8)"
  "bit (rlc x) n \<longleftrightarrow> n < 8 \<and> bit x ((n + 7) mod 8)"
proof -
  have "n < 8 \<Longrightarrow> (n + 1) mod 8 = (if n = 7 then 0 else n + 1)"
    "n < 8 \<Longrightarrow> (n + 7) mod 8 = (if n = 0 then 7 else n - 1)"
    by (cases n; simp)+
  then show "bit (rrc x) n \<longleftrightarrow> n < 8 \<and> bit x ((n + 1) mod 8)"
    "bit (rlc x) n \<longleftrightarrow> n < 8 \<and> bit x ((n + 7) mod 8)"
    by (auto simp: bit_rrc bit_rlc)
qed

lemma bit_rrc_power: "bit ((rrc ^^ k) x) n \<longleftrightarrow> n < 8 \<and> bit x ((n + k) mod 8)"
proof (induction k arbitrary: n)
  case (Suc k)
  have "((n + 1) mod 8 + k) mod 8 = (n + Suc k) mod 8" by (simp add: mod_simps)
  then show ?case by (simp only: funpow.simps comp_apply bit_rotates Suc) simp
qed (simp add: bit_mod_8 [symmetric])

lemma bit_rlc_power: "k \<le> 8 \<Longrightarrow> bit ((rlc ^^ k) x) n \<longleftrightarrow> n < 8 \<and> bit x ((n + (8 - k)) mod 8)"
proof (induction k arbitrary: n)
  case (Suc k)
  then have "n + 7 + (8 - k) = n + (8 - Suc k) + 8" by simp
  then have "((n + 7) mod 8 + (8 - k)) mod 8 = (n + (8 - Suc k)) mod 8"
    by (metis mod_add_left_eq mod_add_self2)
  then show ?case using Suc by (simp only: funpow.simps comp_apply bit_rotates) simp
qed (simp add: bit_mod_8 [symmetric])

lemma exec_ROT [exec_simps]:
  "exec env (ROTi RLC) s = cont (setCY (bit (r8 s A) 7) (setR A (rlc (r8 s A)) s))"
  "exec env (ROTi RRC) s = cont (setCY (bit (r8 s A) 0) (setR A (rrc (r8 s A)) s))"
  "exec env (ROTi RAR) s = cont (setCY (bit (r8 s A) 0) (setR A (rar (r8 s A) (fCY (fl s))) s))"
  "exec env (ANIi i) s = cont (aluA ANA (word_of_int i) s)"
  by (simp_all add: ROTi_def ANIi_def exec_BuildMI step_simps step_simps2 lo8_word_of_int)

lemma run_rotates:
  "\<exists>t. run env (replicate n (ROTi RRC)) s = cont t \<and> r8 t A = (rrc ^^ n) (r8 s A) \<and> unchanged {A, FLAGS} {} s t"
  "\<exists>t. run env (replicate n (ROTi RLC)) s = cont t \<and> r8 t A = (rlc ^^ n) (r8 s A) \<and> unchanged {A, FLAGS} {} s t"
proof -
  have step: "unchanged {A, FLAGS} {} s (setCY c (setR A v s))" for c v s
    by (simp add: unchanged_def)
  show "\<exists>t. run env (replicate n (ROTi RRC)) s = cont t \<and> r8 t A = (rrc ^^ n) (r8 s A) \<and> unchanged {A, FLAGS} {} s t"
  proof (induction n arbitrary: s)
    case (Suc n)
    from Suc [of "setCY (bit (r8 s A) 0) (setR A (rrc (r8 s A)) s)"] show ?case
      using unchanged_trans [OF step] by (fastforce simp: exec_simps funpow_swap1)
  qed simp
  show "\<exists>t. run env (replicate n (ROTi RLC)) s = cont t \<and> r8 t A = (rlc ^^ n) (r8 s A) \<and> unchanged {A, FLAGS} {} s t"
  proof (induction n arbitrary: s)
    case (Suc n)
    from Suc [of "setCY (bit (r8 s A) 7) (setR A (rlc (r8 s A)) s)"] show ?case
      using unchanged_trans [OF step] by (fastforce simp: exec_simps funpow_swap1)
  qed simp
qed

text \<open>The rotation by the tail: bit \<open>j\<close> of the result is bit \<open>j + k\<close> of the byte, cyclically.\<close>

lemma run_rotate_tail:
  assumes "k \<le> 8"
  shows "\<exists>t. run env (rotate_tail k) s = cont t
    \<and> (\<forall>j. bit (r8 t A) j = (j < 8 \<and> bit (r8 s A) ((j + k) mod 8))) \<and> unchanged {A, FLAGS} {} s t"
proof (cases "k \<le> 4")
  case True
  then show ?thesis using run_rotates(1) [of env k s] by (auto simp: rotate_tail_def bit_rrc_power)
next
  case False
  then show ?thesis using run_rotates(2) [of env "8 - k" s] assms
    by (auto simp: rotate_tail_def bit_rlc_power)
qed

section \<open>Shifting HL and A:HL left\<close>

lemma add_self16: "(w :: u16) + w = push_bit 1 w"
  by (simp add: push_bit_double)

lemma carry_self16: "65536 \<le> unat (w :: u16) + unat w \<longleftrightarrow> bit w 15"
proof -
  have "bit w 15 \<longleftrightarrow> odd (unat w div 32768)"
    using bit_unsigned_iff [of w 15, where ?'a = nat] by (simp add: bit_iff_odd)
  moreover have "unat w div 32768 = of_bool (32768 \<le> unat w)"
    using unat_u16_less [of w] by (cases "32768 \<le> unat w") (simp_all add: div_nat_eqI)
  ultimately show ?thesis by (auto split: if_splits)
qed

lemma dad_self: "getP HL (dad (getP HL s) s) = push_bit 1 (getP HL s)"
  "fCY (fl (dad (getP HL s) s)) = bit (getP HL s) 15"
  by (simp_all add: dad_HL add_self16 del: getP.simps) (simp add: dad_def carry_self16 del: getP.simps)

lemma run_dads:
  "\<exists>t. run env (replicate n (DADi HL)) s = cont t \<and> getP HL t = push_bit n (getP HL s)
    \<and> unchanged {H, L, FLAGS} {} s t"
proof (induction n arbitrary: s)
  case (Suc n)
  from Suc [of "dad (getP HL s) s"] obtain t where
    t: "run env (replicate n (DADi HL)) (dad (getP HL s) s) = cont t"
    "getP HL t = push_bit n (push_bit 1 (getP HL s))" "unchanged {H, L, FLAGS} {} (dad (getP HL s) s) t"
    by (auto simp: dad_self simp del: getP.simps)
  then show ?case
    using unchanged_trans [OF dad_HL(2)] by (auto simp: exec_simps push_bit_push_bit simp del: getP.simps)
qed (simp del: getP.simps)

lemma bit_twice:
  "bit (2 * a :: byte) n \<longleftrightarrow> 0 < n \<and> n < 8 \<and> bit a (n - 1)"
  "bit (2 * a + 1 :: byte) n \<longleftrightarrow> n < 8 \<and> (n = 0 \<or> bit a (n - 1))"
proof -
  have p: "push_bit 1 a = 2 * a" by simp
  show t: "bit (2 * a :: byte) n \<longleftrightarrow> 0 < n \<and> n < 8 \<and> bit a (n - 1)" for n
    unfolding p [symmetric] bit_push_bit_iff by (auto simp: Suc_le_eq)
  have "2 * a AND 1 = 0" by (rule bit_word_eqI) (auto simp: bit_and_iff t bit_1_iff)
  then have "2 * a + 1 = 2 * a OR 1" by (simp add: disjunctive_add_eq_or)
  then show "bit (2 * a + 1 :: byte) n \<longleftrightarrow> n < 8 \<and> (n = 0 \<or> bit a (n - 1))"
    by (auto simp: bit_or_iff t bit_1_iff)
qed

lemma bit_adc_self: "bit (a + a + of_bool cy :: byte) n \<longleftrightarrow> n < 8 \<and> (if n = 0 then cy else bit a (n - 1))"
  using bit_twice [of a n] by (cases cy) (auto simp flip: mult_2)

lemma run_loop24:
  assumes "n \<le> 8"
  shows "\<exists>t. run env (loop24 n) s = cont t \<and> getP HL t = push_bit n (getP HL s)
    \<and> (\<forall>j<8. bit (r8 t A) j = (if j < n then bit (getP HL s) (16 - n + j) else bit (r8 s A) (j - n)))
    \<and> unchanged {A, H, L, FLAGS} {} s t"
  using assms
proof (induction n arbitrary: s)
  case (Suc n)
  let ?u = "aluA ADC (r8 s A) (dad (getP HL s) s)"
  have A: "r8 (dad (getP HL s) s) A = r8 s A" by (simp add: dad_def)
  have HL: "getP HL ?u = push_bit 1 (getP HL s)"
    using dad_self(1) [of s] by simp
  have bitA: "bit (r8 ?u A) j \<longleftrightarrow> j < 8 \<and> (if j = 0 then bit (getP HL s) 15 else bit (r8 s A) (j - 1))" for j
    using bit_adc_self [of "r8 s A" "bit (getP HL s) 15" j]
    by (simp only: r8_simps alu.simps alu_add_sum A dad_self simp_thms if_True)
  have un: "unchanged {A, H, L, FLAGS} {} s ?u" by (simp add: unchanged_code dad_def)
  obtain t where t: "run env (loop24 n) ?u = cont t" "getP HL t = push_bit n (getP HL ?u)"
    "\<forall>j<8. bit (r8 t A) j = (if j < n then bit (getP HL ?u) (16 - n + j) else bit (r8 ?u A) (j - n))"
    "unchanged {A, H, L, FLAGS} {} ?u t"
    using Suc by (metis Suc_leD)
  have "run env (loop24 (Suc n)) s = cont t"
    using t(1) A by (simp add: loop24_def exec_simps del: getP.simps)
  moreover have "getP HL t = push_bit (Suc n) (getP HL s)"
    by (simp only: t(2) HL push_bit_push_bit add_Suc_right add_0_right One_nat_def plus_1_eq_Suc)
  moreover have "bit (r8 t A) j = (if j < Suc n then bit (getP HL s) (16 - Suc n + j) else bit (r8 s A) (j - Suc n))"
    if "j < 8" for j
  proof -
    have "16 - n + j - 1 = 16 - Suc n + j" "j < n \<Longrightarrow> 1 \<le> 16 - n + j \<and> 16 - n + j < 16"
      using Suc.prems by linarith+
    then have "j < n \<Longrightarrow> bit (push_bit 1 (getP HL s)) (16 - n + j) = bit (getP HL s) (16 - Suc n + j)"
      unfolding bit_push_bit_iff by simp
    moreover have "j = n \<Longrightarrow> 16 - Suc n + j = 15" using Suc.prems by simp
    moreover have "bit (r8 t A) j = (if j < n then bit (push_bit 1 (getP HL s)) (16 - n + j) else bit (r8 ?u A) (j - n))"
      using t(3) that unfolding HL by blast
    moreover have "\<not> j < n \<Longrightarrow> bit (r8 ?u A) (j - n)
        \<longleftrightarrow> (if j = n then bit (getP HL s) 15 else bit (r8 s A) (j - Suc n))"
    proof -
      have "j - n < 8" "\<not> j < n \<Longrightarrow> (j - n = 0) = (j = n)" "j - n - 1 = j - Suc n" using that by linarith+
      then show "\<not> j < n \<Longrightarrow> ?thesis" unfolding bitA by presburger
    qed
    ultimately show ?thesis by (metis less_Suc_eq)
  qed
  ultimately show ?case using unchanged_trans [OF un t(4)] by blast
qed (simp add: loop24_def del: getP.simps)

section \<open>Left shifts\<close>

lemma HLDead_sub: "Dst = HL \<or> (Dst \<noteq> HL \<and> \<not> HLDead c) \<or> {H, L} \<subseteq> dead_regs (after c) (succLiveIns c)"
  by (auto simp: HLDead_def)

lemma xchg_around:
  assumes "\<And>u. getP HL u = getP DE s \<Longrightarrow> fl u = fl s \<Longrightarrow>
      \<exists>v. run env mid u = cont v \<and> getP HL v = w \<and> unchanged ({H, L, FLAGS} \<union> K) {} u v"
    and "K = {} \<or> K = {A}"
  shows "\<exists>t. run env ([XCHGi] @ mid @ [XCHGi]) s = cont t \<and> getP DE t = w
    \<and> unchanged ({D, E, FLAGS} \<union> K) {} s t"
proof -
  let ?u = "setP HL (getP DE s) (setP DE (getP HL s) s)"
  obtain v where v: "run env mid ?u = cont v" "getP HL v = w" "unchanged ({H, L, FLAGS} \<union> K) {} ?u v"
    using assms(1) [of ?u] by auto
  then show ?thesis
    using assms(2) by (auto simp: exec_simps run_append unchanged_code)
qed

lemma expand_SHL16_DAD_run:
  assumes "GR16 Dst" "GR16 Src"
  shows "\<exists>t. run env (expand_SHL16_DAD c Dst Src k) s = cont t \<and> getP Dst t = push_bit k (getP Src s)
    \<and> unchanged (units Dst \<union> {FLAGS} \<union> dead_regs (after c) (succLiveIns c)) (below_sp s) s t"
proof -
  have mid: "\<exists>v. run env (replicate k (DADi HL)) u = cont v \<and> getP HL v = push_bit k (getP Src s)
      \<and> unchanged ({H, L, FLAGS} \<union> {}) {} u v" if "getP HL u = getP Src s" for u
    using run_dads [of env k u] that by (simp del: getP.simps)
  have K0: "({} :: preg set) = {} \<or> {} = {A}" by simp
  show ?thesis
  proof (cases "Dst = DE \<and> Src = DE")
    case True
    then obtain t where "run env ([XCHGi] @ replicate k (DADi HL) @ [XCHGi]) s = cont t"
      "getP DE t = push_bit k (getP DE s)" "unchanged ({D, E, FLAGS} \<union> {}) {} s t"
      using xchg_around [OF mid K0] by blast
    moreover from this(3) have
      "unchanged (units DE \<union> {FLAGS} \<union> dead_regs (after c) (succLiveIns c)) (below_sp s) s t"
      by (rule unchanged_mono) auto
    ultimately show ?thesis using True by (simp add: expand_SHL16_DAD_def del: getP.simps)
  next
    case False
    then have code: "expand_SHL16_DAD c Dst Src k
        = dad_around (Dst \<noteq> HL \<and> \<not> HLDead c) Src Dst (replicate k (DADi HL))"
      by (auto simp: expand_SHL16_DAD_def)
    show ?thesis unfolding code
      by (rule dad_around_correct [OF assms HLDead_sub _ K0 mid, unfolded Un_empty_right]) simp_all
  qed
qed

lemma mk16_push_bit: "8 \<le> k \<Longrightarrow> mk16 (push_bit (k - 8) (lo8 w)) 0 = push_bit k w"
  by (rule bit_word_eqI) (auto simp: bit_mk16 bit_push_bit_iff bit_lo8)

lemma run_ADD_A:
  "\<exists>t. run env (replicate n (ALU ADD A)) s = cont t \<and> r8 t A = push_bit n (r8 s A)
    \<and> unchanged {A, FLAGS} {} s t"
proof (induction n arbitrary: s)
  case (Suc n)
  have "r8 (aluA ADD (r8 s A) s) A = push_bit 1 (r8 s A)" by simp
  moreover obtain t where t: "run env (replicate n (ALU ADD A)) (aluA ADD (r8 s A) s) = cont t"
    "r8 t A = push_bit n (r8 (aluA ADD (r8 s A) s) A)" "unchanged {A, FLAGS} {} (aluA ADD (r8 s A) s) t"
    using Suc by blast
  ultimately have "r8 t A = push_bit (Suc n) (r8 s A)" by (simp only: push_bit_push_bit) simp
  moreover have "unchanged {A, FLAGS} {} s (aluA ADD (r8 s A) s)" by (simp add: unchanged_def)
  ultimately show ?case using t unchanged_trans by (fastforce simp: exec_simps)
qed simp

lemma less_8_cases: "j < 8 \<longleftrightarrow> j = 0 \<or> j = 1 \<or> j = 2 \<or> j = 3 \<or> j = 4 \<or> j = 5 \<or> j = 6 \<or> j = (7 :: nat)"
  by arith

lemma bit_top_masks:
  "bit (0xC0 :: byte) j \<longleftrightarrow> j < 8 \<and> 6 \<le> j" "bit (0x80 :: byte) j \<longleftrightarrow> j < 8 \<and> 7 \<le> j"
proof -
  have "j < 8 \<Longrightarrow> bit (0xC0 :: byte) j \<longleftrightarrow> 6 \<le> j" "j < 8 \<Longrightarrow> bit (0x80 :: byte) j \<longleftrightarrow> 7 \<le> j"
    unfolding less_8_cases by (elim disjE; simp)+
  then show "bit (0xC0 :: byte) j \<longleftrightarrow> j < 8 \<and> 6 \<le> j" "bit (0x80 :: byte) j \<longleftrightarrow> j < 8 \<and> 7 \<le> j"
    using bit_byte_less by blast+
qed

lemma shl_by_rotation:
  assumes "k = 14 \<or> k = 15"
  shows "(rrc ^^ (16 - k)) x AND word_of_int (if k = 14 then 0xC0 else 0x80) = push_bit (k - 8) x"
proof (rule bit_word_eqI)
  fix j assume "j < LENGTH(8)"
  then have j: "j < 8" by simp
  have "bit (word_of_int (if k = 14 then 0xC0 else 0x80) :: byte) j \<longleftrightarrow> k - 8 \<le> j"
  proof -
    have "(word_of_int (if k = 14 then 0xC0 else 0x80) :: byte) = (if k = 14 then 0xC0 else 0x80)" by simp
    then show ?thesis using assms j by (simp only: bit_top_masks split: if_split) auto
  qed
  moreover have "k - 8 \<le> j \<Longrightarrow> (j + (16 - k)) mod 8 = j - (k - 8)"
    using assms j by (auto simp: less_8_cases)
  ultimately show "bit ((rrc ^^ (16 - k)) x AND word_of_int (if k = 14 then 0xC0 else 0x80)) j
      = bit (push_bit (k - 8) x) j"
    using j by (auto simp: bit_and_iff bit_rrc_power bit_push_bit_iff)
qed

lemma expand_SHL16_RAM_HI_run:
  assumes "GR16 Dst" "GR16 Src" "9 \<le> k" "k \<le> 15"
  shows "\<exists>t. run env (expand_SHL16_RAM_HI Dst Src k) s = cont t \<and> getP Dst t = push_bit k (getP Src s)
    \<and> unchanged (units Dst \<union> {A, FLAGS}) {} s t"
proof -
  let ?u = "setR A (r8 s (subLo Src)) s"
  obtain mid where code: "expand_SHL16_RAM_HI Dst Src k
      = [MOV A (subLo Src)] @ mid @ [MVI (subLo Dst) 0, MOV (subHi Dst) A]"
    and mid: "mid = (if 14 \<le> k then replicate (16 - k) (ROTi RRC) @ [ANIi (if k = 14 then 0xC0 else 0x80)]
      else replicate (k - 8) (ALU ADD A))"
  proof (rule that)
    have "6 \<le> k - 8 \<longleftrightarrow> 14 \<le> k" using assms(3) by arith
    then show "expand_SHL16_RAM_HI Dst Src k = [MOV A (subLo Src)]
        @ (if 14 \<le> k then replicate (16 - k) (ROTi RRC) @ [ANIi (if k = 14 then 0xC0 else 0x80)]
           else replicate (k - 8) (ALU ADD A)) @ [MVI (subLo Dst) 0, MOV (subHi Dst) A]"
      by (simp add: expand_SHL16_RAM_HI_def)
  qed simp
  have "\<exists>v. run env mid ?u = cont v \<and> r8 v A = push_bit (k - 8) (r8 s (subLo Src))
      \<and> unchanged {A, FLAGS} {} ?u v"
  proof (cases "14 \<le> k")
    case True
    then have k: "k = 14 \<or> k = 15" using assms(4) by linarith
    obtain v where v: "run env (replicate (16 - k) (ROTi RRC)) ?u = cont v"
      "r8 v A = (rrc ^^ (16 - k)) (r8 s (subLo Src))" "unchanged {A, FLAGS} {} ?u v"
      using run_rotates(1) [of env "16 - k" ?u] by auto
    let ?v = "aluA ANA (word_of_int (if k = 14 then 0xC0 else 0x80)) v"
    have "run env mid ?u = cont ?v" using True v(1) by (simp add: mid run_append exec_simps)
    moreover have "r8 ?v A = push_bit (k - 8) (r8 s (subLo Src))"
      using shl_by_rotation [OF k] v(2) by (simp only: r8_simps alu.simps Let_def fst_conv if_True refl)
    moreover have "unchanged {A, FLAGS} {} ?u ?v"
      by (rule unchanged_trans [OF v(3)]) (simp add: unchanged_def)
    ultimately show ?thesis by blast
  next
    case False
    then show ?thesis using run_ADD_A [of env "k - 8" ?u] by (simp add: mid)
  qed
  then obtain v where v: "run env mid ?u = cont v" "r8 v A = push_bit (k - 8) (r8 s (subLo Src))"
    "unchanged {A, FLAGS} {} ?u v" by blast
  have "run env (expand_SHL16_RAM_HI Dst Src k) s = cont (setR (subHi Dst) (r8 v A) (setR (subLo Dst) 0 v))"
    using assms(1) v(1) unfolding code
    by (elim GR16_cases) (simp_all add: run_append exec_simps lo8_word_of_int)
  moreover have "mk16 (r8 v A) 0 = push_bit k (getP Src s)"
    using assms(2,3) v(2) mk16_push_bit [of k "getP Src s"] by (elim GR16_cases) simp_all
  moreover have "unchanged (units Dst \<union> {A, FLAGS}) {} s (setR (subHi Dst) (r8 v A) (setR (subLo Dst) 0 v))"
    using assms(1) v(3) by (elim GR16_cases) (auto simp: unchanged_code)
  ultimately show ?thesis using assms(1) by (elim GR16_cases) auto
qed

lemma expand_SHL16_BYTE_run:
  assumes "GR16 Dst" "GR16 Src"
  shows "\<exists>t. run env (expand_SHL16_BYTE Dst Src) s = cont t \<and> getP Dst t = push_bit 8 (getP Src s)
      \<and> unchanged (units Dst) {} s t"
proof -
  have "mk16 (lo8 w) 0 = push_bit 8 w" for w
    using mk16_push_bit [of 8 w] by simp
  then show ?thesis
    using assms by (elim GR16_cases) (auto simp: expand_SHL16_BYTE_def exec_simps unchanged_code
        lo8_word_of_int simp flip: \<open>\<And>w. mk16 (lo8 w) 0 = push_bit 8 w\<close>)
qed

lemma expand_SHL16_run:
  assumes "GR16 Dst" "GR16 Src"
  shows "(\<exists>t. run env (expand_SHL16_DAD c Dst Src k) s = cont t \<and> getP Dst t = push_bit k (getP Src s)
      \<and> unchanged (units Dst \<union> {FLAGS} \<union> dead_regs (after c) (succLiveIns c)) (below_sp s) s t)
    \<and> (\<exists>t. run env (expand_SHL16_BYTE Dst Src) s = cont t \<and> getP Dst t = push_bit 8 (getP Src s)
      \<and> unchanged (units Dst) {} s t)
    \<and> (9 \<le> k \<and> k \<le> 15 \<longrightarrow> (\<exists>t. run env (expand_SHL16_RAM_HI Dst Src k) s = cont t
      \<and> getP Dst t = push_bit k (getP Src s) \<and> unchanged (units Dst \<union> {A, FLAGS}) {} s t))"
  by (intro conjI impI expand_SHL16_DAD_run expand_SHL16_BYTE_run expand_SHL16_RAM_HI_run assms; simp)

text \<open>
  The left shifts multiply by the power of two modulo 65536: by doubling HL for any amount, by
  moving the byte for eight, and in A for nine to fifteen.  DAD form: HL survives unless it is the
  destination or both halves are dead.
\<close>

theorem expand_SHL16_correct:
  assumes "GR16 Dst" "GR16 Src"
  shows "(\<exists>t. run env (expand_SHL16_DAD c Dst Src k) s = cont t \<and> getP Dst t = push_bit k (getP Src s)
      \<and> unchanged (units Dst \<union> {FLAGS} \<union> dead_regs (after c) (succLiveIns c)) (below_sp s) s t)
    \<and> (\<exists>t. run env (expand_SHL16_BYTE Dst Src) s = cont t \<and> getP Dst t = push_bit 8 (getP Src s)
      \<and> unchanged (units Dst) {} s t)
    \<and> (9 \<le> k \<and> k \<le> 15 \<longrightarrow> (\<exists>t. run env (expand_SHL16_RAM_HI Dst Src k) s = cont t
      \<and> getP Dst t = push_bit k (getP Src s) \<and> unchanged (units Dst \<union> {A, FLAGS}) {} s t))"
  using assms by (rule expand_SHL16_run)

theorem expand_SHL16_correct_witness:
  "\<forall>c env s. (\<exists>t. run env (expand_SHL16_DAD c BC DE 3) s = cont t \<and> getP BC t = push_bit 3 (getP DE s))
    \<and> (\<exists>t. run env (expand_SHL16_RAM_HI HL DE 14) s = cont t \<and> getP HL t = push_bit 14 (getP DE s))"
proof (intro allI)
  fix c env s
  show "(\<exists>t. run env (expand_SHL16_DAD c BC DE 3) s = cont t \<and> getP BC t = push_bit 3 (getP DE s))
    \<and> (\<exists>t. run env (expand_SHL16_RAM_HI HL DE 14) s = cont t \<and> getP HL t = push_bit 14 (getP DE s))"
    using expand_SHL16_correct [of BC DE env c 3 s] expand_SHL16_correct [of HL DE env c 14 s]
    by (auto simp del: getP.simps)
qed

end
