(* ===== verification/ExpandShiftRight.thy ===== *)
theory ExpandShiftRight
  imports ExpandShift
begin

text \<open>
  Correctness of the right shifts and of the rotation by one.  The logical shifts are
  \<open>drop_bit\<close>, the arithmetic shifts \<open>signed_drop_bit\<close>, the rotation is \<open>word_rotl\<close>.
\<close>

section \<open>One position through the carry\<close>

text \<open>RAR on the high byte, then on the low byte: the pair moves down by one, \<open>cy\<close> enters at the top.\<close>

definition rar_pair :: "bool \<Rightarrow> u16 \<Rightarrow> u16" where
  "rar_pair cy w = mk16 (rar (hi8 w) cy) (rar (lo8 w) (bit (hi8 w) 0))"

lemma bit_rar_pair: "bit (rar_pair cy w) j \<longleftrightarrow> j < 16 \<and> (if j = 15 then cy else bit w (j + 1))"
proof -
  have "j < 16 \<Longrightarrow> \<not> j < 8 \<Longrightarrow> j - 8 < 8 \<and> (j - 8 = 7 \<longleftrightarrow> j = 15) \<and> 8 + (j - 8 + 1) = j + 1" by linarith
  moreover have "j < 8 \<Longrightarrow> (j = 7 \<longrightarrow> 8 + 0 = j + 1) \<and> (j \<noteq> 7 \<longrightarrow> j + 1 < 8) \<and> j < 16 \<and> j \<noteq> 15"
    by linarith
  moreover have "j - 8 \<noteq> 7 \<Longrightarrow> j < 16 \<Longrightarrow> j - 8 + 1 < 8" by linarith
  ultimately show ?thesis
    by (cases "j < 8"; cases "j < 16")
      (auto simp: rar_pair_def bit_mk16 bit_rar bit_hi8 bit_lo8 add.commute)
qed

lemma rar_pair_shifts:
  "rar_pair False w = drop_bit 1 w" "rar_pair (bit w 15) w = signed_drop_bit 1 w"
proof -
  have 1: "bit (drop_bit 1 w) j \<longleftrightarrow> bit w (j + 1)" for j by (simp add: bit_drop_bit_eq)
  show "rar_pair False w = drop_bit 1 w"
  proof (rule bit_word_eqI)
    fix j assume "j < LENGTH(16)"
    moreover have "\<not> bit w 16" using bit_imp_le_length [of w 16] by auto
    ultimately show "bit (rar_pair False w) j = bit (drop_bit 1 w) j"
      unfolding bit_rar_pair 1 by (cases "j = 15") simp_all
  qed
  show "rar_pair (bit w 15) w = signed_drop_bit 1 w"
    by (rule bit_word_eqI) (auto simp: bit_rar_pair bit_signed_drop_bit_iff)
qed

definition rar_tail :: "preg \<Rightarrow> machine_instr list" where
  "rar_tail r = [ROTi RAR, MOV (subHi r) A, MOV A (subLo r), ROTi RAR, MOV (subLo r) A]"

lemma run_rar_tail:
  assumes "GR16 r" "r8 s A = r8 s (subHi r)"
  shows "\<exists>t. run env (rar_tail r) s = cont t \<and> getP r t = rar_pair (fCY (fl s)) (getP r s)
    \<and> unchanged (units r \<union> {A, FLAGS}) {} s t"
  using assms by (elim GR16_cases) (auto simp: rar_tail_def exec_simps rar_pair_def unchanged_code)

lemma srl_steps_run:
  assumes "GR16 r" "CYClear \<longrightarrow> \<not> fCY (fl s)"
  shows "\<exists>t. run env (srl_steps CYClear r n) s = cont t \<and> getP r t = drop_bit n (getP r s)
    \<and> unchanged (units r \<union> {A, FLAGS}) {} s t"
  using assms(2)
proof (induction n arbitrary: CYClear s)
  case (Suc n)
  let ?u = "if CYClear then setR A (r8 s (subHi r)) s
    else aluA ORA (r8 s (subHi r)) (setR A (r8 s (subHi r)) s)"
  have u: "r8 ?u A = r8 ?u (subHi r)" "\<not> fCY (fl ?u)" "getP r ?u = getP r s" "unchanged {A, FLAGS} {} s ?u"
    using assms(1) Suc.prems by (elim GR16_cases; simp add: unchanged_code Let_def)+
  obtain v where v: "run env (rar_tail r) ?u = cont v" "getP r v = drop_bit 1 (getP r s)"
    "unchanged (units r \<union> {A, FLAGS}) {} ?u v"
    using run_rar_tail [OF assms(1) u(1), of env] u(2,3) by (auto simp: rar_pair_shifts simp del: getP.simps)
  obtain t where t: "run env (srl_steps False r n) v = cont t" "getP r t = drop_bit n (getP r v)"
    "unchanged (units r \<union> {A, FLAGS}) {} v t"
    using Suc.IH [of False v] by auto
  have "srl_steps CYClear r (Suc n)
      = (MOV A (subHi r) # (if CYClear then [] else [ALU ORA A])) @ rar_tail r @ srl_steps False r n"
    by (simp add: rar_tail_def)
  then have "run env (srl_steps CYClear r (Suc n)) s = cont t"
    using v(1) t(1) assms(1) by (elim GR16_cases; cases CYClear)
      (simp_all add: run_append exec_shapes del: srl_steps.simps)
  moreover have "unchanged (units r \<union> {A, FLAGS}) {} s ?u" using u(4) by (rule unchanged_mono) auto
  ultimately show ?case
    using t(2,3) v(2,3) by (auto intro: unchanged_trans simp del: getP.simps srl_steps.simps)
qed (simp del: getP.simps)

lemma sra_steps_run:
  assumes "GR16 r"
  shows "\<exists>t. run env (sra_steps r n) s = cont t \<and> getP r t = signed_drop_bit n (getP r s)
    \<and> unchanged (units r \<union> {A, FLAGS}) {} s t"
proof (induction n arbitrary: s)
  case (Suc n)
  let ?h = "r8 s (subHi r)"
  let ?u = "setR A ?h (setCY (bit ?h 7) (setR A (rlc ?h) (setR A ?h s)))"
  have u: "r8 ?u A = r8 ?u (subHi r)" "fCY (fl ?u) = bit (getP r s) 15" "getP r ?u = getP r s"
    "unchanged {A, FLAGS} {} s ?u"
    using assms by (elim GR16_cases; simp add: unchanged_code bit_mk16)+
  obtain v where v: "run env (rar_tail r) ?u = cont v" "getP r v = signed_drop_bit 1 (getP r s)"
    "unchanged (units r \<union> {A, FLAGS}) {} ?u v"
    using run_rar_tail [OF assms u(1), of env] unfolding u(2,3) rar_pair_shifts by blast
  obtain t where t: "run env (sra_steps r n) v = cont t" "getP r t = signed_drop_bit n (getP r v)"
    "unchanged (units r \<union> {A, FLAGS}) {} v t"
    using Suc.IH by blast
  have "sra_steps r (Suc n) = [MOV A (subHi r), ROTi RLC, MOV A (subHi r)] @ rar_tail r @ sra_steps r n"
    by (simp add: rar_tail_def)
  then have "run env (sra_steps r (Suc n)) s = cont t"
    using v(1) t(1) assms by (elim GR16_cases)
      (simp_all add: run_append exec_simps del: sra_steps.simps)
  moreover have "unchanged (units r \<union> {A, FLAGS}) {} s ?u" using u(4) by (rule unchanged_mono) auto
  ultimately show ?case
    using t(2,3) v(2,3) by (auto intro: unchanged_trans simp del: getP.simps sra_steps.simps)
qed (simp del: getP.simps)

section \<open>The loops over the copied pair\<close>

lemma run_copy_halves:
  assumes "GR16 d" "GR16 r"
  shows "\<exists>t. run env (copy_halves d r) s = cont t \<and> getP d t = getP r s \<and> fl t = fl s
    \<and> unchanged (units d) {} s t"
  using assms by (elim GR16_cases) (auto simp: copy_halves_def exec_simps unchanged_code)

lemma priorClearsCarry_copies:
  "GR16 d \<Longrightarrow> GR16 r \<Longrightarrow> priorClearsCarry (bef @ copy_halves d r) = priorClearsCarry bef"
  by (elim GR16_cases) (auto simp: priorClearsCarry_def copy_halves_def MOV_def BuildMI_def
      implicit_operands_def isDebugInstr_def definesRegister_def)

lemma expand_SRL16_RAR_run:
  assumes GR: "GR16 Dst" "GR16 Src" and cy: "priorClearsCarry (before c) \<longrightarrow> \<not> fCY (fl s)"
  shows "\<exists>t. run env (expand_SRL16_RAR c Dst Src k) s = cont t \<and> getP Dst t = drop_bit k (getP Src s)
    \<and> unchanged (units Dst \<union> {A, FLAGS}) {} s t"
proof -
  let ?cy = "priorClearsCarry (before c @ copy_halves Dst Src)"
  obtain u where u: "run env (copy_halves Dst Src) s = cont u" "getP Dst u = getP Src s" "fl u = fl s"
    "unchanged (units Dst) {} s u" using run_copy_halves [OF GR] by blast
  have "?cy \<longrightarrow> \<not> fCY (fl u)" using cy u(3) priorClearsCarry_copies [OF GR] by simp
  then obtain t where t: "run env (srl_steps ?cy Dst k) u = cont t" "getP Dst t = drop_bit k (getP Dst u)"
    "unchanged (units Dst \<union> {A, FLAGS}) {} u t" using srl_steps_run [OF GR(1)] by blast
  moreover have "unchanged (units Dst \<union> {A, FLAGS}) {} s u" using u(4) by (rule unchanged_mono) auto
  ultimately show ?thesis
    using u(1,2) by (auto simp: expand_SRL16_RAR_def run_append intro: unchanged_trans simp del: getP.simps)
qed

lemma expand_SRA16_RAR_run:
  assumes GR: "GR16 Dst" "GR16 Src"
  shows "\<exists>t. run env (expand_SRA16_RAR Dst Src k) s = cont t \<and> getP Dst t = signed_drop_bit k (getP Src s)
    \<and> unchanged (units Dst \<union> {A, FLAGS}) {} s t"
proof -
  obtain u where u: "run env (copy_halves Dst Src) s = cont u" "getP Dst u = getP Src s"
    "unchanged (units Dst) {} s u" using run_copy_halves [OF GR] by blast
  obtain t where t: "run env (sra_steps Dst k) u = cont t" "getP Dst t = signed_drop_bit k (getP Dst u)"
    "unchanged (units Dst \<union> {A, FLAGS}) {} u t" using sra_steps_run [OF GR(1)] by blast
  moreover have "unchanged (units Dst \<union> {A, FLAGS}) {} s u" using u(3) by (rule unchanged_mono) auto
  ultimately show ?thesis
    using u(1,2) by (auto simp: expand_SRA16_RAR_def run_append intro: unchanged_trans simp del: getP.simps)
qed

section \<open>The 24-bit form\<close>

text \<open>
  A filled with \<open>sg\<close>, shifted left over HL: the two upper bytes hold the pair shifted right, with
  \<open>sg\<close> in the vacated places.
\<close>

lemma bit_upper_bytes:
  assumes "0 < k" "k \<le> 8"
    and a: "\<forall>j<8. bit a j = (if j < 8 - k then bit w (16 - (8 - k) + j) else sg)"
  shows "bit (mk16 a (hi8 (push_bit (8 - k) w))) j
    \<longleftrightarrow> j < 16 \<and> (if 16 - k \<le> j then sg else bit w (j + k))"
proof (cases "j < 8")
  case True
  then have "j + 8 - (8 - k) = j + k" "8 - k \<le> j + 8" "j + 8 < 16" using assms by linarith+
  moreover have "\<not> 16 - k \<le> j" using True assms(2) by linarith
  ultimately show ?thesis
    using True unfolding bit_mk16 bit_hi8 bit_push_bit_iff by (simp add: add.commute)
next
  case False
  have "16 - k \<le> j \<longleftrightarrow> \<not> j - 8 < 8 - k" "j < 16 \<Longrightarrow> j - 8 < 8" "16 - (8 - k) + (j - 8) = j + k"
    using False assms(1,2) by linarith+
  moreover have "bit a (j - 8) \<Longrightarrow> j < 16" using bit_byte_less [of a "j - 8"] by linarith
  ultimately have "bit a (j - 8) \<longleftrightarrow> j < 16 \<and> (if 16 - k \<le> j then sg else bit w (j + k))"
    using a by metis
  then show ?thesis using False by (simp only: bit_mk16 if_False)
qed

lemma shift24_run:
  assumes GR: "GR16 Dst" "GR16 Src" and k: "0 < k" "k \<le> 8"
    and seed: "\<And>u. getP HL u = getP Src s \<Longrightarrow> \<exists>v. run env seed u = cont v
      \<and> (\<forall>j<8. bit (r8 v A) j = sg) \<and> unchanged {A, FLAGS} {} u v"
    and w: "\<And>j. bit w j \<longleftrightarrow> j < 16 \<and> (if 16 - k \<le> j then sg else bit (getP Src s) (j + k))"
  shows "\<exists>t. run env (shift24 c Dst Src seed k) s = cont t \<and> getP Dst t = w
    \<and> unchanged (units Dst \<union> {FLAGS} \<union> {A} \<union> dead_regs (after c) (succLiveIns c)) (below_sp s) s t"
proof -
  let ?body = "seed @ loop24 (8 - k) @ [MOV L H, MOV H A]"
  have mid: "\<exists>v. run env ?body u = cont v \<and> getP HL v = w \<and> unchanged ({H, L, FLAGS} \<union> {A}) {} u v"
    if HLu: "getP HL u = getP Src s" for u
  proof -
    obtain p where p: "run env seed u = cont p" "\<forall>j<8. bit (r8 p A) j = sg" "unchanged {A, FLAGS} {} u p"
      using seed [OF HLu] by blast
    then have HL: "getP HL p = getP Src s" using HLu by (auto simp: unchanged_def)
    have "8 - k \<le> 8" by simp
    from run_loop24 [OF this, of env p] obtain q where q: "run env (loop24 (8 - k)) p = cont q"
      "getP HL q = push_bit (8 - k) (getP Src s)"
      "\<forall>j<8. bit (r8 q A) j = (if j < 8 - k then bit (getP Src s) (16 - (8 - k) + j) else bit (r8 p A) (j - (8 - k)))"
      "unchanged {A, H, L, FLAGS} {} p q" unfolding HL by blast
    have "\<forall>j<8. bit (r8 q A) j = (if j < 8 - k then bit (getP Src s) (16 - (8 - k) + j) else sg)"
      using q(3) p(2) by (metis diff_le_self order_le_less_trans)
    note bits = trans [OF bit_upper_bytes [OF k this] w [symmetric]]
    have "mk16 (r8 q A) (hi8 (push_bit (8 - k) (getP Src s))) = w"
      by (rule bit_word_eqI) (rule bits)
    moreover have "hi8 (push_bit (8 - k) (getP Src s)) = r8 q H" by (simp flip: q(2))
    ultimately have "mk16 (r8 q A) (r8 q H) = w" by simp
    moreover have "run env ?body u = cont (setR H (r8 q A) (setR L (r8 q H) q))"
      using p(1) q(1) by (simp add: run_append exec_simps)
    moreover have "unchanged ({H, L, FLAGS} \<union> {A}) {} u (setR H (r8 q A) (setR L (r8 q H) q))"
    proof -
      have "unchanged ({H, L, FLAGS} \<union> {A}) {} u p" using p(3) by (rule unchanged_mono) auto
      moreover have "unchanged ({H, L, FLAGS} \<union> {A}) {} p q" using q(4) by (rule unchanged_mono) auto
      moreover have "unchanged ({H, L, FLAGS} \<union> {A}) {} q (setR H (r8 q A) (setR L (r8 q H) q))"
        by (simp add: unchanged_code)
      ultimately show ?thesis using unchanged_trans by blast
    qed
    ultimately show ?thesis by auto
  qed
  have K: "({A} :: preg set) = {} \<or> {A} = {A}" by simp
  show ?thesis
  proof (cases "Dst = DE \<and> Src = DE")
    case True
    then obtain t where "run env ([XCHGi] @ ?body @ [XCHGi]) s = cont t" "getP DE t = w"
      "unchanged ({D, E, FLAGS} \<union> {A}) {} s t"
      using xchg_around [OF mid K] by blast
    moreover from this(3) have
      "unchanged (units DE \<union> {FLAGS} \<union> {A} \<union> dead_regs (after c) (succLiveIns c)) (below_sp s) s t"
      by (rule unchanged_mono) auto
    ultimately show ?thesis using True by (simp add: shift24_def Let_def del: getP.simps)
  next
    case False
    then have code: "shift24 c Dst Src seed k = dad_around (Dst \<noteq> HL \<and> \<not> HLDead c) Src Dst ?body"
      by (auto simp: shift24_def)
    show ?thesis unfolding code by (rule dad_around_correct [OF GR HLDead_sub _ K mid]) simp_all
  qed
qed

lemma bit_drop16: "bit (drop_bit k (w :: u16)) j \<longleftrightarrow> j < 16 \<and> (if 16 - k \<le> j then False else bit w (j + k))"
proof -
  have "16 - k \<le> j \<Longrightarrow> \<not> bit w (j + k)" using bit_imp_le_length [of w "j + k"] by auto
  moreover have "bit w (j + k) \<Longrightarrow> j < 16" using bit_imp_le_length [of w "j + k"] by auto
  ultimately show ?thesis by (auto simp: bit_drop_bit_eq add.commute)
qed

lemma bit_signed_drop16: "bit (signed_drop_bit k (w :: u16)) j
    \<longleftrightarrow> j < 16 \<and> (if 16 - k \<le> j then bit w 15 else bit w (j + k))"
proof -
  have "bit (signed_drop_bit k w) j = bit w (if 16 - k \<le> j \<and> j < 16 then 15 else k + j)"
    by (simp add: bit_signed_drop_bit_iff)
  moreover have "bit w (k + j) \<Longrightarrow> j < 16 \<and> \<not> 16 - k \<le> j" using bit_imp_le_length [of w "k + j"] by auto
  ultimately show ?thesis by (auto simp only: add.commute split: if_splits)
qed

text \<open>RLC; SBB A spreads the sign of A over A.\<close>

lemma bit_minus_1_byte: "bit (- 1 :: byte) j \<longleftrightarrow> j < 8"
  by simp

lemma splat_bits: "j < 8 \<Longrightarrow> bit (b - b - of_bool cy :: byte) j = cy"
  by (cases cy) simp_all

lemma run_splat:
  "\<exists>t. run env [ROTi RLC, ALU SBB A] s = cont t \<and> (\<forall>j<8. bit (r8 t A) j = bit (r8 s A) 7)
    \<and> r8 t A = (if bit (r8 s A) 7 then - 1 else 0) \<and> unchanged {A, FLAGS} {} s t"
proof -
  let ?t = "aluA SBB (rlc (r8 s A)) (setCY (bit (r8 s A) 7) (setR A (rlc (r8 s A)) s))"
  have "run env [ROTi RLC, ALU SBB A] s = cont ?t" by (simp add: exec_simps)
  moreover have "\<forall>j<8. bit (r8 ?t A) j = bit (r8 s A) 7" by (simp add: splat_bits)
  moreover have "r8 ?t A = (if bit (r8 s A) 7 then - 1 else 0)" by simp
  moreover have "unchanged {A, FLAGS} {} s ?t" by (simp add: unchanged_code)
  ultimately show ?thesis by blast
qed

lemma expand_SRL16_24BIT_run:
  assumes "GR16 Dst" "GR16 Src" "0 < k" "k \<le> 8"
  shows "\<exists>t. run env (expand_SRL16_24BIT c Dst Src k) s = cont t \<and> getP Dst t = drop_bit k (getP Src s)
    \<and> unchanged (units Dst \<union> {FLAGS} \<union> {A} \<union> dead_regs (after c) (succLiveIns c)) (below_sp s) s t"
  unfolding expand_SRL16_24BIT_def
proof (rule shift24_run [OF assms _ bit_drop16])
  fix u
  show "\<exists>v. run env [ALU XRA A] u = cont v \<and> (\<forall>j<8. bit (r8 v A) j = False) \<and> unchanged {A, FLAGS} {} u v"
    by (simp add: exec_simps unchanged_code Let_def)
qed

lemma expand_SRA16_24BIT_run:
  assumes "GR16 Dst" "GR16 Src" "0 < k" "k \<le> 8"
  shows "\<exists>t. run env (expand_SRA16_24BIT c Dst Src k) s = cont t \<and> getP Dst t = signed_drop_bit k (getP Src s)
    \<and> unchanged (units Dst \<union> {FLAGS} \<union> {A} \<union> dead_regs (after c) (succLiveIns c)) (below_sp s) s t"
  unfolding expand_SRA16_24BIT_def
proof (rule shift24_run [OF assms _ bit_signed_drop16])
  fix u assume HL: "getP HL u = getP Src s"
  obtain v where v: "run env [ROTi RLC, ALU SBB A] (setR A (r8 u H) u) = cont v"
    "\<forall>j<8. bit (r8 v A) j = bit (r8 u H) 7" "unchanged {A, FLAGS} {} (setR A (r8 u H) u) v"
    using run_splat [of env "setR A (r8 u H) u"] by auto
  have "bit (r8 u H) 7 = bit (getP Src s) 15" using HL [symmetric] by (simp add: bit_mk16)
  moreover have "unchanged {A, FLAGS} {} u (setR A (r8 u H) u)" by (simp add: unchanged_code)
  moreover have "run env [MOV A H, ROTi RLC, ALU SBB A] u = cont v"
    by (subst run.simps(2)) (simp add: exec_shapes v(1) del: run.simps(2))
  ultimately show "\<exists>v. run env [MOV A H, ROTi RLC, ALU SBB A] u = cont v
      \<and> (\<forall>j<8. bit (r8 v A) j = bit (getP Src s) 15) \<and> unchanged {A, FLAGS} {} u v"
    using v(2,3) unchanged_trans by metis
qed

section \<open>Whole bytes and the rotated byte\<close>

lemma shift8: "mk16 0 (hi8 w) = drop_bit 8 w"
  "mk16 (if bit (hi8 w) 7 then - 1 else 0) (hi8 w) = signed_drop_bit 8 w"
proof -
  show "mk16 0 (hi8 w) = drop_bit 8 w"
    by (rule bit_word_eqI) (auto simp: bit_mk16 bit_drop16 bit_hi8 add.commute)
  show "mk16 (if bit (hi8 w) 7 then - 1 else 0) (hi8 w) = signed_drop_bit 8 w"
  proof (rule bit_word_eqI)
    fix j assume "j < LENGTH(16)"
    then have "j < 16" by simp
    moreover have "bit (if bit (hi8 w) 7 then - 1 else 0 :: byte) i \<longleftrightarrow> i < 8 \<and> bit w 15" for i
      by (simp add: bit_hi8)
    moreover have "8 \<le> j \<longleftrightarrow> \<not> j < 8" "j < 16 \<Longrightarrow> j - 8 < 8" by linarith+
    ultimately show "bit (mk16 (if bit (hi8 w) 7 then - 1 else 0) (hi8 w)) j = bit (signed_drop_bit 8 w) j"
      unfolding bit_mk16 bit_signed_drop16 by (simp add: bit_hi8 add.commute)
  qed
qed

lemma bit_signed_drop8: "bit (signed_drop_bit k (x :: byte)) j
    \<longleftrightarrow> j < 8 \<and> (if 8 - k \<le> j then bit x 7 else bit x (j + k))"
proof -
  have "bit (signed_drop_bit k x) j = bit x (if 8 - k \<le> j \<and> j < 8 then 7 else k + j)"
    by (simp add: bit_signed_drop_bit_iff)
  moreover have "bit x (k + j) \<Longrightarrow> j < 8 \<and> \<not> 8 - k \<le> j" using bit_byte_less [of x "k + j"] by auto
  ultimately show ?thesis by (auto simp only: add.commute split: if_splits)
qed

lemma shift_9_15:
  "mk16 0 (drop_bit k (hi8 w)) = drop_bit (8 + k) w"
  "k \<le> 7 \<Longrightarrow> mk16 (if bit (hi8 w) 7 then - 1 else 0) (signed_drop_bit k (hi8 w)) = signed_drop_bit (8 + k) w"
proof -
  show "mk16 0 (drop_bit k (hi8 w)) = drop_bit (8 + k) w"
  proof (rule bit_word_eqI)
    fix j assume "j < LENGTH(16)"
    have "8 \<le> j \<Longrightarrow> \<not> bit w (8 + k + j)" using bit_imp_le_length [of w "8 + k + j"] by auto
    moreover have "j < 8 \<Longrightarrow> \<not> k + j < 8 \<Longrightarrow> \<not> bit w (8 + k + j)"
      using bit_imp_le_length [of w "8 + k + j"] by auto
    ultimately show "bit (mk16 0 (drop_bit k (hi8 w))) j = bit (drop_bit (8 + k) w) j"
      by (auto simp: bit_mk16 bit_drop_bit_eq bit_hi8 ac_simps)
  qed
  assume k: "k \<le> 7"
  show "mk16 (if bit (hi8 w) 7 then - 1 else 0) (signed_drop_bit k (hi8 w)) = signed_drop_bit (8 + k) w"
  proof (rule bit_word_eqI)
    fix j assume "j < LENGTH(16)"
    then have j: "j < 16" by simp
    have sg: "bit (if bit (hi8 w) 7 then - 1 else 0 :: byte) i \<longleftrightarrow> i < 8 \<and> bit w 15" for i
      by (simp add: bit_hi8)
    have ar: "16 - (8 + k) = 8 - k" "\<not> j < 8 \<Longrightarrow> 8 - k \<le> j \<and> j - 8 < 8" "j + (8 + k) = j + k + 8"
      "\<not> 8 - k \<le> j \<Longrightarrow> j + k < 8" using j k by linarith+
    show "bit (mk16 (if bit (hi8 w) 7 then - 1 else 0) (signed_drop_bit k (hi8 w))) j
        = bit (signed_drop_bit (8 + k) w) j"
      unfolding bit_mk16 bit_signed_drop16 bit_signed_drop8 sg ar(1,3) bit_hi8 using j ar(2,4) by auto
  qed
qed

text \<open>The rotated byte under its mask is the byte shifted down.\<close>

definition shift_byte :: "preg \<Rightarrow> nat \<Rightarrow> machine_instr list" where
  "shift_byte r k = [MOV A r] @ rotate_tail k @ [ANIi (2 ^ (8 - k) - 1)]"

lemma run_shift_byte:
  assumes "k \<le> 8"
  shows "\<exists>t. run env (shift_byte r k) s = cont t \<and> r8 t A = drop_bit k (r8 s r) \<and> unchanged {A, FLAGS} {} s t"
proof -
  let ?u = "setR A (r8 s r) s"
  have u: "unchanged {A, FLAGS} {} s ?u" by (simp add: unchanged_code)
  obtain v where v: "run env (rotate_tail k) ?u = cont v"
    "\<forall>j. bit (r8 v A) j = (j < 8 \<and> bit (r8 s r) ((j + k) mod 8))" "unchanged {A, FLAGS} {} ?u v"
    using run_rotate_tail [OF assms, of env ?u] by auto
  let ?t = "aluA ANA (word_of_int (2 ^ (8 - k) - 1)) v"
  have "run env (shift_byte r k) s = cont ?t"
    using v(1) by (simp add: shift_byte_def exec_simps run_append)
  moreover have "r8 ?t A = drop_bit k (r8 s r)"
  proof (rule bit_word_eqI)
    fix j assume "j < LENGTH(8)"
    then have j: "j < 8" by simp
    have "bit (word_of_int (2 ^ (8 - k) - 1) :: byte) j \<longleftrightarrow> j < 8 - k"
      using j by (simp add: bit_word_of_int_iff bit_mask_iff flip: mask_eq_exp_minus_1)
    moreover have "j < 8 - k \<Longrightarrow> (j + k) mod 8 = k + j" by simp
    moreover have "\<not> j < 8 - k \<Longrightarrow> \<not> bit (r8 s r) (k + j)" using bit_byte_less [of "r8 s r" "k + j"] by linarith
    moreover have "r8 ?t A = r8 v A AND word_of_int (2 ^ (8 - k) - 1)" by (simp add: Let_def)
    moreover have "bit (r8 v A) j = bit (r8 s r) ((j + k) mod 8)" using v(2) j by simp
    ultimately show "bit (r8 ?t A) j = bit (drop_bit k (r8 s r)) j"
      by (simp only: bit_and_iff bit_drop_bit_eq comp_apply) (cases "j < 8 - k"; simp add: add.commute)
  qed
  moreover have "unchanged {A, FLAGS} {} v ?t" by (simp add: unchanged_code)
  ultimately show ?thesis using u v(3) unchanged_trans by blast
qed

lemma sign_fill:
  assumes "k \<le> 8"
  shows "(if bit x 7 then - 1 else 0) AND word_of_int ((0xFF * 2 ^ (8 - k)) mod 256) OR drop_bit k x
    = signed_drop_bit k (x :: byte)"
proof (rule bit_word_eqI)
  fix j assume "j < LENGTH(8)"
  then have j: "j < 8" by simp
  have "(0xFF :: int) * 2 ^ (8 - k) = push_bit (8 - k) (mask 8)"
    by (simp add: push_bit_eq_mult mask_eq_exp_minus_1)
  then have "bit (word_of_int ((0xFF * 2 ^ (8 - k)) mod 256) :: byte) j \<longleftrightarrow> 8 - k \<le> j"
    using j by (simp only: word_of_int_mod_byte) (auto simp: bit_word_of_int_iff bit_push_bit_iff bit_mask_iff)
  moreover have "8 - k \<le> j \<Longrightarrow> \<not> bit x (k + j)" using bit_byte_less [of x "k + j"] assms by linarith
  ultimately show "bit ((if bit x 7 then - 1 else 0) AND word_of_int ((0xFF * 2 ^ (8 - k)) mod 256)
      OR drop_bit k x) j = bit (signed_drop_bit k x) j"
    using j by (auto simp: bit_or_iff bit_and_iff bit_drop_bit_eq bit_signed_drop8 add.commute)
qed

section \<open>The whole expansions\<close>

lemma expand_SRL16_short_runs:
  assumes "GR16 Dst" "GR16 Src"
  shows "\<exists>t. run env (expand_SRL16_BYTE Dst Src) s = cont t \<and> getP Dst t = drop_bit 8 (getP Src s)
      \<and> unchanged (units Dst) {} s t"
    and "9 \<le> k \<Longrightarrow> k \<le> 15 \<Longrightarrow> \<exists>t. run env (expand_SRL16_RAM_LO Dst Src k) s = cont t
      \<and> getP Dst t = drop_bit k (getP Src s) \<and> unchanged (units Dst \<union> {A, FLAGS}) {} s t"
proof -
  have w: "mk16 0 (r8 s (subHi Src)) = drop_bit 8 (getP Src s)"
    using assms(2) shift8(1) [of "getP Src s"] by (elim GR16_cases) simp_all
  show "\<exists>t. run env (expand_SRL16_BYTE Dst Src) s = cont t \<and> getP Dst t = drop_bit 8 (getP Src s)
      \<and> unchanged (units Dst) {} s t"
    unfolding w [symmetric] using assms
    by (elim GR16_cases) (auto simp: expand_SRL16_BYTE_def exec_simps unchanged_code lo8_word_of_int)
  assume k: "9 \<le> k" "k \<le> 15"
  then have n: "k - 8 \<le> 8" "16 - k = 8 - (k - 8)" "8 + (k - 8) = k" by linarith+
  obtain v where v: "run env (shift_byte (subHi Src) (k - 8)) s = cont v"
    "r8 v A = drop_bit (k - 8) (r8 s (subHi Src))" "unchanged {A, FLAGS} {} s v"
    using run_shift_byte [OF n(1)] by blast
  have "mk16 0 (r8 v A) = drop_bit k (getP Src s)"
    using assms(2) v(2) shift_9_15(1) [of "k - 8" "getP Src s"] n(3) by (elim GR16_cases) simp_all
  moreover have "expand_SRL16_RAM_LO Dst Src k
      = shift_byte (subHi Src) (k - 8) @ [MOV (subLo Dst) A, MVI (subHi Dst) 0]"
    by (simp add: expand_SRL16_RAM_LO_def shift_byte_def n(2))
  moreover have "run env (shift_byte (subHi Src) (k - 8) @ [MOV (subLo Dst) A, MVI (subHi Dst) 0]) s
      = cont (setR (subHi Dst) 0 (setR (subLo Dst) (r8 v A) v))"
    using v(1) assms(1) by (elim GR16_cases) (simp_all add: run_append exec_shapes lo8_word_of_int)
  moreover have "unchanged (units Dst \<union> {A, FLAGS}) {} s (setR (subHi Dst) 0 (setR (subLo Dst) (r8 v A) v))"
    using assms(1) v(3) by (elim GR16_cases) (auto simp: unchanged_code)
  ultimately show "\<exists>t. run env (expand_SRL16_RAM_LO Dst Src k) s = cont t
      \<and> getP Dst t = drop_bit k (getP Src s) \<and> unchanged (units Dst \<union> {A, FLAGS}) {} s t"
    using assms(1) by (elim GR16_cases) auto
qed

lemma expand_SRA16_BYTE_run:
  assumes "GR16 Dst" "GR16 Src"
  shows "\<exists>t. run env (expand_SRA16_BYTE Dst Src) s = cont t \<and> getP Dst t = signed_drop_bit 8 (getP Src s)
      \<and> unchanged (units Dst \<union> {A, FLAGS}) {} s t"
proof -
  have w: "mk16 (if bit (r8 s (subHi Src)) 7 then - 1 else 0) (r8 s (subHi Src)) = signed_drop_bit 8 (getP Src s)"
    using assms(2) shift8(2) [of "getP Src s"] by (elim GR16_cases) simp_all
  show ?thesis unfolding w [symmetric] using assms
    by (elim GR16_cases) (auto simp: expand_SRA16_BYTE_def exec_simps unchanged_code)
qed

lemma sra_bytes:
  "rar x (bit x 7) = signed_drop_bit 1 x" "(if bit x 7 then - 1 else 0) = signed_drop_bit 7 (x :: byte)"
proof -
  show "rar x (bit x 7) = signed_drop_bit 1 x"
    by (rule bit_word_eqI) (auto simp: bit_rar bit_signed_drop8)
  show "(if bit x 7 then - 1 else 0) = signed_drop_bit 7 x"
    by (rule bit_word_eqI) (auto simp: bit_signed_drop8 less_8_cases)
qed

text \<open>The sign-filled tail of the general amounts, after the shifted byte is in the low half.\<close>

definition sign_tail :: "bool \<Rightarrow> preg \<Rightarrow> preg \<Rightarrow> nat \<Rightarrow> machine_instr list" where
  "sign_tail DstHiDead r q k = [MOV A (subHi q), ROTi RLC, ALU SBB A]
     @ (if \<not> DstHiDead then [MOV (subHi r) A] else [])
     @ [ANIi ((0xFF * 2 ^ (8 - k)) mod 256), ALU ORA (subLo r), MOV (subLo r) A]"

lemma run_sign_tail:
  assumes "GR16 r" "GR16 q" "k \<le> 8" "r8 s (subLo r) = drop_bit k (r8 s (subHi q))"
  shows "\<exists>t. run env (sign_tail dead r q k) s = cont t
    \<and> r8 t (subLo r) = signed_drop_bit k (r8 s (subHi q))
    \<and> (\<not> dead \<longrightarrow> r8 t (subHi r) = (if bit (r8 s (subHi q)) 7 then - 1 else 0))
    \<and> unchanged ({subLo r, A, FLAGS} \<union> (if dead then {} else {subHi r})) {} s t"
proof -
  let ?x = "r8 s (subHi q)"
  obtain v where v: "run env [ROTi RLC, ALU SBB A] (setR A ?x s) = cont v"
    "r8 v A = (if bit ?x 7 then - 1 else 0)" "unchanged {A, FLAGS} {} (setR A ?x s) v"
    using run_splat [of env "setR A ?x s"] by auto
  let ?w = "if dead then v else setR (subHi r) (r8 v A) v"
  let ?m = "word_of_int ((0xFF * 2 ^ (8 - k)) mod 256)"
  let ?t = "aluA ORA (r8 ?w (subLo r)) (aluA ANA ?m ?w)"
  have ne: "A \<noteq> subLo r" "A \<noteq> subHi r" "subLo r \<noteq> subHi r" "subHi q \<noteq> A" "GR8 (subLo r)"
    using assms(1,2) by (elim GR16_cases; simp)+
  have lo: "r8 ?w (subLo r) = drop_bit k ?x" "r8 ?w A = (if bit ?x 7 then - 1 else 0)"
    using v(2,3) ne assms(4) by (auto simp: unchanged_def)
  have keep: "r8 (aluA op b u) (subLo r) = r8 u (subLo r)" for op b u using ne by simp
  have "sign_tail dead r q k = [MOV A (subHi q)] @ [ROTi RLC, ALU SBB A]
      @ (if dead then [] else [MOV (subHi r) A]) @ [ANIi ((0xFF * 2 ^ (8 - k)) mod 256), ALU ORA (subLo r), MOV (subLo r) A]"
    by (simp add: sign_tail_def)
  moreover have "run env ((if dead then [] else [MOV (subHi r) A])
      @ [ANIi ((0xFF * 2 ^ (8 - k)) mod 256), ALU ORA (subLo r), MOV (subLo r) A]) v
      = cont (setR (subLo r) (r8 ?t A) ?t)"
    by (cases dead) (simp_all add: exec_simps keep del: r8_simps)
  ultimately have "run env (sign_tail dead r q k) s = cont (setR (subLo r) (r8 ?t A) ?t)"
    using v(1) by (simp only: run_append) (simp add: exec_shapes del: r8_simps)
  moreover have "r8 ?t A = signed_drop_bit k ?x"
    using sign_fill [OF assms(3), of ?x] lo by (simp only: r8_simps alu.simps Let_def fst_conv if_True refl)
  moreover have "\<not> dead \<longrightarrow> r8 (setR (subLo r) (r8 ?t A) ?t) (subHi r) = (if bit ?x 7 then - 1 else 0)"
    using ne v(2) by simp
  moreover have "unchanged ({subLo r, A, FLAGS} \<union> (if dead then {} else {subHi r})) {} s (setR (subLo r) (r8 ?t A) ?t)"
  proof -
    have "unchanged {A, FLAGS} {} s v"
      by (rule unchanged_trans [OF _ v(3)]) (simp add: unchanged_code)
    then have "unchanged ({subLo r, A, FLAGS} \<union> (if dead then {} else {subHi r})) {} s v"
      by (rule unchanged_mono) auto
    moreover have "unchanged ({subLo r, A, FLAGS} \<union> (if dead then {} else {subHi r})) {} v (setR (subLo r) (r8 ?t A) ?t)"
      by (auto simp: unchanged_def)
    ultimately show ?thesis by (rule unchanged_trans)
  qed
  ultimately show ?thesis by (intro exI [of _ "setR (subLo r) (r8 ?t A) ?t"]) simp
qed

lemma expand_SRA16_RAM_LO_run:
  fixes c Dst
  defines "dead \<equiv> isRegDeadAfter (after c) (succLiveIns c) (subHi Dst)"
  assumes "GR16 Dst" "GR16 Src" "9 \<le> k" "k \<le> 15"
  shows "\<exists>t. run env (expand_SRA16_RAM_LO c Dst Src k) s = cont t
    \<and> r8 t (subLo Dst) = signed_drop_bit (k - 8) (r8 s (subHi Src))
    \<and> (\<not> dead \<longrightarrow> r8 t (subHi Dst) = (if bit (r8 s (subHi Src)) 7 then - 1 else 0))
    \<and> unchanged ({subLo Dst, A, FLAGS} \<union> (if dead then {} else {subHi Dst})) {} s t"
proof -
  consider "k - 8 = 1" | "k - 8 = 7" | "k - 8 \<noteq> 1" "k - 8 \<noteq> 7" "k - 8 \<le> 8" using assms(5) by linarith
  then show ?thesis
  proof cases
    case 1
    show ?thesis unfolding expand_SRA16_RAM_LO_def Let_def 1 dead_def [symmetric] sra_bytes(1) [symmetric]
      using assms(2,3) by (cases dead; elim GR16_cases; simp add: exec_simps unchanged_code)
  next
    case 2
    show ?thesis unfolding expand_SRA16_RAM_LO_def Let_def 2 dead_def [symmetric] sra_bytes(2) [symmetric]
      using assms(2,3) by (cases dead; elim GR16_cases; simp add: exec_simps unchanged_code)
  next
    case 3
    obtain v where v: "run env (shift_byte (subHi Src) (k - 8)) s = cont v"
      "r8 v A = drop_bit (k - 8) (r8 s (subHi Src))" "unchanged {A, FLAGS} {} s v"
      using run_shift_byte [OF 3(3)] by blast
    let ?u = "setR (subLo Dst) (r8 v A) v"
    have q: "r8 ?u (subHi Src) = r8 s (subHi Src)"
      using assms(2,3) v(3) by (elim GR16_cases) (auto simp: unchanged_def)
    have lo: "r8 ?u (subLo Dst) = drop_bit (k - 8) (r8 ?u (subHi Src))" unfolding q using v(2) by simp
    obtain t where t: "run env (sign_tail dead Dst Src (k - 8)) ?u = cont t"
      "r8 t (subLo Dst) = signed_drop_bit (k - 8) (r8 s (subHi Src))"
      "\<not> dead \<longrightarrow> r8 t (subHi Dst) = (if bit (r8 s (subHi Src)) 7 then - 1 else 0)"
      "unchanged ({subLo Dst, A, FLAGS} \<union> (if dead then {} else {subHi Dst})) {} ?u t"
      using run_sign_tail [OF assms(2,3) 3(3) lo, of env dead] unfolding q by blast
    have "expand_SRA16_RAM_LO c Dst Src k
        = shift_byte (subHi Src) (k - 8) @ [MOV (subLo Dst) A] @ sign_tail dead Dst Src (k - 8)"
      using 3 by (simp add: expand_SRA16_RAM_LO_def Let_def shift_byte_def sign_tail_def dead_def)
    then have "run env (expand_SRA16_RAM_LO c Dst Src k) s = cont t"
      using v(1) t(1) by (simp add: run_append exec_shapes)
    moreover have "unchanged ({subLo Dst, A, FLAGS} \<union> (if dead then {} else {subHi Dst})) {} s ?u"
      using v(3) by (auto simp: unchanged_def)
    ultimately show ?thesis using t(2,3) unchanged_trans [OF _ t(4)] by blast
  qed
qed

lemma expand_SRL16_run:
  assumes "GR16 Dst" "GR16 Src"
  shows "((priorClearsCarry (before c) \<longrightarrow> \<not> fCY (fl s))
      \<longrightarrow> (\<exists>t. run env (expand_SRL16_RAR c Dst Src k) s = cont t \<and> getP Dst t = drop_bit k (getP Src s)
        \<and> unchanged (units Dst \<union> {A, FLAGS}) {} s t))
    \<and> (0 < k \<and> k \<le> 8 \<longrightarrow> (\<exists>t. run env (expand_SRL16_24BIT c Dst Src k) s = cont t
        \<and> getP Dst t = drop_bit k (getP Src s)
        \<and> unchanged (units Dst \<union> {FLAGS} \<union> {A} \<union> dead_regs (after c) (succLiveIns c)) (below_sp s) s t))
    \<and> (\<exists>t. run env (expand_SRL16_BYTE Dst Src) s = cont t \<and> getP Dst t = drop_bit 8 (getP Src s)
        \<and> unchanged (units Dst) {} s t)
    \<and> (9 \<le> k \<and> k \<le> 15 \<longrightarrow> (\<exists>t. run env (expand_SRL16_RAM_LO Dst Src k) s = cont t
        \<and> getP Dst t = drop_bit k (getP Src s) \<and> unchanged (units Dst \<union> {A, FLAGS}) {} s t))"
  by (intro conjI impI expand_SRL16_RAR_run expand_SRL16_24BIT_run expand_SRL16_short_runs assms; simp)

text \<open>
  C12.  The logical right shifts divide by the power of two: through the carry for any amount, by the
  24-bit form for up to eight, by a byte move for eight, and in A for nine to fifteen.  The first
  form relies on \<open>priorClearsCarry\<close> telling the truth about the carry at the pseudo.
\<close>

theorem expand_SRL16_correct:
  assumes "GR16 Dst" "GR16 Src"
  shows "((priorClearsCarry (before c) \<longrightarrow> \<not> fCY (fl s))
      \<longrightarrow> (\<exists>t. run env (expand_SRL16_RAR c Dst Src k) s = cont t \<and> getP Dst t = drop_bit k (getP Src s)
        \<and> unchanged (units Dst \<union> {A, FLAGS}) {} s t))
    \<and> (0 < k \<and> k \<le> 8 \<longrightarrow> (\<exists>t. run env (expand_SRL16_24BIT c Dst Src k) s = cont t
        \<and> getP Dst t = drop_bit k (getP Src s)
        \<and> unchanged (units Dst \<union> {FLAGS} \<union> {A} \<union> dead_regs (after c) (succLiveIns c)) (below_sp s) s t))
    \<and> (\<exists>t. run env (expand_SRL16_BYTE Dst Src) s = cont t \<and> getP Dst t = drop_bit 8 (getP Src s)
        \<and> unchanged (units Dst) {} s t)
    \<and> (9 \<le> k \<and> k \<le> 15 \<longrightarrow> (\<exists>t. run env (expand_SRL16_RAM_LO Dst Src k) s = cont t
        \<and> getP Dst t = drop_bit k (getP Src s) \<and> unchanged (units Dst \<union> {A, FLAGS}) {} s t))"
  using assms by (rule expand_SRL16_run)

theorem expand_SRL16_correct_witness:
  "\<forall>c env s. (\<exists>t. run env (expand_SRL16_24BIT c BC DE 5) s = cont t \<and> getP BC t = drop_bit 5 (getP DE s))
    \<and> (\<exists>t. run env (expand_SRL16_RAM_LO HL DE 12) s = cont t \<and> getP HL t = drop_bit 12 (getP DE s))"
proof (intro allI conjI)
  fix c env s
  show "\<exists>t. run env (expand_SRL16_24BIT c BC DE 5) s = cont t \<and> getP BC t = drop_bit 5 (getP DE s)"
    using expand_SRL16_correct [of BC DE c s env 5] by (auto simp del: getP.simps)
  show "\<exists>t. run env (expand_SRL16_RAM_LO HL DE 12) s = cont t \<and> getP HL t = drop_bit 12 (getP DE s)"
    using expand_SRL16_correct [of HL DE c s env 12] by (auto simp del: getP.simps)
qed

lemma expand_SRA16_run:
  assumes "GR16 Dst" "GR16 Src"
  shows "(\<exists>t. run env (expand_SRA16_RAR Dst Src k) s = cont t \<and> getP Dst t = signed_drop_bit k (getP Src s)
        \<and> unchanged (units Dst \<union> {A, FLAGS}) {} s t)
    \<and> (0 < k \<and> k \<le> 8 \<longrightarrow> (\<exists>t. run env (expand_SRA16_24BIT c Dst Src k) s = cont t
        \<and> getP Dst t = signed_drop_bit k (getP Src s)
        \<and> unchanged (units Dst \<union> {FLAGS} \<union> {A} \<union> dead_regs (after c) (succLiveIns c)) (below_sp s) s t))
    \<and> (\<exists>t. run env (expand_SRA16_BYTE Dst Src) s = cont t \<and> getP Dst t = signed_drop_bit 8 (getP Src s)
        \<and> unchanged (units Dst \<union> {A, FLAGS}) {} s t)
    \<and> (9 \<le> k \<and> k \<le> 15 \<longrightarrow> (\<exists>t. run env (expand_SRA16_RAM_LO c Dst Src k) s = cont t
        \<and> r8 t (subLo Dst) = lo8 (signed_drop_bit k (getP Src s))
        \<and> (isRegDeadAfter (after c) (succLiveIns c) (subHi Dst) \<or> getP Dst t = signed_drop_bit k (getP Src s))
        \<and> unchanged (units Dst \<union> {A, FLAGS}) {} s t))"
proof (intro conjI impI expand_SRA16_RAR_run expand_SRA16_24BIT_run expand_SRA16_BYTE_run assms)
  assume k: "9 \<le> k \<and> k \<le> 15"
  let ?dead = "isRegDeadAfter (after c) (succLiveIns c) (subHi Dst)" and ?x = "r8 s (subHi Src)"
  obtain t where t: "run env (expand_SRA16_RAM_LO c Dst Src k) s = cont t"
    "r8 t (subLo Dst) = signed_drop_bit (k - 8) ?x"
    "\<not> ?dead \<longrightarrow> r8 t (subHi Dst) = (if bit ?x 7 then - 1 else 0)"
    "unchanged ({subLo Dst, A, FLAGS} \<union> (if ?dead then {} else {subHi Dst})) {} s t"
    using expand_SRA16_RAM_LO_run [OF assms, of k env c s] k by blast
  have "k - 8 \<le> 7" "8 + (k - 8) = k" using k by linarith+
  then have w: "mk16 (if bit ?x 7 then - 1 else 0) (signed_drop_bit (k - 8) ?x) = signed_drop_bit k (getP Src s)"
    using assms(2) shift_9_15(2) [of "k - 8" "getP Src s"] by (elim GR16_cases) simp_all
  moreover have "unchanged (units Dst \<union> {A, FLAGS}) {} s t"
    using t(4) by (rule unchanged_mono) (use assms(1) in \<open>elim GR16_cases; auto\<close>)+
  ultimately show "\<exists>t. run env (expand_SRA16_RAM_LO c Dst Src k) s = cont t
      \<and> r8 t (subLo Dst) = lo8 (signed_drop_bit k (getP Src s))
      \<and> (?dead \<or> getP Dst t = signed_drop_bit k (getP Src s)) \<and> unchanged (units Dst \<union> {A, FLAGS}) {} s t"
    using t(1-3) assms(1) unfolding w [symmetric]
    by (intro exI [of _ t]) (elim GR16_cases; auto)
qed simp_all

text \<open>
  C11.  The arithmetic right shifts divide rounding down, in the same forms.  For nine to fifteen the
  high byte is left out when the scan finds it dead; then only the low byte is promised.
\<close>

theorem expand_SRA16_correct:
  assumes "GR16 Dst" "GR16 Src"
  shows "(\<exists>t. run env (expand_SRA16_RAR Dst Src k) s = cont t \<and> getP Dst t = signed_drop_bit k (getP Src s)
        \<and> unchanged (units Dst \<union> {A, FLAGS}) {} s t)
    \<and> (0 < k \<and> k \<le> 8 \<longrightarrow> (\<exists>t. run env (expand_SRA16_24BIT c Dst Src k) s = cont t
        \<and> getP Dst t = signed_drop_bit k (getP Src s)
        \<and> unchanged (units Dst \<union> {FLAGS} \<union> {A} \<union> dead_regs (after c) (succLiveIns c)) (below_sp s) s t))
    \<and> (\<exists>t. run env (expand_SRA16_BYTE Dst Src) s = cont t \<and> getP Dst t = signed_drop_bit 8 (getP Src s)
        \<and> unchanged (units Dst \<union> {A, FLAGS}) {} s t)
    \<and> (9 \<le> k \<and> k \<le> 15 \<longrightarrow> (\<exists>t. run env (expand_SRA16_RAM_LO c Dst Src k) s = cont t
        \<and> r8 t (subLo Dst) = lo8 (signed_drop_bit k (getP Src s))
        \<and> (isRegDeadAfter (after c) (succLiveIns c) (subHi Dst) \<or> getP Dst t = signed_drop_bit k (getP Src s))
        \<and> unchanged (units Dst \<union> {A, FLAGS}) {} s t))"
  using assms by (rule expand_SRA16_run)

theorem expand_SRA16_correct_witness:
  "\<forall>c env s. (\<exists>t. run env (expand_SRA16_24BIT c HL HL 4) s = cont t \<and> getP HL t = signed_drop_bit 4 (getP HL s))
    \<and> (\<exists>t. run env (expand_SRA16_RAM_LO c DE BC 13) s = cont t
          \<and> r8 t E = lo8 (signed_drop_bit 13 (getP BC s)))"
proof (intro allI conjI)
  fix c env s
  show "\<exists>t. run env (expand_SRA16_24BIT c HL HL 4) s = cont t \<and> getP HL t = signed_drop_bit 4 (getP HL s)"
    using expand_SRA16_correct [of HL HL env 4 s c] by (auto simp del: getP.simps)
  show "\<exists>t. run env (expand_SRA16_RAM_LO c DE BC 13) s = cont t
      \<and> r8 t E = lo8 (signed_drop_bit 13 (getP BC s))"
    using expand_SRA16_correct [of DE BC env 13 s c] by (auto simp del: getP.simps)
qed

lemma rotl_bytes:
  "mk16 (hi8 (push_bit 1 w)) (lo8 (push_bit 1 w) + of_bool (bit w 15)) = word_rotl 1 (w :: u16)"
proof -
  have pb: "bit (push_bit 1 w) n \<longleftrightarrow> 0 < n \<and> n < 16 \<and> bit w (n - 1)" for n
    unfolding bit_push_bit_iff using bit_imp_le_length [of w "n - 1"] by (auto simp: Suc_le_eq)
  have "lo8 (push_bit 1 w) = 2 * lo8 w"
  proof (rule bit_word_eqI)
    fix n assume "n < LENGTH(8)"
    then have "n < 8" "n < 16" "n - 1 < 8" by simp_all
    then show "bit (lo8 (push_bit 1 w)) n = bit (2 * lo8 w) n"
      unfolding bit_lo8 bit_twice pb by auto
  qed
  then have a: "bit (lo8 (push_bit 1 w) + of_bool (bit w 15)) j
      \<longleftrightarrow> j < 8 \<and> (if j = 0 then bit w 15 else bit w (j - 1))" for j
    using bit_twice [of "lo8 w" j] by (cases "bit w 15") (auto simp: bit_lo8)
  show ?thesis
  proof (rule bit_word_eqI)
    fix j assume "j < LENGTH(16)"
    then have "j < 16" "(j + 15) mod 16 = (if j = 0 then 15 else j - 1)"
      by (simp, cases j) simp_all
    then show "bit (mk16 (hi8 (push_bit 1 w)) (lo8 (push_bit 1 w) + of_bool (bit w 15))) j = bit (word_rotl 1 w) j"
      unfolding bit_mk16 bit_hi8 a pb by (auto simp: bit_word_rotl_iff)
  qed
qed

text \<open>The rotation of HL by one carries the top bit round to the bottom.\<close>

theorem expand_ROTL16_1_correct:
  "\<exists>t. run env expand_ROTL16_1 s = cont t \<and> getP HL t = word_rotl 1 (getP HL s)
    \<and> unchanged {A, H, L, FLAGS} {} s t"
proof -
  let ?u = "dad (getP HL s) s"
  let ?a = "0 + r8 ?u L + of_bool (fCY (fl ?u))"
  have "run env expand_ROTL16_1 s = cont (setR L ?a (aluA ADC (r8 ?u L) (setR A 0 ?u)))"
    by (simp add: expand_ROTL16_1_def exec_simps lo8_word_of_int del: getP.simps)
  moreover have "mk16 (r8 ?u H) ?a = word_rotl 1 (getP HL s)"
  proof -
    have u: "r8 ?u H = hi8 (push_bit 1 (getP HL s))" "r8 ?u L = lo8 (push_bit 1 (getP HL s))"
      unfolding dad_self(1) [symmetric] by simp_all
    show ?thesis unfolding u dad_self(2) by (simp only: rotl_bytes add_0)
  qed
  ultimately show ?thesis by (intro exI [of _ "setR L ?a (aluA ADC (r8 ?u L) (setR A 0 ?u))"])
     (simp add: unchanged_code dad_def)
qed

end
