(* ===== verification/ExpandMem8.thy ===== *)
theory ExpandMem8
  imports Emit
begin

text \<open>
  \<open>expandPostRAPseudo\<close>, sixth part: the byte accesses through a pointer pair.  The address is in
  HL, DE or BC; what the expansion may clobber is decided by the dead scans.  The locale
  \<open>mem_op\<close> is the contract of the instruction that \<open>expandMemOpM\<close> wraps.
\<close>

section \<open>Instructions\<close>

definition MOVrMi :: "preg \<Rightarrow> machine_instr" where
  "MOVrMi d = BuildMI MOVrM [addRegDef d]"

definition MOVMri :: "preg \<Rightarrow> machine_instr" where
  "MOVMri r = BuildMI MOVMr [addReg r]"

definition LDAXi :: "preg \<Rightarrow> machine_instr" where
  "LDAXi p = BuildMI LDAX [addRegDef A, addReg p]"

definition STAXi :: "preg \<Rightarrow> machine_instr" where
  "STAXi p = BuildMI STAX [addReg A, addReg p]"

definition MVIMi :: "int \<Rightarrow> machine_instr" where
  "MVIMi i = BuildMI MVIM [addImm i]"

text \<open>The PUSH H / POP H envelope with the explicit marks for SP.\<close>

definition saveHL :: machine_instr where
  "saveHL = BuildMI PUSH [addRegKill HL True, addRegImplicitDefine SP]"

definition restoreHL :: machine_instr where
  "restoreHL = BuildMI POP [addRegDef HL, addRegImplicitDefine SP]"

lemma exec_mem [exec_simps]:
  "exec env (MOVrMi d) s = cont (setR d (mem s (getP HL s)) s)"
  "exec env (MOVMri r) s = cont (store8 (getP HL s) (r8 s r) s)"
  "exec env (LDAXi p) s = cont (setR A (mem s (getP p s)) s)"
  "exec env (STAXi p) s = cont (store8 (getP p s) (r8 s A) s)"
  "exec env (MVIMi i) s = cont (store8 (getP HL s) (lo8 (word_of_int i)) s)"
  "exec env saveHL s = cont (push16 (getP HL s) s)"
  "exec env restoreHL s = cont (setP HL (pop16 s) (s\<lparr>sp := sp s + 2\<rparr>))"
  by (simp_all add: MOVrMi_def MOVMri_def LDAXi_def STAXi_def MVIMi_def saveHL_def restoreHL_def
      exec_BuildMI step_simps)

definition deadAt :: "mbb_ctx \<Rightarrow> preg \<Rightarrow> bool" where
  "deadAt c r = isRegDeadAtMI r (after c) (succLiveIns c)"

text \<open>What an expansion at \<open>c\<close> may change besides its results.\<close>

abbreviation dead_at :: "mbb_ctx \<Rightarrow> preg set" where
  "dead_at c \<equiv> dead_regs (after c) (succLiveIns c)"

definition pairs_ok :: "mbb_ctx \<Rightarrow> bool" where
  "pairs_ok c = (\<forall>p \<in> {BC, DE, HL}. pair_scan_ok p (after c) (succLiveIns c))"

lemma deadAtD: "deadAt c r \<Longrightarrow> GR8 r \<Longrightarrow> r \<in> dead_at c"
  by (simp add: deadAt_def dead_regs_def)

lemma deadAt_pairD:
  assumes "pairs_ok c"
  shows "deadAt c HL \<Longrightarrow> H \<in> dead_at c \<and> L \<in> dead_at c"
    "deadAt c DE \<Longrightarrow> D \<in> dead_at c \<and> E \<in> dead_at c"
    "deadAt c BC \<Longrightarrow> B \<in> dead_at c \<and> C \<in> dead_at c"
  using assms by (auto simp: pairs_ok_def deadAt_def dest!: pair_scan_okD)

section \<open>expandMemOpM\<close>

definition expandMemOpM :: "mbb_ctx \<Rightarrow> preg \<Rightarrow> machine_instr \<Rightarrow> machine_instr list" where
  "expandMemOpM c AddrReg emit =
    (if AddrReg = HL then [emit]
     else if AddrReg = DE then
       [XCHGi, emit] @ (if \<not> deadAt c HL \<or> \<not> deadAt c DE then [XCHGi] else [])
     else (if \<not> deadAt c HL then [saveHL] else []) @ [MOV L C, MOV H B, emit]
       @ (if \<not> deadAt c HL then [restoreHL] else []))"

text \<open>
  The contract of the wrapped instruction: it acts on the byte that HL points to, as \<open>f\<close> says,
  without looking at the address registers otherwise, and changes A, the flags and that byte only.
\<close>

locale mem_op =
  fixes emit :: machine_instr and f :: "u16 \<Rightarrow> cpu \<Rightarrow> cpu"
  assumes exec: "exec env emit s = cont (f (getP HL s) s)"
    and frame: "unchanged X M s t \<Longrightarrow> A \<notin> X \<Longrightarrow> FLAGS \<notin> X \<Longrightarrow> a \<notin> M \<Longrightarrow> unchanged X M (f a s) (f a t)"
    and keeps: "unchanged {A, FLAGS} {a} s (f a s)"
begin

lemma keeps_regs: "r8 (f a s) B = r8 s B" "r8 (f a s) C = r8 s C" "r8 (f a s) D = r8 s D"
  "r8 (f a s) E = r8 s E" "r8 (f a s) H = r8 s H" "r8 (f a s) L = r8 s L" "sp (f a s) = sp s"
  "b \<noteq> a \<Longrightarrow> mem (f a s) b = mem s b"
  using keeps [of a s] by (simp_all add: unchanged_code)

lemma expandMemOpM_runs:
  assumes "GR16 Addr" "pairs_ok c" "Addr = BC \<longrightarrow> getP BC s \<notin> below_sp s"
  shows "\<exists>t. run env (expandMemOpM c Addr emit) s = cont t
    \<and> unchanged (dead_at c) (below_sp s) (f (getP Addr s) s) t"
proof -
  consider (HL) "Addr = HL" | (DE) "Addr = DE" | (BC) "Addr = BC"
    using assms(1) by (elim GR16_cases)
  then show ?thesis
proof cases
  case HL
  then show ?thesis by (simp add: expandMemOpM_def exec del: getP.simps)
next
  case DE
  let ?u = "setP HL (getP DE s) (setP DE (getP HL s) s)" and ?a = "getP DE s"
  have a: "getP HL ?u = ?a" by simp
  have fr: "unchanged {D, E, H, L} {} (f ?a s) (f ?a ?u)" by (rule frame) (simp_all add: unchanged_code)
  show ?thesis
  proof (cases "deadAt c HL \<and> deadAt c DE")
    case True
    then have "{D, E, H, L} \<subseteq> dead_at c" using deadAt_pairD [OF assms(2)] by blast
    then have "unchanged (dead_at c) (below_sp s) (f ?a s) (f ?a ?u)" using fr by (auto intro: unchanged_mono)
    then show ?thesis using True DE a by (simp add: expandMemOpM_def exec exec_shapes del: getP.simps setP.simps)
  next
    case False
    let ?v = "f ?a ?u"
    have "run env (expandMemOpM c Addr emit) s = cont (setP HL (getP DE ?v) (setP DE (getP HL ?v) ?v))"
      using False DE a by (auto simp add: expandMemOpM_def exec exec_shapes simp del: getP.simps setP.simps)
    moreover have "unchanged {} {} (f ?a s) (setP HL (getP DE ?v) (setP DE (getP HL ?v) ?v))"
      using fr by (simp add: unchanged_code keeps_regs)
    ultimately show ?thesis using DE by (auto intro: unchanged_mono simp del: getP.simps setP.simps)
  qed
next
  case BC
  let ?a = "getP BC s"
  show ?thesis
  proof (cases "deadAt c HL")
    case True
    let ?u = "setR H (r8 s B) (setR L (r8 s C) s)"
    have "unchanged {H, L} {} (f ?a s) (f ?a ?u)" by (rule frame) (simp_all add: unchanged_code)
    then have "unchanged (dead_at c) (below_sp s) (f ?a s) (f ?a ?u)"
      by (rule unchanged_mono) (use deadAt_pairD(1) [OF assms(2) True] in auto)
    moreover have "getP HL ?u = ?a" by simp
    ultimately show ?thesis using True BC by (simp add: expandMemOpM_def exec exec_shapes)
  next
    case False
    let ?p = "push16 (getP HL s) s"
    let ?u = "setR H (r8 s B) (setR L (r8 s C) ?p)"
    let ?v = "f ?a ?u" let ?t = "setP HL (pop16 ?v) (?v\<lparr>sp := sp ?v + 2\<rparr>)"
    have na: "?a \<noteq> sp s - 1" "?a \<noteq> sp s - 2" using assms(3) BC by (auto simp: below_sp_def)
    have fr: "unchanged {H, L, SP} (below_sp s) (f ?a s) ?v"
      by (rule frame) (use na in \<open>auto simp: unchanged_code below_sp_def\<close>)
    have "getP HL ?u = ?a" by simp
    then have "run env (expandMemOpM c Addr emit) s = cont ?t"
      using False BC by (simp add: expandMemOpM_def exec exec_shapes exec_mem del: getP.simps setP.simps)
    moreover have "pop16 ?v = getP HL s"
      using na by (simp add: pop16_def load16_def keeps_regs)
    ultimately show ?thesis using fr BC
      by (intro exI [of _ ?t]) (simp add: unchanged_code keeps_regs)
  qed
qed
qed

end

section \<open>ALU, CMP, INR and DCR on memory\<close>

definition ALUMi :: "aluop \<Rightarrow> machine_instr" where
  "ALUMi op = (if op = CMP then BuildMI CMPM [addReg A] else BuildMI (ALUM op) [addRegDef A, addReg A])"

definition expand_ALU_M_P :: "aluop \<Rightarrow> mbb_ctx \<Rightarrow> preg \<Rightarrow> machine_instr list" where
  "expand_ALU_M_P op c AddrReg = expandMemOpM c AddrReg (ALUMi op)"

definition expand_INR_DCR_M_P :: "opcode \<Rightarrow> mbb_ctx \<Rightarrow> preg \<Rightarrow> machine_instr list" where
  "expand_INR_DCR_M_P MOpc c AddrReg = expandMemOpM c AddrReg (BuildMI MOpc [])"

definition alu_mem :: "aluop \<Rightarrow> u16 \<Rightarrow> cpu \<Rightarrow> cpu" where
  "alu_mem op a s = aluA op (mem s a) s"

definition step_mem :: "(byte \<Rightarrow> flags \<Rightarrow> byte \<times> flags) \<Rightarrow> u16 \<Rightarrow> cpu \<Rightarrow> cpu" where
  "step_mem g a s = (store8 a (fst (g (mem s a) (fl s))) s)\<lparr>fl := snd (g (mem s a) (fl s))\<rparr>"

interpretation alu_m: mem_op "ALUMi op" "alu_mem op" for op
proof
  show "exec env (ALUMi op) s = cont (alu_mem op (getP HL s) s)" for env s
    by (simp add: ALUMi_def alu_mem_def exec_BuildMI step_simps)
qed (auto simp: alu_mem_def unchanged_def)

interpretation inr_m: mem_op "BuildMI INRM []" "step_mem alu_inr"
proof
  show "exec env (BuildMI INRM []) s = cont (step_mem alu_inr (getP HL s) s)" for env s
    by (simp add: step_mem_def exec_BuildMI step_simps2)
qed (auto simp: step_mem_def unchanged_def)

interpretation dcr_m: mem_op "BuildMI DCRM []" "step_mem alu_dcr"
proof
  show "exec env (BuildMI DCRM []) s = cont (step_mem alu_dcr (getP HL s) s)" for env s
    by (simp add: step_mem_def exec_BuildMI step_simps2)
qed (auto simp: step_mem_def unchanged_def)

text \<open>
  ADD_M_P .. CMP_M_P, INR_M_P and DCR_M_P do to the addressed byte, A and the flags what the
  instruction on M does, and restore every address register that is not dead.  The address may
  be any pair; a BC address outside the two bytes below SP.
\<close>

theorem expand_M_P_correct:
  assumes "GR16 Addr" "pairs_ok c" "Addr = BC \<longrightarrow> getP BC s \<notin> below_sp s"
  shows "(\<exists>t. run env (expand_ALU_M_P op c Addr) s = cont t
      \<and> unchanged (dead_at c) (below_sp s) (aluA op (mem s (getP Addr s)) s) t)
    \<and> (\<exists>t. run env (expand_INR_DCR_M_P INRM c Addr) s = cont t
      \<and> unchanged (dead_at c) (below_sp s) (step_mem alu_inr (getP Addr s) s) t)
    \<and> (\<exists>t. run env (expand_INR_DCR_M_P DCRM c Addr) s = cont t
      \<and> unchanged (dead_at c) (below_sp s) (step_mem alu_dcr (getP Addr s) s) t)"
  unfolding expand_ALU_M_P_def expand_INR_DCR_M_P_def alu_mem_def [symmetric]
  using alu_m.expandMemOpM_runs [OF assms] inr_m.expandMemOpM_runs [OF assms]
    dcr_m.expandMemOpM_runs [OF assms] by blast

definition ctx_live :: mbb_ctx where
  "ctx_live = \<lparr>before = [], after = [], liveIns = [], succLiveIns = [[BC, DE, HL, A, FLAGS]], preds = []\<rparr>"

lemma ctx_live_simps [simp]:
  "pairs_ok ctx_live" "dead_at ctx_live = {}" "GR8 r \<or> GR16 r \<Longrightarrow> \<not> deadAt ctx_live r"
proof -
  show live: "\<not> deadAt ctx_live r" if "GR8 r \<or> GR16 r" for r
    using that by (cases r) (auto simp: deadAt_def ctx_live_def liveOut_def)
  then show "pairs_ok ctx_live" "dead_at ctx_live = {}"
    by (auto simp: pairs_ok_def pair_scan_ok_def dead_regs_def deadAt_def)
qed

theorem expand_M_P_correct_witness:
  "\<forall>env s. \<exists>t. run env (expand_ALU_M_P SUB ctx_live DE) s = cont t
    \<and> r8 t A = r8 s A - mem s (getP DE s) \<and> getP HL t = getP HL s"
proof (intro allI)
  fix env s
  show "\<exists>t. run env (expand_ALU_M_P SUB ctx_live DE) s = cont t
    \<and> r8 t A = r8 s A - mem s (getP DE s) \<and> getP HL t = getP HL s"
    using expand_M_P_correct [of DE ctx_live s env SUB] by (auto simp: unchanged_code)
qed

section \<open>LOAD8_P\<close>

text \<open>The register that the XCHG envelope renames to \<open>r\<close>.\<close>

fun partnerOf :: "preg \<Rightarrow> preg option" where
  "partnerOf B = Some B" | "partnerOf C = Some C" | "partnerOf H = Some D" | "partnerOf L = Some E"
| "partnerOf D = Some H" | "partnerOf E = Some L" | "partnerOf _ = None"

definition expand_LOAD8_P :: "mbb_ctx \<Rightarrow> preg \<Rightarrow> preg \<Rightarrow> machine_instr list" where
  "expand_LOAD8_P c DstReg AddrReg =
    (if AddrReg = HL then [MOVrMi DstReg]
     else if DstReg = A \<and> (AddrReg = BC \<or> AddrReg = DE) then [LDAXi AddrReg]
     else if (AddrReg = BC \<or> AddrReg = DE) \<and> deadAt c A then [LDAXi AddrReg, MOV DstReg A]
     else
       let ALive = \<not> deadAt c A
       in if ALive \<and> AddrReg = DE then [XCHGi, MOVrMi (the (partnerOf DstReg)), XCHGi]
          else if ALive then
            (case findDeadGR8AtMI (after c) (succLiveIns c) (Some A) (Some DstReg) of
               Some SpareR \<Rightarrow> [MOV SpareR A, LDAXi AddrReg, MOV DstReg A, MOV A SpareR]
             | None \<Rightarrow> [PUSHi PSW, LDAXi AddrReg, MOV DstReg A, POPi PSW])
          else [LDAXi AddrReg, MOV DstReg A])"

lemma findDeadGR8AtMI_props:
  assumes "findDeadGR8AtMI ms succs ex1 ex2 = Some r"
  shows "r \<in> dead_regs ms succs" "r \<in> {B, C, D, E, H, L}"
    "ex1 = Some x \<Longrightarrow> \<not> regsOverlap r x" "ex2 = Some y \<Longrightarrow> \<not> regsOverlap r y"
  using assms unfolding findDeadGR8AtMI_def find_Some_iff
  by (auto simp: dead_regs_def less_Suc_eq numeral_eq_Suc simp del: regsOverlap_code)

lemma expand_LOAD8_P_run:
  assumes "GR8 Dst" "GR16 Addr" "Addr = BC \<longrightarrow> getP BC s \<notin> below_sp s"
    and spare: "Addr = BC \<longrightarrow> findDeadGR8AtMI (after c) (succLiveIns c) (Some A) (Some Dst) \<notin> {Some B, Some C}"
  shows "\<exists>t. run env (expand_LOAD8_P c Dst Addr) s = cont t \<and> r8 t Dst = mem s (getP Addr s)
    \<and> unchanged ({Dst} \<union> dead_at c) (below_sp s) s t"
proof -
  consider (HL) "Addr = HL" | (ldax) "Addr = BC \<or> Addr = DE" "Dst = A"
    | (dead) "Addr = BC \<or> Addr = DE" "Dst \<noteq> A" "deadAt c A"
    | (xchg) "Addr = DE" "Dst \<noteq> A" "\<not> deadAt c A" | (BC) "Addr = BC" "Dst \<noteq> A" "\<not> deadAt c A"
    using assms(2) by (elim GR16_cases) auto
  then show ?thesis
  proof cases
    case HL
    then show ?thesis by (simp add: expand_LOAD8_P_def exec_simps unchanged_def)
  next
    case ldax
    then show ?thesis by (auto simp: expand_LOAD8_P_def exec_simps unchanged_def)
  next
    case dead
    then have "A \<in> dead_at c" by (simp add: deadAtD)
    then show ?thesis using dead by (auto simp: expand_LOAD8_P_def exec_simps unchanged_def)
  next
    case xchg
    then show ?thesis using assms(1)
      by (elim GR8_cases; simp add: expand_LOAD8_P_def exec_simps unchanged_code)
  next
    case BC
    have na: "mk16 (r8 s B) (r8 s C) \<noteq> sp s - 1" "mk16 (r8 s B) (r8 s C) \<noteq> sp s - 2"
      using assms(3) BC(1) by (auto simp: below_sp_def)
    show ?thesis
    proof (cases "findDeadGR8AtMI (after c) (succLiveIns c) (Some A) (Some Dst)")
      case None
      then show ?thesis using BC assms(1) na
        by (elim GR8_cases; simp add: expand_LOAD8_P_def exec_simps unchanged_code pop16_def unpack_pack below_sp_def)
    next
      case (Some r)
      note p = findDeadGR8AtMI_props [OF Some]
      have "r \<in> {D, E, H, L}" using p(2) spare BC(1) Some by auto
      moreover have "r \<noteq> Dst" using p(4) [of Dst] assms(1) by (auto elim!: GR8_cases)
      ultimately show ?thesis using BC assms(1) p(1) Some
        by (elim GR8_cases; auto simp: expand_LOAD8_P_def exec_simps unchanged_code)
    qed
  qed
qed

text \<open>
  C13.  LOAD8_P delivers the addressed byte and preserves everything but its destination and dead
  registers.  Case 6a needs the spare register to be outside the address pair BC, which the code
  does not ensure.
\<close>

theorem expand_LOAD8_P_correct:
  assumes "GR8 Dst" "GR16 Addr" "Addr = BC \<longrightarrow> getP BC s \<notin> below_sp s"
    and spare: "Addr = BC \<longrightarrow> findDeadGR8AtMI (after c) (succLiveIns c) (Some A) (Some Dst) \<notin> {Some B, Some C}"
  shows "\<exists>t. run env (expand_LOAD8_P c Dst Addr) s = cont t \<and> r8 t Dst = mem s (getP Addr s)
    \<and> unchanged ({Dst} \<union> dead_at c) (below_sp s) s t"
  using assms by (rule expand_LOAD8_P_run)

theorem expand_LOAD8_P_correct_witness:
  "\<forall>env s. \<exists>t. run env (expand_LOAD8_P ctx_live D DE) s = cont t \<and> r8 t D = mem s (getP DE s)
    \<and> unchanged {D} (below_sp s) s t"
proof (intro allI)
  fix env s
  show "\<exists>t. run env (expand_LOAD8_P ctx_live D DE) s = cont t \<and> r8 t D = mem s (getP DE s)
    \<and> unchanged {D} (below_sp s) s t"
    using expand_LOAD8_P_correct [of D DE s ctx_live env] by auto
qed

text \<open>
  C39.  When A is live and the load through BC is the last use of BC, the spare register is B: saving A
  in it changes the address, and the byte is loaded from elsewhere.
\<close>

theorem expand_LOAD8_P_spare_clobbers_address:
  "\<exists>c s. expand_LOAD8_P c E BC = [MOV B A, LDAXi BC, MOV E A, MOV A B]
    \<and> getP BC s \<notin> below_sp s
    \<and> (\<forall>env. \<exists>t. run env (expand_LOAD8_P c E BC) s = cont t \<and> r8 t E \<noteq> mem s (getP BC s))"
proof -
  let ?c = "\<lparr>before = [], after = [], liveIns = [], succLiveIns = [[A, E, HL]], preds = []\<rparr>"
  let ?s = "\<lparr>r8 = (\<lambda>r. if r = A then 1 else 0), fl = szp 0 False False, sp = 0x8000,
    mem = (\<lambda>a. if a = 0 then 7 else 0), inte = False, iolog = []\<rparr>"
  have code: "expand_LOAD8_P ?c E BC = [MOV B A, LDAXi BC, MOV E A, MOV A B]"
    by (simp add: expand_LOAD8_P_def deadAt_def liveOut_def findDeadGR8AtMI_def)
  moreover have "getP BC ?s \<notin> below_sp ?s" by (simp add: below_sp_def)
  moreover have "\<exists>t. run env (expand_LOAD8_P ?c E BC) ?s = cont t \<and> r8 t E \<noteq> mem ?s (getP BC ?s)" for env
  proof -
    have "mk16 1 0 \<noteq> (0 :: u16)" by (metis hi8_mk16 mk16_zero one_neq_zero)
    then show ?thesis unfolding code by (simp add: exec_simps setR_def)
  qed
  ultimately show ?thesis by blast
qed

section \<open>STORE8_P and STORE8_IMM_P\<close>

definition expand_STORE8_P :: "mbb_ctx \<Rightarrow> preg \<Rightarrow> preg \<Rightarrow> machine_instr list" where
  "expand_STORE8_P c SrcReg AddrReg =
    (if AddrReg = HL then [MOVMri SrcReg]
     else if SrcReg = A \<and> (AddrReg = BC \<or> AddrReg = DE) then [STAXi AddrReg]
     else if (AddrReg = BC \<or> AddrReg = DE) \<and> deadAt c A then [MOV A SrcReg, STAXi AddrReg]
     else
       let ALive = \<not> deadAt c A
       in if ALive \<and> AddrReg = DE then [XCHGi, MOVMri (the (partnerOf SrcReg)), XCHGi]
          else if ALive then
            (case findDeadGR8AtMI (after c) (succLiveIns c) (Some AddrReg) (Some SrcReg) of
               Some SpareR \<Rightarrow> [MOV SpareR A, MOV A SrcReg, STAXi AddrReg, MOV A SpareR]
             | None \<Rightarrow> [PUSHi PSW, MOV A SrcReg, STAXi AddrReg, POPi PSW])
          else [MOV A SrcReg, STAXi AddrReg])"

definition expand_STORE8_IMM_P :: "mbb_ctx \<Rightarrow> int \<Rightarrow> preg \<Rightarrow> machine_instr list" where
  "expand_STORE8_IMM_P c Imm AddrReg =
    (if AddrReg = HL then [MVIMi Imm]
     else if deadAt c A then [MVI A Imm, STAXi AddrReg]
     else if AddrReg = DE then [XCHGi, MVIMi Imm, XCHGi]
     else if deadAt c HL then [MOV L C, MOV H B, MVIMi Imm]
     else if deadAt c DE then [MOV D B, MOV E C, XCHGi, MVIMi Imm, XCHGi]
     else [saveHL, MOV L C, MOV H B, MVIMi Imm, restoreHL])"

text \<open>
  The byte stores write exactly the addressed byte and preserve everything that is not dead; a
  BC address outside the two bytes below SP.
\<close>

theorem expand_STORE8_correct:
  assumes "GR16 Addr" "GR8 Src" "pairs_ok c" "Addr = BC \<longrightarrow> getP BC s \<notin> below_sp s"
  shows "(\<exists>t. run env (expand_STORE8_P c Src Addr) s = cont t
      \<and> unchanged (dead_at c) (below_sp s) (store8 (getP Addr s) (r8 s Src) s) t)
    \<and> (\<exists>t. run env (expand_STORE8_IMM_P c Imm Addr) s = cont t
      \<and> unchanged (dead_at c) (below_sp s) (store8 (getP Addr s) (word_of_int Imm) s) t)"
proof
  have na: "Addr = BC \<Longrightarrow> mk16 (r8 s B) (r8 s C) \<noteq> sp s - 1 \<and> mk16 (r8 s B) (r8 s C) \<noteq> sp s - 2
      \<and> sp s - 1 \<noteq> mk16 (r8 s B) (r8 s C) \<and> sp s - 2 \<noteq> mk16 (r8 s B) (r8 s C)"
    using assms(4) by (auto simp: below_sp_def)
  consider (HL) "Addr = HL" | (dead) "Addr = BC \<or> Addr = DE" "deadAt c A"
    | (A) "Addr = BC \<or> Addr = DE" "\<not> deadAt c A" "Src = A"
    | (xchg) "Addr = DE" "\<not> deadAt c A" "Src \<noteq> A" | (BC) "Addr = BC" "\<not> deadAt c A" "Src \<noteq> A"
    using assms(1) by (elim GR16_cases) auto
  then show "\<exists>t. run env (expand_STORE8_P c Src Addr) s = cont t
      \<and> unchanged (dead_at c) (below_sp s) (store8 (getP Addr s) (r8 s Src) s) t"
  proof cases
    case HL
    then show ?thesis by (simp add: expand_STORE8_P_def exec_simps)
  next
    case dead
    then have "A \<in> dead_at c" by (simp add: deadAtD)
    then show ?thesis using dead assms(2)
      by (cases "Src = A"; elim disjE GR8_cases; simp add: expand_STORE8_P_def exec_simps unchanged_code)
  next
    case A
    then show ?thesis by (auto simp: expand_STORE8_P_def exec_simps)
  next
    case xchg
    then show ?thesis using assms(2)
      by (elim GR8_cases; simp add: expand_STORE8_P_def exec_simps unchanged_code)
  next
    case BC
    show ?thesis
    proof (cases "findDeadGR8AtMI (after c) (succLiveIns c) (Some BC) (Some Src)")
      case None
      then show ?thesis using BC assms(2) na
        by (elim GR8_cases; simp add: expand_STORE8_P_def exec_simps unchanged_code pop16_def unpack_pack below_sp_def)
    next
      case (Some r)
      note p = findDeadGR8AtMI_props [OF Some]
      have "r \<in> {D, E, H, L}" using p(2) p(3) [of BC] by auto
      moreover have "r \<noteq> Src" using p(4) [of Src] assms(2) by (auto elim!: GR8_cases)
      ultimately show ?thesis using BC assms(2) p(1) Some
        by (elim GR8_cases; auto simp: expand_STORE8_P_def exec_simps unchanged_code)
    qed
  qed
  have b: "lo8 (word_of_int Imm) = word_of_int Imm"
    by (rule bit_word_eqI) (auto simp: bit_lo8 bit_simps)
  have dead: "deadAt c A \<Longrightarrow> A \<in> dead_at c" by (simp add: deadAtD)
  note pair = deadAt_pairD [OF assms(3)]
  show "\<exists>t. run env (expand_STORE8_IMM_P c Imm Addr) s = cont t
      \<and> unchanged (dead_at c) (below_sp s) (store8 (getP Addr s) (word_of_int Imm) s) t"
    using assms(1) na dead pair
    by (elim GR16_cases; cases "deadAt c A"; cases "deadAt c HL"; cases "deadAt c DE";
        simp add: expand_STORE8_IMM_P_def exec_simps unchanged_code pop16_def below_sp_def b)
qed

theorem expand_STORE8_correct_witness:
  "\<forall>env s. \<exists>t. run env (expand_STORE8_P ctx_live D BC) (s\<lparr>sp := getP BC s\<rparr>) = cont t
    \<and> mem t (getP BC s) = r8 s D"
proof (intro allI)
  fix env s
  let ?s = "s\<lparr>sp := getP BC s\<rparr>"
  have a: "getP BC ?s \<notin> below_sp ?s" by (simp add: below_sp_def)
  then obtain t where "run env (expand_STORE8_P ctx_live D BC) ?s = cont t"
    "unchanged {} (below_sp ?s) (store8 (getP BC ?s) (r8 ?s D) ?s) t"
    using expand_STORE8_correct [of BC D ctx_live ?s env] by auto
  then show "\<exists>t. run env (expand_STORE8_P ctx_live D BC) ?s = cont t \<and> mem t (getP BC s) = r8 s D"
    using a by (auto simp: unchanged_def)
qed

end
