(* ===== verification/ExpandMem16.thy ===== *)
theory ExpandMem16
  imports ExpandMem8
begin

text \<open>
  \<open>expandPostRAPseudo\<close>, seventh part: 16-bit loads and stores through a pointer pair and at a
  fixed address.  Each shape is a choice among several sequences by the dead scans; the
  definitions follow the cases of the code.
\<close>

section \<open>LOAD16_P\<close>

abbreviation spareAt :: "mbb_ctx \<Rightarrow> preg option \<Rightarrow> preg option \<Rightarrow> preg option" where
  "spareAt c \<equiv> findDeadGR8AtMI (after c) (succLiveIns c)"

definition wrapPSW :: "bool \<Rightarrow> machine_instr list \<Rightarrow> machine_instr list" where
  "wrapPSW ALive body = (if ALive then [PUSHi PSW] @ body @ [POPi PSW] else body)"

definition wrapHL :: "machine_instr list \<Rightarrow> machine_instr list" where
  "wrapHL body = [saveHL] @ body @ [restoreHL]"

definition fixup :: "mbb_ctx \<Rightarrow> preg \<Rightarrow> machine_instr list" where
  "fixup c p = (if \<not> deadAt c p then [INXi DCX p] else [])"

text \<open>The spare for an XCHG envelope: D and E stand for H and L there.\<close>

definition xchgSpare :: "mbb_ctx \<Rightarrow> preg option" where
  "xchgSpare c = (if deadAt c B then Some B else if deadAt c C then Some C
     else if deadAt c H then Some D else if deadAt c L then Some E else None)"

definition tmpOrA :: "preg option \<Rightarrow> preg" where
  "tmpOrA spare = (case spare of Some r \<Rightarrow> r | None \<Rightarrow> A)"

definition load16_HL :: "mbb_ctx \<Rightarrow> preg \<Rightarrow> machine_instr list" where
  "load16_HL c DstReg =
    (if DstReg = HL then
       let Spare = spareAt c (Some HL) None; Tmp = tmpOrA Spare
       in wrapPSW (Spare = None \<and> \<not> deadAt c A)
            [MOVrMi Tmp, INXi INX HL, MOVrMi H, MOV L Tmp]
     else [MOVrMi (subLo DstReg), INXi INX HL, MOVrMi (subHi DstReg)] @ fixup c HL)"

definition load16_DE :: "mbb_ctx \<Rightarrow> preg \<Rightarrow> machine_instr list" where
  "load16_DE c DstReg =
    (if DstReg = DE then
       let Spare = xchgSpare c; Tmp = tmpOrA Spare
       in wrapPSW (Spare = None \<and> \<not> deadAt c A)
            [XCHGi, MOVrMi Tmp, INXi INX HL, MOVrMi H, MOV L Tmp, XCHGi]
     else
       let LoadLo = (if DstReg = HL then E else subLo DstReg);
           LoadHi = (if DstReg = HL then D else subHi DstReg)
       in [XCHGi, MOVrMi LoadLo, INXi INX HL, MOVrMi LoadHi, XCHGi] @ fixup c DE)"

definition load16_BC :: "mbb_ctx \<Rightarrow> preg \<Rightarrow> machine_instr list" where
  "load16_BC c DstReg =
    (if DstReg = HL then
       (case (deadAt c A, spareAt c (Some HL) (Some BC)) of
          (False, Some Tmp) \<Rightarrow> [MOV H B, MOV L C, MOVrMi Tmp, INXi INX HL, MOVrMi H, MOV L Tmp]
        | _ \<Rightarrow> wrapPSW (\<not> deadAt c A)
                 [LDAXi BC, MOV L A, INXi INX BC, LDAXi BC, MOV H A] @ fixup c BC)
     else if DstReg = BC then
       (if deadAt c HL then [MOV H B, MOV L C, MOVrMi C, INXi INX HL, MOVrMi B]
        else (case (if deadAt c A then spareAt c (Some BC) None else None) of
          Some Tmp \<Rightarrow> [LDAXi BC, MOV Tmp A, INXi INX BC, LDAXi BC, MOV B A, MOV C Tmp]
        | None \<Rightarrow> wrapHL [MOV H B, MOV L C, MOVrMi C, INXi INX HL, MOVrMi B]))
     else
       (if deadAt c HL then [MOV H B, MOV L C, MOVrMi E, INXi INX HL, MOVrMi D]
        else
          let Spare = (if deadAt c A then None else if deadAt c H then Some H
                       else if deadAt c L then Some L else None)
          in if deadAt c A \<or> Spare \<noteq> None then
               (if \<not> deadAt c A then [MOV (the Spare) A] else [])
               @ [LDAXi BC, MOV E A, INXi INX BC, LDAXi BC, MOV D A]
               @ (if \<not> deadAt c A then [MOV A (the Spare)] else []) @ fixup c BC
             else wrapHL [MOV H B, MOV L C, MOVrMi E, INXi INX HL, MOVrMi D]))"

definition expand_LOAD16_P :: "mbb_ctx \<Rightarrow> preg \<Rightarrow> preg \<Rightarrow> machine_instr list" where
  "expand_LOAD16_P c DstReg AddrReg =
    (if AddrReg = HL then load16_HL c DstReg
     else if AddrReg = DE then load16_DE c DstReg
     else load16_BC c DstReg)"

text \<open>The addressed word does not lie in the two bytes below SP.\<close>

definition off_stack :: "u16 \<Rightarrow> cpu \<Rightarrow> bool" where
  "off_stack a s = ({a, a + 1} \<inter> below_sp s = {})"

lemma off_stackD:
  assumes "off_stack a s"
  shows "a \<noteq> sp s - 1" "a \<noteq> sp s - 2" "a + 1 \<noteq> sp s - 1" "a + 1 \<noteq> sp s - 2"
    "sp s - 1 \<noteq> a" "sp s - 2 \<noteq> a" "sp s - 1 \<noteq> a + 1" "sp s - 2 \<noteq> a + 1"
  using assms by (auto simp: off_stack_def below_sp_def)

lemmas mem16_simps = exec_simps unchanged_code load16_def pop16_def unpack_pack below_sp_def
  wrapPSW_def wrapHL_def tmpOrA_def fixup_def

lemma spareAt_cases:
  assumes "spareAt c (Some p) q = Some r" "GR16 p"
  shows "r \<in> dead_at c" "GR8 r" "r \<noteq> A" "r \<noteq> subHi p" "r \<noteq> subLo p" "r \<in> {B, C, D, E, H, L}"
  using findDeadGR8AtMI_props [OF assms(1)] assms(2) by (elim GR16_cases; auto)+

lemma load16_HL_run:
  assumes "GR16 Dst" "pairs_ok c" "off_stack (getP HL s) s"
  shows "\<exists>t. run env (load16_HL c Dst) s = cont t \<and> getP Dst t = load16 (getP HL s) s
    \<and> unchanged (units Dst \<union> dead_at c) (below_sp s) s t"
proof (cases "Dst = HL")
  case True
  show ?thesis
  proof (cases "spareAt c (Some HL) None")
    case None
    have "deadAt c A \<Longrightarrow> A \<in> dead_at c" by (simp add: deadAtD)
    then show ?thesis using None True off_stackD [OF assms(3)]
      by (cases "deadAt c A") (simp_all add: load16_HL_def mem16_simps)
  next
    case (Some r)
    have "r \<in> {B, C, D, E}" "r \<in> dead_at c" using spareAt_cases [OF Some] by auto
    then show ?thesis using Some True by (auto simp: load16_HL_def mem16_simps)
  qed
next
  case False
  then show ?thesis using assms(1) deadAt_pairD(1) [OF assms(2)]
    by (cases "deadAt c HL"; elim GR16_cases; simp add: load16_HL_def mem16_simps)
qed

lemma xchgSpare_cases:
  assumes "xchgSpare c = Some r"
  shows "r = B \<and> B \<in> dead_at c \<or> r = C \<and> C \<in> dead_at c \<or> r = D \<and> H \<in> dead_at c \<or> r = E \<and> L \<in> dead_at c"
  using assms by (auto simp: xchgSpare_def deadAtD split: if_splits)

lemma load16_DE_run:
  assumes "GR16 Dst" "pairs_ok c" "off_stack (getP DE s) s"
  shows "\<exists>t. run env (load16_DE c Dst) s = cont t \<and> getP Dst t = load16 (getP DE s) s
    \<and> unchanged (units Dst \<union> dead_at c) (below_sp s) s t"
proof (cases "Dst = DE")
  case True
  show ?thesis
  proof (cases "xchgSpare c")
    case None
    have "deadAt c A \<Longrightarrow> A \<in> dead_at c" by (simp add: deadAtD)
    then show ?thesis using None True off_stackD [OF assms(3)]
      by (cases "deadAt c A") (simp_all add: load16_DE_def mem16_simps)
  next
    case (Some r)
    then show ?thesis using xchgSpare_cases [OF Some] True by (auto simp: load16_DE_def mem16_simps)
  qed
next
  case False
  then show ?thesis using assms(1) deadAt_pairD(2) [OF assms(2)]
    by (cases "deadAt c DE"; elim GR16_cases; simp add: load16_DE_def mem16_simps Let_def)
qed

lemma load16_BC_HL_run:
  assumes "pairs_ok c" "off_stack (getP BC s) s"
  shows "\<exists>t. run env (load16_BC c HL) s = cont t \<and> getP HL t = load16 (getP BC s) s
    \<and> unchanged ({H, L} \<union> dead_at c) (below_sp s) s t"
proof -
  consider (A) "deadAt c A" | (none) "\<not> deadAt c A" "spareAt c (Some HL) (Some BC) = None"
    | (Some) r where "\<not> deadAt c A" "spareAt c (Some HL) (Some BC) = Some r" by (cases "deadAt c A") auto
  then show ?thesis
  proof cases
    case A
    then have "A \<in> dead_at c" by (simp add: deadAtD)
    then show ?thesis using A deadAt_pairD(3) [OF assms(1)]
      by (cases "deadAt c BC") (simp_all add: load16_BC_def mem16_simps)
  next
    case none
    then show ?thesis using deadAt_pairD(3) [OF assms(1)] off_stackD [OF assms(2)]
      by (cases "deadAt c BC") (simp_all add: load16_BC_def mem16_simps)
  next
    case Some
    have "r \<in> {D, E}" "r \<in> dead_at c"
      using findDeadGR8AtMI_props(1,2) [OF Some(2)] findDeadGR8AtMI_props(3) [OF Some(2), of HL]
        findDeadGR8AtMI_props(4) [OF Some(2), of BC] by auto
    then show ?thesis using Some by (auto simp: load16_BC_def mem16_simps)
  qed
qed

lemma load16_BC_BC_run:
  assumes "pairs_ok c" "off_stack (getP BC s) s"
  shows "\<exists>t. run env (load16_BC c BC) s = cont t \<and> getP BC t = load16 (getP BC s) s
    \<and> unchanged ({B, C} \<union> dead_at c) (below_sp s) s t"
proof -
  let ?sp = "if deadAt c A then spareAt c (Some BC) None else None"
  consider (HL) "deadAt c HL" | (none) "\<not> deadAt c HL" "?sp = None"
    | (Some) r where "\<not> deadAt c HL" "?sp = Some r" by (cases "deadAt c HL"; cases ?sp) auto
  then show ?thesis
  proof cases
    case HL
    then show ?thesis using deadAt_pairD(1) [OF assms(1)] by (simp add: load16_BC_def mem16_simps)
  next
    case none
    then show ?thesis using off_stackD [OF assms(2)]
      by (simp only: load16_BC_def) (simp add: mem16_simps)
  next
    case Some
    then have A: "A \<in> dead_at c" and sp: "spareAt c (Some BC) None = Some r"
      by (auto simp: deadAtD split: if_splits)
    have "r \<in> {D, E, H, L}" "r \<in> dead_at c" using findDeadGR8AtMI_props(1,2) [OF sp] findDeadGR8AtMI_props(3) [OF sp, of BC] by auto
    moreover have "load16_BC c BC = [LDAXi BC, MOV r A, INXi INX BC, LDAXi BC, MOV B A, MOV C r]"
      using Some by (simp add: load16_BC_def)
    ultimately show ?thesis using A by (auto simp: mem16_simps)
  qed
qed

lemma load16_BC_DE_run:
  assumes "pairs_ok c" "off_stack (getP BC s) s"
  shows "\<exists>t. run env (load16_BC c DE) s = cont t \<and> getP DE t = load16 (getP BC s) s
    \<and> unchanged ({D, E} \<union> dead_at c) (below_sp s) s t"
proof -
  consider (HL) "deadAt c HL" | (A) "\<not> deadAt c HL" "deadAt c A"
    | (H) "\<not> deadAt c HL" "\<not> deadAt c A" "deadAt c H"
    | (L) "\<not> deadAt c HL" "\<not> deadAt c A" "\<not> deadAt c H" "deadAt c L"
    | (none) "\<not> deadAt c HL" "\<not> deadAt c A" "\<not> deadAt c H" "\<not> deadAt c L" by blast
  then show ?thesis
  proof cases
    case HL
    then show ?thesis using deadAt_pairD(1) [OF assms(1)] by (simp add: load16_BC_def mem16_simps)
  next
    case A
    then show ?thesis using deadAt_pairD(3) [OF assms(1)] deadAtD [of c A]
      by (cases "deadAt c BC") (simp_all add: load16_BC_def mem16_simps)
  next
    case H
    then show ?thesis using deadAt_pairD(3) [OF assms(1)] deadAtD [of c H]
      by (cases "deadAt c BC") (simp_all add: load16_BC_def mem16_simps)
  next
    case L
    then show ?thesis using deadAt_pairD(3) [OF assms(1)] deadAtD [of c L]
      by (cases "deadAt c BC") (simp_all add: load16_BC_def mem16_simps)
  next
    case none
    then show ?thesis using off_stackD [OF assms(2)] by (simp add: load16_BC_def mem16_simps)
  qed
qed

lemma expand_LOAD16_P_run:
  assumes "GR16 Dst" "GR16 Addr" "pairs_ok c" "off_stack (getP Addr s) s"
  shows "\<exists>t. run env (expand_LOAD16_P c Dst Addr) s = cont t
    \<and> getP Dst t = load16 (getP Addr s) s \<and> unchanged (units Dst \<union> dead_at c) (below_sp s) s t"
proof -
  consider "Addr = HL" | "Addr = DE" | "Addr = BC" using assms(2) by (elim GR16_cases)
  then show ?thesis
  proof cases
    case 1
    then show ?thesis using load16_HL_run [OF assms(1,3)] assms(4) by (simp add: expand_LOAD16_P_def del: getP.simps)
  next
    case 2
    then show ?thesis using load16_DE_run [OF assms(1,3)] assms(4) by (simp add: expand_LOAD16_P_def del: getP.simps)
  next
    case 3
    then have a: "off_stack (getP BC s) s" using assms(4) by simp
    show ?thesis
      using 3 assms(1) load16_BC_HL_run [OF assms(3) a, of env] load16_BC_BC_run [OF assms(3) a, of env]
        load16_BC_DE_run [OF assms(3) a, of env]
      by (elim GR16_cases) (simp_all add: expand_LOAD16_P_def del: getP.simps)
  qed
qed



end
