(* ===== verification/ExpandStore16.thy ===== *)
theory ExpandStore16
  imports ExpandMem16
begin

text \<open>
  \<open>expandPostRAPseudo\<close>, eighth part: the 16-bit stores through a pointer pair and the loads and
  stores at a fixed address.  A store is specified by \<open>store16\<close> on the state before.
\<close>

section \<open>STORE16_P\<close>

definition store16_HL :: "mbb_ctx \<Rightarrow> preg \<Rightarrow> machine_instr list" where
  "store16_HL c ValReg =
    (if ValReg = HL then
       let Spare = spareAt c (Some HL) None; Tmp = tmpOrA Spare
       in wrapPSW (Spare = None \<and> \<not> deadAt c A)
            [MOV Tmp H, MOVMri L, INXi INX HL, MOVMri Tmp] @ fixup c HL
     else [MOVMri (subLo ValReg), INXi INX HL, MOVMri (subHi ValReg)] @ fixup c HL)"

definition store16_DE :: "mbb_ctx \<Rightarrow> preg \<Rightarrow> machine_instr list" where
  "store16_DE c ValReg =
    (if ValReg = DE then
       let Spare = xchgSpare c; Tmp = tmpOrA Spare
       in wrapPSW (Spare = None \<and> \<not> deadAt c A)
            [XCHGi, MOV Tmp H, MOVMri L, INXi INX HL, MOVMri Tmp, XCHGi] @ fixup c DE
     else
       let StoreLo = (if ValReg = HL then E else subLo ValReg);
           StoreHi = (if ValReg = HL then D else subHi ValReg)
       in [XCHGi, MOVMri StoreLo, INXi INX HL, MOVMri StoreHi, XCHGi] @ fixup c DE)"

definition store16_BC :: "mbb_ctx \<Rightarrow> preg \<Rightarrow> machine_instr list" where
  "store16_BC c ValReg =
    (if ValReg \<noteq> BC then
       let ALive = \<not> deadAt c A;
           Spare = (if ALive then spareAt c (Some BC) (Some ValReg) else None)
       in (case Spare of Some r \<Rightarrow> [MOV r A] | None \<Rightarrow> if ALive then [PUSHi PSW] else [])
          @ [MOV A (subLo ValReg), STAXi BC, INXi INX BC, MOV A (subHi ValReg), STAXi BC]
          @ (case Spare of Some r \<Rightarrow> [MOV A r] | None \<Rightarrow> if ALive then [POPi PSW] else [])
          @ fixup c BC
     else if deadAt c HL then [MOV H B, MOV L C, MOVMri C, INXi INX HL, MOVMri B] @ fixup c BC
     else (case spareAt c (Some BC) None of
       Some r \<Rightarrow>
         let ALive = \<not> deadAt c A
         in (if ALive then [MOV r A] else [])
            @ [MOV A C, STAXi BC, INXi INX BC, MOV A B, STAXi BC]
            @ (if ALive then [MOV A r] else []) @ fixup c BC
     | None \<Rightarrow> wrapHL [MOV H B, MOV L C, MOVMri C, INXi INX HL, MOVMri B] @ fixup c BC))"

definition expand_STORE16_P :: "mbb_ctx \<Rightarrow> preg \<Rightarrow> preg \<Rightarrow> machine_instr list" where
  "expand_STORE16_P c ValReg AddrReg =
    (if AddrReg = HL then store16_HL c ValReg
     else if AddrReg = DE then store16_DE c ValReg
     else store16_BC c ValReg)"

lemma store16_HL_run:
  assumes "GR16 Val" "pairs_ok c" "off_stack (getP HL s) s"
  shows "\<exists>t. run env (store16_HL c Val) s = cont t
    \<and> unchanged (dead_at c) (below_sp s) (store16 (getP HL s) (getP Val s) s) t"
proof (cases "Val = HL")
  case True
  note dead = deadAt_pairD(1) [OF assms(2)]
  show ?thesis
  proof (cases "spareAt c (Some HL) None")
    case None
    have "deadAt c A \<Longrightarrow> A \<in> dead_at c" by (simp add: deadAtD)
    then show ?thesis using None True off_stackD [OF assms(3)] dead
      by (cases "deadAt c A"; cases "deadAt c HL") (simp_all add: store16_HL_def mem16_simps)
  next
    case (Some r)
    have "r \<in> {B, C, D, E}" "r \<in> dead_at c" using spareAt_cases [OF Some] by auto
    then show ?thesis using Some True dead
      by (cases "deadAt c HL") (auto simp: store16_HL_def mem16_simps)
  qed
next
  case False
  then show ?thesis using assms(1) deadAt_pairD(1) [OF assms(2)]
    by (cases "deadAt c HL"; elim GR16_cases; simp add: store16_HL_def mem16_simps)
qed

lemma store16_DE_run:
  assumes "GR16 Val" "pairs_ok c" "off_stack (getP DE s) s"
  shows "\<exists>t. run env (store16_DE c Val) s = cont t
    \<and> unchanged (dead_at c) (below_sp s) (store16 (getP DE s) (getP Val s) s) t"
proof (cases "Val = DE")
  case True
  note dead = deadAt_pairD(2) [OF assms(2)]
  show ?thesis
  proof (cases "xchgSpare c")
    case None
    have "deadAt c A \<Longrightarrow> A \<in> dead_at c" by (simp add: deadAtD)
    then show ?thesis using None True off_stackD [OF assms(3)] dead
      by (cases "deadAt c A"; cases "deadAt c DE") (simp_all add: store16_DE_def mem16_simps)
  next
    case (Some r)
    then show ?thesis using xchgSpare_cases [OF Some] True dead
      by (cases "deadAt c DE") (auto simp: store16_DE_def mem16_simps)
  qed
next
  case False
  then show ?thesis using assms(1) deadAt_pairD(2) [OF assms(2)]
    by (cases "deadAt c DE"; elim GR16_cases; simp add: store16_DE_def mem16_simps Let_def)
qed

lemma store16_BC_run:
  assumes "GR16 Val" "Val \<noteq> BC" "pairs_ok c" "off_stack (getP BC s) s"
  shows "\<exists>t. run env (store16_BC c Val) s = cont t
    \<and> unchanged (dead_at c) (below_sp s) (store16 (getP BC s) (getP Val s) s) t"
proof -
  note dead = deadAt_pairD(3) [OF assms(3)]
  consider (A) "deadAt c A" | (none) "\<not> deadAt c A" "spareAt c (Some BC) (Some Val) = None"
    | (Some) r where "\<not> deadAt c A" "spareAt c (Some BC) (Some Val) = Some r" by (cases "deadAt c A") auto
  then show ?thesis
  proof cases
    case A
    then show ?thesis using deadAtD [of c A] dead assms(1,2)
      by (cases "deadAt c BC"; elim GR16_cases; simp add: store16_BC_def mem16_simps)
  next
    case none
    then show ?thesis using dead assms(1,2) off_stackD [OF assms(4)]
      by (cases "deadAt c BC"; elim GR16_cases; simp add: store16_BC_def mem16_simps)
  next
    case Some
    have r: "r \<in> {D, E, H, L} - units Val" "r \<in> dead_at c"
      using findDeadGR8AtMI_props(1,2) [OF Some(2)] findDeadGR8AtMI_props(3) [OF Some(2), of BC]
        findDeadGR8AtMI_props(4) [OF Some(2), of Val] assms(1) by (elim GR16_cases; auto)+
    from assms(1,2) consider "Val = HL" "r = D" | "Val = HL" "r = E" | "Val = DE" "r = H" | "Val = DE" "r = L"
      using r(1) by (elim GR16_cases) auto
    then show ?thesis using Some dead r(2)
      by cases (cases "deadAt c BC"; simp add: store16_BC_def mem16_simps)+
  qed
qed

lemma hi8_incr: "l \<noteq> 0xFF \<Longrightarrow> hi8 (mk16 h l + 1) = h"
proof -
  assume "l \<noteq> 0xFF"
  then have "unat l \<noteq> unat (0xFF :: byte)" by (metis word_unat_eq_iff)
  then have "unat l \<noteq> 255" by simp
  moreover have "lo8 1 = 1" "hi8 1 = 0" by (simp_all add: lo8_def hi8_def)
  note one = this
  ultimately have "\<not> 256 \<le> unat l + 1" using unat_byte_less [of l] by linarith
  then show ?thesis by (simp add: hi8_add one)
qed

text \<open>The shapes of the store of BC through BC that are right.\<close>

definition store_BC_BC_ok :: "mbb_ctx \<Rightarrow> cpu \<Rightarrow> bool" where
  "store_BC_BC_ok c s = (if deadAt c HL \<or> spareAt c (Some BC) None = None then deadAt c BC
                         else r8 s C \<noteq> 0xFF)"

lemma store16_BC_BC_run:
  assumes "pairs_ok c" "off_stack (getP BC s) s" "store_BC_BC_ok c s"
  shows "\<exists>t. run env (store16_BC c BC) s = cont t
    \<and> unchanged (dead_at c) (below_sp s) (store16 (getP BC s) (getP BC s) s) t"
proof -
  note dead = deadAt_pairD(1,3) [OF assms(1)]
  consider (HL) "deadAt c BC" "deadAt c HL"
    | (none) "deadAt c BC" "\<not> deadAt c HL" "spareAt c (Some BC) None = None"
    | (Some) r where "\<not> deadAt c HL" "spareAt c (Some BC) None = Some r" "r8 s C \<noteq> 0xFF"
    using assms(3) by (auto simp: store_BC_BC_ok_def split: if_splits)
  then show ?thesis
  proof cases
    case HL
    then show ?thesis using dead by (simp add: store16_BC_def mem16_simps)
  next
    case none
    then show ?thesis using dead off_stackD [OF assms(2)] by (simp add: store16_BC_def mem16_simps)
  next
    case Some
    have "r \<in> {D, E, H, L}" "r \<in> dead_at c"
      using findDeadGR8AtMI_props(1,2) [OF Some(2)] findDeadGR8AtMI_props(3) [OF Some(2), of BC] by auto
    then consider "r = D" "D \<in> dead_at c" | "r = E" "E \<in> dead_at c" | "r = H" "H \<in> dead_at c"
      | "r = L" "L \<in> dead_at c" by blast
    moreover have "deadAt c A \<Longrightarrow> A \<in> dead_at c" by (simp add: deadAtD)
    moreover have "store16_BC c BC = (if deadAt c A then [] else [MOV r A])
      @ [MOV A C, STAXi BC, INXi INX BC, MOV A B, STAXi BC]
      @ (if deadAt c A then [] else [MOV A r]) @ fixup c BC"
      using Some by (simp add: store16_BC_def Let_def)
    ultimately show ?thesis using dead(2) hi8_incr [OF Some(3), of "r8 s B"]
      by cases (cases "deadAt c A"; cases "deadAt c BC"; simp add: mem16_simps)+
  qed
qed

lemma expand_STORE16_P_run:
  assumes "GR16 Val" "GR16 Addr" "pairs_ok c" "off_stack (getP Addr s) s"
    and "Val = BC \<and> Addr = BC \<longrightarrow> store_BC_BC_ok c s"
  shows "\<exists>t. run env (expand_STORE16_P c Val Addr) s = cont t
    \<and> unchanged (dead_at c) (below_sp s) (store16 (getP Addr s) (getP Val s) s) t"
proof -
  consider "Addr = HL" | "Addr = DE" | "Addr = BC" "Val \<noteq> BC" | "Addr = BC" "Val = BC"
    using assms(2) by (elim GR16_cases) auto
  then show ?thesis
  proof cases
    case 1
    then show ?thesis using store16_HL_run [OF assms(1,3)] assms(4) by (simp add: expand_STORE16_P_def del: getP.simps)
  next
    case 2
    then show ?thesis using store16_DE_run [OF assms(1,3)] assms(4) by (simp add: expand_STORE16_P_def del: getP.simps)
  next
    case 3
    then show ?thesis using store16_BC_run [OF assms(1) 3(2) assms(3)] assms(4)
      by (simp add: expand_STORE16_P_def del: getP.simps)
  next
    case 4
    then show ?thesis using store16_BC_BC_run [OF assms(3)] assms(4,5)
      by (simp add: expand_STORE16_P_def del: getP.simps)
  qed
qed



text \<open>
  With HL dead, or without a spare register, the store of BC through BC goes through HL, yet the
  expansion decrements BC after it: a live BC is one too small.
\<close>

theorem expand_STORE16_P_BC_off_by_one:
  "\<exists>c. \<not> deadAt c BC \<and> (\<forall>env s. \<exists>t. run env (expand_STORE16_P c BC BC) s = cont t
    \<and> getP BC t = getP BC s - 1)"
proof -
  let ?c = "\<lparr>before = [], after = [], liveIns = [], succLiveIns = [[BC, DE, A]], preds = []\<rparr>"
  have "deadAt ?c HL" "\<not> deadAt ?c BC" by (auto simp: deadAt_def liveOut_def)
  then have "\<exists>t. run env (expand_STORE16_P ?c BC BC) s = cont t \<and> getP BC t = getP BC s - 1" for env s
    by (simp add: expand_STORE16_P_def store16_BC_def mem16_simps)
  then show ?thesis using \<open>\<not> deadAt ?c BC\<close> by blast
qed

text \<open>
  Through A the high byte is read after INX B: with a low byte of 255 the carry has already
  changed it, and the word stored is not BC.
\<close>

theorem expand_STORE16_P_BC_reads_incremented:
  "\<exists>c s. pairs_ok c \<and> off_stack (getP BC s) s \<and> (\<forall>env. \<exists>t. run env (expand_STORE16_P c BC BC) s = cont t
    \<and> load16 (getP BC s) t \<noteq> getP BC s)"
proof -
  let ?c = "\<lparr>before = [], after = [], liveIns = [], succLiveIns = [[BC, HL, A]], preds = []\<rparr>"
  let ?s = "\<lparr>r8 = (\<lambda>r. if r = C then 0xFF else 0), fl = szp 0 False False, sp = 0x8000,
    mem = (\<lambda>a. 0), inte = False, iolog = []\<rparr>"
  have FF: "mk16 0 0xFF = 255" by (simp add: mk16_def)
  have code: "expand_STORE16_P ?c BC BC = [MOV D A, MOV A C, STAXi BC, INXi INX BC, MOV A B, STAXi BC,
      MOV A D, INXi DCX BC]"
    by (auto simp: expand_STORE16_P_def store16_BC_def deadAt_def liveOut_def findDeadGR8AtMI_def fixup_def)
  have "pairs_ok ?c" by (auto simp: pairs_ok_def pair_scan_ok_def liveOut_def)
  moreover have "off_stack (getP BC ?s) ?s" by (simp add: off_stack_def below_sp_def FF)
  moreover have "\<exists>t. run env (expand_STORE16_P ?c BC BC) ?s = cont t \<and> load16 (getP BC ?s) t \<noteq> getP BC ?s" for env
  proof -
    have "hi8 256 = 1" "lo8 256 = 0" by (simp_all add: hi8_def lo8_def)
    moreover have "mk16 1 0 = 256" by (simp add: mk16_def)
    moreover have "mk16 1 0xFF \<noteq> (255 :: u16)" by (simp add: mk16_def)
    ultimately show ?thesis unfolding code by (simp add: mem16_simps FF setR_def)
  qed
  ultimately show ?thesis by blast
qed

section \<open>LOAD16_G and STORE16_G\<close>

text \<open>The address operand of the emitted instruction, \<open>Bias\<close> bytes further.\<close>

fun addrAt :: "machine_operand \<Rightarrow> int \<Rightarrow> machine_operand option" where
  "addrAt (MO_GlobalAddress g off _) Bias = Some (MO_GlobalAddress g (off + Bias) MO_NO_FLAG)"
| "addrAt (MO_Immediate i) Bias = Some (MO_Immediate (i + Bias))"
| "addrAt _ _ = None"

definition LHLDi :: "machine_operand \<Rightarrow> machine_instr" where
  "LHLDi x = BuildMI LHLD [addRegDef HL, x]"

definition SHLDi :: "machine_operand \<Rightarrow> machine_instr" where
  "SHLDi x = BuildMI SHLD [addReg HL, x]"

definition LDAi :: "machine_operand \<Rightarrow> machine_instr" where
  "LDAi x = BuildMI LDA [addRegDef A, x]"

definition STAi :: "machine_operand \<Rightarrow> machine_instr" where
  "STAi x = BuildMI STA [addReg A, x]"

definition expand_LOAD16_G :: "mbb_ctx \<Rightarrow> preg \<Rightarrow> machine_operand \<Rightarrow> machine_instr list option" where
  "expand_LOAD16_G c DstReg AddrOp = (case (addrAt AddrOp 0, addrAt AddrOp 1) of
     (Some x, Some x1) \<Rightarrow> Some
       (if DstReg = HL then [LHLDi x]
        else if DstReg = DE then
          if deadAt c HL then [LHLDi x, XCHGi]
          else [if \<not> isRegLiveBefore (liveIns c) (before c) DE then markXchgUseUndef DE XCHGi else XCHGi,
                LHLDi x, XCHGi]
        else if deadAt c HL then [LHLDi x, MOV (subHi DstReg) H, MOV (subLo DstReg) L]
        else if deadAt c A then [LDAi x, MOV (subLo DstReg) A, LDAi x1, MOV (subHi DstReg) A]
        else wrapHL [LHLDi x, MOV (subHi DstReg) H, MOV (subLo DstReg) L])
   | _ \<Rightarrow> None)"

definition expand_STORE16_G :: "mbb_ctx \<Rightarrow> preg \<Rightarrow> machine_operand \<Rightarrow> machine_instr list option" where
  "expand_STORE16_G c ValReg AddrOp = (case (addrAt AddrOp 0, addrAt AddrOp 1) of
     (Some x, Some x1) \<Rightarrow> Some
       (if ValReg = HL then [SHLDi x]
        else if ValReg = DE then [XCHGi, SHLDi x] @ (if \<not> deadAt c HL then [XCHGi] else [])
        else if deadAt c HL then [MOV H B, MOV L C, SHLDi x]
        else if deadAt c A then [MOV A C, STAi x, MOV A B, STAi x1]
        else wrapHL [MOV H B, MOV L C, SHLDi x])
   | _ \<Rightarrow> None)"

lemma addrAt_exec:
  assumes "addrAt x 0 = Some y" "addrAt x 1 = Some z" "opval env y = Some a"
  shows "exec env (LHLDi y) s = cont (setP HL (load16 a s) s)"
    "exec env (SHLDi y) s = cont (store16 a (getP HL s) s)"
    "exec env (LDAi y) s = cont (setR A (mem s a) s)" "exec env (LDAi z) s = cont (setR A (mem s (a + 1)) s)"
    "exec env (STAi y) s = cont (store8 a (r8 s A) s)" "exec env (STAi z) s = cont (store8 (a + 1) (r8 s A) s)"
  using assms by (cases x; auto simp: LHLDi_def SHLDi_def LDAi_def STAi_def exec_BuildMI step_simps ac_simps)+

lemma expand_LOAD16_G_run:
  assumes "GR16 Dst" "pairs_ok c" "expand_LOAD16_G c Dst x = Some ms" "addrAt x 0 = Some y"
    and "opval env y = Some a" "off_stack a s"
  shows "\<exists>t. run env ms s = cont t \<and> getP Dst t = load16 a s
    \<and> unchanged (units Dst \<union> dead_at c) (below_sp s) s t"
proof -
  obtain z where z: "addrAt x 1 = Some z" using assms(4) by (cases x) auto
  note ex = addrAt_exec [OF assms(4) z assms(5)] and dead = deadAt_pairD(1) [OF assms(2)] deadAtD [of c A]
  have code: "expand_LOAD16_G c Dst x = Some ms" by (rule assms(3))
  have xg: "exec env (if P then markXchgUseUndef DE XCHGi else XCHGi) u = exec env XCHGi u" for P u
    by (simp add: exec_markXchgUseUndef)
  consider (HL) "Dst = HL" | (DE) "Dst = DE" "deadAt c HL" | (DE2) "Dst = DE" "\<not> deadAt c HL"
    | (BC) "Dst = BC" "deadAt c HL" | (A) "Dst = BC" "\<not> deadAt c HL" "deadAt c A"
    | (push) "Dst = BC" "\<not> deadAt c HL" "\<not> deadAt c A" using assms(1) by (elim GR16_cases) auto
  then show ?thesis
  proof cases
    case HL
    then have ms: "ms = [LHLDi y]" using code z assms(4) by (auto simp: expand_LOAD16_G_def)
    show ?thesis unfolding ms HL by (simp add: ex unchanged_code)
  next
    case DE
    then have ms: "ms = [LHLDi y, XCHGi]" using code z assms(4) by (auto simp: expand_LOAD16_G_def)
    show ?thesis unfolding ms DE(1) using dead(1) [OF DE(2)]
      by (simp add: ex exec_shapes unchanged_code load16_def)
  next
    case DE2
    then obtain P where ms: "ms = [if P then markXchgUseUndef DE XCHGi else XCHGi, LHLDi y, XCHGi]"
      using code z assms(4) by (auto simp: expand_LOAD16_G_def)
    show ?thesis unfolding ms DE2(1) by (simp add: xg ex exec_shapes unchanged_code load16_def)
  next
    case BC
    then have ms: "ms = [LHLDi y, MOV B H, MOV C L]" using code z assms(4) by (auto simp: expand_LOAD16_G_def)
    show ?thesis unfolding ms BC(1) using dead(1) [OF BC(2)]
      by (simp add: ex exec_shapes unchanged_code load16_def)
  next
    case A
    then have ms: "ms = [LDAi y, MOV C A, LDAi z, MOV B A]"
      using code z assms(4) by (auto simp: expand_LOAD16_G_def)
    show ?thesis unfolding ms A(1) using dead(2) [OF A(3)]
      by (simp add: ex exec_shapes unchanged_code load16_def)
  next
    case push
    then have ms: "ms = wrapHL [LHLDi y, MOV B H, MOV C L]"
      using code z assms(4) by (auto simp: expand_LOAD16_G_def)
    show ?thesis unfolding ms push(1) using off_stackD [OF assms(6)]
      by (simp add: wrapHL_def ex exec_shapes exec_mem unchanged_code load16_def pop16_def below_sp_def)
  qed
qed

lemma expand_STORE16_G_run:
  assumes "GR16 Val" "pairs_ok c" "expand_STORE16_G c Val x = Some ms" "addrAt x 0 = Some y"
    and "opval env y = Some a" "off_stack a s" and ok: "Val = DE \<and> deadAt c HL \<longrightarrow> deadAt c DE"
  shows "\<exists>t. run env ms s = cont t \<and> unchanged (dead_at c) (below_sp s) (store16 a (getP Val s) s) t"
proof -
  obtain z where z: "addrAt x 1 = Some z" using assms(4) by (cases x) auto
  note ex = addrAt_exec [OF assms(4) z assms(5)] and dead = deadAt_pairD(1,2) [OF assms(2)] deadAtD [of c A]
  note code = assms(3)
  consider (HL) "Val = HL" | (DE) "Val = DE" "deadAt c HL" "deadAt c DE" | (DE2) "Val = DE" "\<not> deadAt c HL"
    | (BC) "Val = BC" "deadAt c HL" | (A) "Val = BC" "\<not> deadAt c HL" "deadAt c A"
    | (push) "Val = BC" "\<not> deadAt c HL" "\<not> deadAt c A" using assms(1) ok by (elim GR16_cases) auto
  then show ?thesis
  proof cases
    case HL
    then have ms: "ms = [SHLDi y]" using code z assms(4) by (auto simp: expand_STORE16_G_def)
    show ?thesis unfolding ms HL by (simp add: ex unchanged_code)
  next
    case DE
    then have ms: "ms = [XCHGi, SHLDi y]" using code z assms(4) by (auto simp: expand_STORE16_G_def)
    show ?thesis unfolding ms DE(1) using dead(1) [OF DE(2)] dead(2) [OF DE(3)]
      by (simp add: ex exec_shapes unchanged_code)
  next
    case DE2
    then have ms: "ms = [XCHGi, SHLDi y, XCHGi]" using code z assms(4) by (auto simp: expand_STORE16_G_def)
    show ?thesis unfolding ms DE2(1) by (simp add: ex exec_shapes unchanged_code)
  next
    case BC
    then have ms: "ms = [MOV H B, MOV L C, SHLDi y]" using code z assms(4) by (auto simp: expand_STORE16_G_def)
    show ?thesis unfolding ms BC(1) using dead(1) [OF BC(2)] by (simp add: ex exec_shapes unchanged_code)
  next
    case A
    then have ms: "ms = [MOV A C, STAi y, MOV A B, STAi z]"
      using code z assms(4) by (auto simp: expand_STORE16_G_def)
    show ?thesis unfolding ms A(1) using dead(3) [OF A(3)] by (simp add: ex exec_shapes unchanged_code)
  next
    case push
    then have ms: "ms = wrapHL [MOV H B, MOV L C, SHLDi y]"
      using code z assms(4) by (auto simp: expand_STORE16_G_def)
    show ?thesis unfolding ms push(1) using off_stackD [OF assms(6)]
      by (simp add: wrapHL_def ex exec_shapes exec_mem unchanged_code pop16_def below_sp_def)
  qed
qed

text \<open>
  LOAD16_G and STORE16_G move a word between a pair and a fixed address, an immediate or a symbol
  with an offset, and preserve everything that is not dead.  The store of DE needs DE dead when HL
  is dead, which the code does not ask for.
\<close>

theorem expand_WORD_G_correct:
  assumes "GR16 r" "pairs_ok c" "addrAt x 0 = Some y" "opval env y = Some a" "off_stack a s"
  shows "(\<exists>ms t. expand_LOAD16_G c r x = Some ms \<and> run env ms s = cont t \<and> getP r t = load16 a s
      \<and> unchanged (units r \<union> dead_at c) (below_sp s) s t)
    \<and> ((r = DE \<and> deadAt c HL \<longrightarrow> deadAt c DE) \<longrightarrow> (\<exists>ms t. expand_STORE16_G c r x = Some ms
      \<and> run env ms s = cont t \<and> unchanged (dead_at c) (below_sp s) (store16 a (getP r s) s) t))"
proof -
  obtain z where z: "addrAt x 1 = Some z" using assms(3) by (cases x) auto
  obtain ms where ms: "expand_LOAD16_G c r x = Some ms" using assms(3) z by (auto simp: expand_LOAD16_G_def)
  obtain ns where ns: "expand_STORE16_G c r x = Some ns" using assms(3) z by (auto simp: expand_STORE16_G_def)
  show ?thesis
    using expand_LOAD16_G_run [OF assms(1,2) ms assms(3,4,5)] expand_STORE16_G_run [OF assms(1,2) ns assms(3,4,5)]
      ms ns by blast
qed

theorem expand_WORD_G_correct_witness:
  "\<forall>env s. \<exists>ms t. expand_LOAD16_G ctx_live DE (MO_GlobalAddress ''g'' 2 MO_NO_FLAG) = Some ms
    \<and> run env ms (s\<lparr>sp := symaddr env ''g'' + 2\<rparr>) = cont t
    \<and> getP DE t = load16 (symaddr env ''g'' + 2) s \<and> getP HL t = getP HL s"
proof (intro allI)
  fix env :: senv and s :: cpu
  let ?a = "symaddr env ''g'' + 2" and ?x = "MO_GlobalAddress ''g'' 2 MO_NO_FLAG"
  let ?s = "s\<lparr>sp := ?a\<rparr>"
  have o: "off_stack ?a ?s" by (simp add: off_stack_def below_sp_def)
  obtain ms t where "expand_LOAD16_G ctx_live DE ?x = Some ms" "run env ms ?s = cont t"
    "getP DE t = load16 ?a ?s" "unchanged {D, E} (below_sp ?s) ?s t"
    using expand_WORD_G_correct [of DE ctx_live ?x ?x env ?a ?s] o by (auto simp del: getP.simps)
  then show "\<exists>ms t. expand_LOAD16_G ctx_live DE ?x = Some ms \<and> run env ms ?s = cont t
      \<and> getP DE t = load16 ?a s \<and> getP HL t = getP HL s"
    by (intro exI [of _ ms] exI [of _ t]) (simp add: unchanged_code load16_def)
qed

text \<open>
  The store of DE to a fixed address exchanges DE with HL and, when HL is dead, leaves it so: a
  live DE then holds the old HL.
\<close>

theorem expand_STORE16_G_clobbers_DE:
  "\<exists>c. \<not> deadAt c DE \<and> (\<forall>env s. \<exists>ms t. expand_STORE16_G c DE (MO_Immediate 256) = Some ms
    \<and> run env ms s = cont t \<and> getP DE t = getP HL s)"
proof -
  let ?c = "\<lparr>before = [], after = [], liveIns = [], succLiveIns = [[BC, DE, A]], preds = []\<rparr>"
  have hl: "deadAt ?c HL" "\<not> deadAt ?c DE" by (auto simp: deadAt_def liveOut_def)
  then have "expand_STORE16_G ?c DE (MO_Immediate 256) = Some [XCHGi, SHLDi (MO_Immediate 256)]"
    by (simp add: expand_STORE16_G_def)
  moreover have "\<exists>t. run env [XCHGi, SHLDi (MO_Immediate 256)] s = cont t \<and> getP DE t = getP HL s" for env s
    using addrAt_exec(2) [of "MO_Immediate 256" "MO_Immediate 256" "MO_Immediate 257" env 256]
    by (simp add: exec_shapes)
  ultimately show ?thesis using hl(2) by blast
qed

end
