(* ===== verification/Dispatch.thy ===== *)
theory Dispatch
  imports ExpandArith ExpandAdd ExpandLogic ExpandCmp ExpandShiftRight ExpandStore16 "HOL-Library.Monad_Syntax"
begin

text \<open>
  \<open>expandPostRAPseudo\<close> as a whole: the dispatch over the pseudo opcodes with their operands, and
  its specification.  \<open>effect\<close> is the abstract meaning of a data pseudo and \<open>data_step\<close> what the
  compiler may assume about one: besides the effect, the registers that its description lists as
  implicit definitions and the two bytes below the stack pointer are arbitrary afterwards.  Every
  expansion refines that step, and the block around it ends as it would with the step.
\<close>

section \<open>The dispatch\<close>

datatype (plugins only: code size) expansion =
  NotExpanded
| Expanded "machine_instr list" "machine_instr list"
| SplitBlock "machine_instr list" "nat list" "machine_instr list" "nat list" "preg list"

text \<open>
  \<open>Expanded bef code\<close>: the pseudo is erased, \<open>bef\<close> is left before it and \<open>code\<close> takes its place.
\<close>

fun of_br :: "mbb_ctx \<Rightarrow> br_expansion \<Rightarrow> expansion" where
  "of_br c (InPlace code) = Expanded (before c) code"
| "of_br c (Split main ms hi hs lives) = SplitBlock main ms hi hs lives"

definition opKill :: "machine_instr \<Rightarrow> nat \<Rightarrow> bool" where
  "opKill m i = (i < length (operands m) \<and> isKill (operands m ! i))"

definition opAt :: "machine_instr \<Rightarrow> nat \<Rightarrow> machine_operand option" where
  "opAt m i = (if i < length (operands m) then Some (operands m ! i) else None)"

text \<open>An immediate that the code reads as \<open>unsigned\<close>.\<close>

definition opUnsigned :: "machine_instr \<Rightarrow> nat \<Rightarrow> nat option" where
  "opUnsigned m i = map_option (\<lambda>k. nat (k mod 2 ^ 32)) (opImm m i)"

fun expand_pseudo ::
  "V6ClangOptMode \<Rightarrow> mbb_ctx \<Rightarrow> nat list \<Rightarrow> nat \<Rightarrow> machine_instr \<Rightarrow> pseudo \<Rightarrow> expansion option" where
  "expand_pseudo Mode c succs new MI V6CLANG_BUILD_PAIR = do {
     d \<leftarrow> opReg MI 0; l \<leftarrow> opReg MI 1; h \<leftarrow> opReg MI 2;
     Some (Expanded (before c) (expand_BUILD_PAIR d l h)) }"
| "expand_pseudo Mode c succs new MI V6CLANG_NEG16 = do {
     d \<leftarrow> opReg MI 0; r \<leftarrow> opReg MI 1; Some (Expanded (before c) (expand_NEG16 c d r)) }"
| "expand_pseudo Mode c succs new MI V6CLANG_NEG8 = do {
     d \<leftarrow> opReg MI 0; r \<leftarrow> opReg MI 1;
     Some (case_prod Expanded (expand_NEG8 c d r (opKill MI 1))) }"
| "expand_pseudo Mode c succs new MI V6CLANG_SEXT = do {
     d \<leftarrow> opReg MI 0; r \<leftarrow> opReg MI 1; Some (Expanded (before c) (expand_SEXT d r)) }"
| "expand_pseudo Mode c succs new MI V6CLANG_BRCOND = do {
     b \<leftarrow> opMBB MI 0; cc \<leftarrow> opImm MI 1;
     map_option (Expanded (before c)) (expand_BRCOND b cc) }"
| "expand_pseudo Mode c succs new MI V6CLANG_INX16 = do {
     r \<leftarrow> opReg MI 0; n \<leftarrow> opImm MI 2; Some (Expanded (before c) (expand_INX16 INX r n)) }"
| "expand_pseudo Mode c succs new MI V6CLANG_DCX16 = do {
     r \<leftarrow> opReg MI 0; n \<leftarrow> opImm MI 2; Some (Expanded (before c) (expand_INX16 DCX r n)) }"
| "expand_pseudo Mode c succs new MI V6CLANG_DAD = do {
     d \<leftarrow> opReg MI 0; l \<leftarrow> opReg MI 1; r \<leftarrow> opReg MI 2;
     Some (case_prod Expanded (expand_DAD Mode c MI d l r)) }"
| "expand_pseudo Mode c succs new MI V6CLANG_ADD16 = do {
     d \<leftarrow> opReg MI 0; l \<leftarrow> opReg MI 1; r \<leftarrow> opReg MI 2;
     Some (case_prod Expanded (expand_ADD16 Mode c MI d l r)) }"
| "expand_pseudo Mode c succs new MI V6CLANG_SUB16 = do {
     d \<leftarrow> opReg MI 0; l \<leftarrow> opReg MI 1; r \<leftarrow> opReg MI 2;
     Some (case_prod Expanded (expand_SUB16 Mode c MI d l r)) }"
| "expand_pseudo Mode c succs new MI V6CLANG_CMP16_ZERO = do {
     r \<leftarrow> opReg MI 0; Some (Expanded (before c) (expand_CMP16_ZERO r)) }"
| "expand_pseudo Mode c succs new MI V6CLANG_CMP16_SIGN = do {
     r \<leftarrow> opReg MI 0; Some (Expanded (before c) (expand_CMP16_SIGN c r)) }"
| "expand_pseudo Mode c succs new MI V6CLANG_CMP8_ZERO = do {
     r \<leftarrow> opReg MI 0; Some (Expanded (before c) (expand_CMP8_ZERO c r (opKill MI 0))) }"
| "expand_pseudo Mode c succs new MI V6CLANG_CMP16 = do {
     l \<leftarrow> opReg MI 0; r \<leftarrow> opReg MI 1; Some (Expanded (before c) (expand_CMP16 l r)) }"
| "expand_pseudo Mode c succs new MI V6CLANG_CMP16_IMM = do {
     l \<leftarrow> opReg MI 0; x \<leftarrow> opAt MI 1; code \<leftarrow> expand_CMP16_IMM l x;
     Some (Expanded (before c) code) }"
| "expand_pseudo Mode c succs new MI V6CLANG_BR_CC16 = do {
     l \<leftarrow> opReg MI 0; r \<leftarrow> opReg MI 1; cc \<leftarrow> opImm MI 2; b \<leftarrow> opMBB MI 3;
     map_option (of_br c) (expand_BR_CC16 c MI succs new l r cc b) }"
| "expand_pseudo Mode c succs new MI V6CLANG_BR_CC16_IMM = do {
     l \<leftarrow> opReg MI 0; x \<leftarrow> opAt MI 1; cc \<leftarrow> opImm MI 2; b \<leftarrow> opMBB MI 3;
     map_option (of_br c) (expand_BR_CC16_IMM c MI succs new l x cc b) }"
| "expand_pseudo Mode c succs new MI V6CLANG_LOAD16_P = do {
     d \<leftarrow> opReg MI 0; a \<leftarrow> opReg MI 1; Some (Expanded (before c) (expand_LOAD16_P c d a)) }"
| "expand_pseudo Mode c succs new MI V6CLANG_STORE16_P = do {
     r \<leftarrow> opReg MI 0; a \<leftarrow> opReg MI 1; Some (Expanded (before c) (expand_STORE16_P c r a)) }"
| "expand_pseudo Mode c succs new MI V6CLANG_LOAD16_G = do {
     d \<leftarrow> opReg MI 0; x \<leftarrow> opAt MI 1; code \<leftarrow> expand_LOAD16_G c d x;
     Some (Expanded (before c) code) }"
| "expand_pseudo Mode c succs new MI V6CLANG_STORE16_G = do {
     r \<leftarrow> opReg MI 0; x \<leftarrow> opAt MI 1; code \<leftarrow> expand_STORE16_G c r x;
     Some (Expanded (before c) code) }"
| "expand_pseudo Mode c succs new MI V6CLANG_SHL16_DAD = do {
     d \<leftarrow> opReg MI 0; r \<leftarrow> opReg MI 1; n \<leftarrow> opUnsigned MI 2;
     Some (Expanded (before c) (expand_SHL16_DAD c d r n)) }"
| "expand_pseudo Mode c succs new MI V6CLANG_SHL16_BYTE = do {
     d \<leftarrow> opReg MI 0; r \<leftarrow> opReg MI 1; Some (Expanded (before c) (expand_SHL16_BYTE d r)) }"
| "expand_pseudo Mode c succs new MI V6CLANG_SHL16_RAM_HI = do {
     d \<leftarrow> opReg MI 0; r \<leftarrow> opReg MI 1; n \<leftarrow> opUnsigned MI 2;
     Some (Expanded (before c) (expand_SHL16_RAM_HI d r n)) }"
| "expand_pseudo Mode c succs new MI V6CLANG_SRL16_RAR = do {
     d \<leftarrow> opReg MI 0; r \<leftarrow> opReg MI 1; n \<leftarrow> opUnsigned MI 2;
     Some (Expanded (before c) (expand_SRL16_RAR c d r n)) }"
| "expand_pseudo Mode c succs new MI V6CLANG_SRL16_24BIT = do {
     d \<leftarrow> opReg MI 0; r \<leftarrow> opReg MI 1; n \<leftarrow> opUnsigned MI 2;
     Some (Expanded (before c) (expand_SRL16_24BIT c d r n)) }"
| "expand_pseudo Mode c succs new MI V6CLANG_SRL16_BYTE = do {
     d \<leftarrow> opReg MI 0; r \<leftarrow> opReg MI 1; Some (Expanded (before c) (expand_SRL16_BYTE d r)) }"
| "expand_pseudo Mode c succs new MI V6CLANG_SRL16_RAM_LO = do {
     d \<leftarrow> opReg MI 0; r \<leftarrow> opReg MI 1; n \<leftarrow> opUnsigned MI 2;
     Some (Expanded (before c) (expand_SRL16_RAM_LO d r n)) }"
| "expand_pseudo Mode c succs new MI V6CLANG_SRA16_RAR = do {
     d \<leftarrow> opReg MI 0; r \<leftarrow> opReg MI 1; n \<leftarrow> opUnsigned MI 2;
     Some (Expanded (before c) (expand_SRA16_RAR d r n)) }"
| "expand_pseudo Mode c succs new MI V6CLANG_SRA16_24BIT = do {
     d \<leftarrow> opReg MI 0; r \<leftarrow> opReg MI 1; n \<leftarrow> opUnsigned MI 2;
     Some (Expanded (before c) (expand_SRA16_24BIT c d r n)) }"
| "expand_pseudo Mode c succs new MI V6CLANG_SRA16_BYTE = do {
     d \<leftarrow> opReg MI 0; r \<leftarrow> opReg MI 1; Some (Expanded (before c) (expand_SRA16_BYTE d r)) }"
| "expand_pseudo Mode c succs new MI V6CLANG_SRA16_RAM_LO = do {
     d \<leftarrow> opReg MI 0; r \<leftarrow> opReg MI 1; n \<leftarrow> opUnsigned MI 2;
     Some (Expanded (before c) (expand_SRA16_RAM_LO c d r n)) }"
| "expand_pseudo Mode c succs new MI V6CLANG_ROTL16_1 = Some (Expanded (before c) expand_ROTL16_1)"
| "expand_pseudo Mode c succs new MI V6CLANG_LOAD8_P = do {
     d \<leftarrow> opReg MI 0; a \<leftarrow> opReg MI 1; Some (Expanded (before c) (expand_LOAD8_P c d a)) }"
| "expand_pseudo Mode c succs new MI V6CLANG_STORE8_P = do {
     r \<leftarrow> opReg MI 0; a \<leftarrow> opReg MI 1; Some (Expanded (before c) (expand_STORE8_P c r a)) }"
| "expand_pseudo Mode c succs new MI (V6CLANG_ALU_M_P op) = do {
     a \<leftarrow> opReg MI (if op = CMP then 1 else 2); Some (Expanded (before c) (expand_ALU_M_P op c a)) }"
| "expand_pseudo Mode c succs new MI V6CLANG_STORE8_IMM_P = do {
     i \<leftarrow> opImm MI 0; a \<leftarrow> opReg MI 1; Some (Expanded (before c) (expand_STORE8_IMM_P c i a)) }"
| "expand_pseudo Mode c succs new MI V6CLANG_INR_M_P = do {
     a \<leftarrow> opReg MI 0; Some (Expanded (before c) (expand_INR_DCR_M_P INRM c a)) }"
| "expand_pseudo Mode c succs new MI V6CLANG_DCR_M_P = do {
     a \<leftarrow> opReg MI 0; Some (Expanded (before c) (expand_INR_DCR_M_P DCRM c a)) }"
| "expand_pseudo Mode c succs new MI p = (case logic_opc p of
     Some op \<Rightarrow> do { d \<leftarrow> opReg MI 0; l \<leftarrow> opReg MI 1; r \<leftarrow> opReg MI 2;
       Some (Expanded (before c) (expand_LOGIC16 op c d l r)) }
   | None \<Rightarrow> (case logic_imm_opc p of
     Some op \<Rightarrow> do { d \<leftarrow> opReg MI 0; i \<leftarrow> opImm MI 2;
       Some (Expanded (before c) (expand_LOGIC16_IMM op c d i)) }
   | None \<Rightarrow> Some NotExpanded))"

text \<open>
  With annotation on, a comment naming the opcode is put in front of the pseudo before the
  dispatch, so the scans of the expansions see it; it goes again when nothing is expanded.
\<close>

definition commentMI :: "int \<Rightarrow> machine_instr" where
  "commentMI num = BuildMI (PSEUDO V6CLANG_PSEUDO_COMMENT) [addImm num]"

definition annotated :: "bool \<Rightarrow> int \<Rightarrow> mbb_ctx \<Rightarrow> mbb_ctx" where
  "annotated annotate num c = (if annotate then c\<lparr>before := before c @ [commentMI num]\<rparr> else c)"

definition expandPostRAPseudo ::
  "bool \<Rightarrow> (opcode \<Rightarrow> int) \<Rightarrow> V6ClangOptMode \<Rightarrow> mbb_ctx \<Rightarrow> nat list \<Rightarrow> nat \<Rightarrow> machine_instr
    \<Rightarrow> expansion option" where
  "expandPostRAPseudo annotate getOpcode Mode c succs new MI = (case opcode MI of
     PSEUDO p \<Rightarrow> expand_pseudo Mode (annotated annotate (getOpcode (opcode MI)) c) succs new MI p
   | _ \<Rightarrow> Some NotExpanded)"

section \<open>The abstract meaning of a data pseudo\<close>

text \<open>
  The register operands of the data pseudos with their classes, and the pseudos whose first two
  operands are tied (V6ClangInstrInfo.td).
\<close>

fun operand_classes :: "pseudo \<Rightarrow> (nat \<times> (preg \<Rightarrow> bool)) list" where
  "operand_classes V6CLANG_BUILD_PAIR = [(0, GR16), (1, GR8), (2, GR8)]"
| "operand_classes V6CLANG_NEG8 = [(0, GR8), (1, GR8)]"
| "operand_classes V6CLANG_SEXT = [(0, GR16), (1, GR8)]"
| "operand_classes V6CLANG_ROTL16_1 = [(0, (=) HL), (1, (=) HL)]"
| "operand_classes V6CLANG_DAD = [(0, GR16), (1, GR16), (2, GR16All)]"
| "operand_classes V6CLANG_ADD16 = [(0, GR16), (1, GR16), (2, GR16)]"
| "operand_classes V6CLANG_SUB16 = [(0, GR16), (1, GR16), (2, GR16)]"
| "operand_classes V6CLANG_AND16 = [(0, GR16), (1, GR16), (2, GR16)]"
| "operand_classes V6CLANG_OR16 = [(0, GR16), (1, GR16), (2, GR16)]"
| "operand_classes V6CLANG_XOR16 = [(0, GR16), (1, GR16), (2, GR16)]"
| "operand_classes V6CLANG_LOAD8_P = [(0, GR8), (1, GR16)]"
| "operand_classes V6CLANG_STORE8_P = [(0, GR8), (1, GR16)]"
| "operand_classes (V6CLANG_ALU_M_P op) = (if op = CMP then [(0, (=) A), (1, GR16)]
     else [(0, (=) A), (1, (=) A), (2, GR16)])"
| "operand_classes V6CLANG_STORE8_IMM_P = [(1, GR16)]"
| "operand_classes V6CLANG_INR_M_P = [(0, GR16)]"
| "operand_classes V6CLANG_DCR_M_P = [(0, GR16)]"
| "operand_classes V6CLANG_LOAD16_G = [(0, GR16)]"
| "operand_classes V6CLANG_STORE16_G = [(0, GR16)]"
| "operand_classes V6CLANG_CMP16_ZERO = [(0, GR16)]"
| "operand_classes V6CLANG_CMP16_SIGN = [(0, GR16)]"
| "operand_classes V6CLANG_CMP8_ZERO = [(0, GR8)]"
| "operand_classes V6CLANG_CMP16_IMM = [(0, GR16)]"
| "operand_classes V6CLANG_BR_CC16_IMM = [(0, GR16)]"
| "operand_classes V6CLANG_BRCOND = []"
| "operand_classes _ = [(0, GR16), (1, GR16)]"

definition reg_in :: "machine_instr \<Rightarrow> nat \<Rightarrow> (preg \<Rightarrow> bool) \<Rightarrow> bool" where
  "reg_in m i K = (case opReg m i of Some r \<Rightarrow> K r | None \<Rightarrow> False)"

definition tied :: "pseudo \<Rightarrow> bool" where
  "tied p = (p = V6CLANG_INX16 \<or> p = V6CLANG_DCX16 \<or> logic_imm_opc p \<noteq> None)"

definition operands_ok :: "machine_instr \<Rightarrow> pseudo \<Rightarrow> bool" where
  "operands_ok m p = (list_all (\<lambda>(i, K). reg_in m i K) (operand_classes p)
     \<and> (tied p \<longrightarrow> opReg m 0 = opReg m 1))"

lemma reg_in_iff: "reg_in m i K \<longleftrightarrow> (\<exists>r. opReg m i = Some r \<and> K r)"
  by (simp add: reg_in_def split: option.splits)

text \<open>What the instruction selection means by each data pseudo.\<close>

fun effect :: "senv \<Rightarrow> machine_instr \<Rightarrow> pseudo \<Rightarrow> cpu \<Rightarrow> cpu option" where
  "effect env m V6CLANG_BUILD_PAIR s = do {
     d \<leftarrow> opReg m 0; l \<leftarrow> opReg m 1; h \<leftarrow> opReg m 2; Some (setP d (mk16 (r8 s h) (r8 s l)) s) }"
| "effect env m V6CLANG_NEG16 s = do { d \<leftarrow> opReg m 0; r \<leftarrow> opReg m 1; Some (setP d (- getP r s) s) }"
| "effect env m V6CLANG_NEG8 s = do { d \<leftarrow> opReg m 0; r \<leftarrow> opReg m 1; Some (setR d (- r8 s r) s) }"
| "effect env m V6CLANG_SEXT s = do { d \<leftarrow> opReg m 0; r \<leftarrow> opReg m 1; Some (setP d (scast (r8 s r)) s) }"
| "effect env m V6CLANG_INX16 s = do { d \<leftarrow> opReg m 0; r \<leftarrow> opReg m 1; n \<leftarrow> opImm m 2;
     Some (setP d (getP r s + word_of_int n) s) }"
| "effect env m V6CLANG_DCX16 s = do { d \<leftarrow> opReg m 0; r \<leftarrow> opReg m 1; n \<leftarrow> opImm m 2;
     Some (setP d (getP r s - word_of_int n) s) }"
| "effect env m V6CLANG_DAD s = do {
     d \<leftarrow> opReg m 0; l \<leftarrow> opReg m 1; r \<leftarrow> opReg m 2; Some (setP d (getP l s + getP r s) s) }"
| "effect env m V6CLANG_ADD16 s = do {
     d \<leftarrow> opReg m 0; l \<leftarrow> opReg m 1; r \<leftarrow> opReg m 2; Some (setP d (getP l s + getP r s) s) }"
| "effect env m V6CLANG_SUB16 s = do {
     d \<leftarrow> opReg m 0; l \<leftarrow> opReg m 1; r \<leftarrow> opReg m 2; Some (setP d (getP l s - getP r s) s) }"
| "effect env m V6CLANG_LOAD16_P s = do {
     d \<leftarrow> opReg m 0; a \<leftarrow> opReg m 1; Some (setP d (load16 (getP a s) s) s) }"
| "effect env m V6CLANG_STORE16_P s = do {
     r \<leftarrow> opReg m 0; a \<leftarrow> opReg m 1; Some (store16 (getP a s) (getP r s) s) }"
| "effect env m V6CLANG_LOAD16_G s = do {
     d \<leftarrow> opReg m 0; x \<leftarrow> opAt m 1; y \<leftarrow> addrAt x 0; a \<leftarrow> opval env y; Some (setP d (load16 a s) s) }"
| "effect env m V6CLANG_STORE16_G s = do {
     r \<leftarrow> opReg m 0; x \<leftarrow> opAt m 1; y \<leftarrow> addrAt x 0; a \<leftarrow> opval env y; Some (store16 a (getP r s) s) }"
| "effect env m V6CLANG_SHL16_DAD s = do { d \<leftarrow> opReg m 0; r \<leftarrow> opReg m 1; n \<leftarrow> opUnsigned m 2;
     Some (setP d (push_bit n (getP r s)) s) }"
| "effect env m V6CLANG_SHL16_BYTE s = do { d \<leftarrow> opReg m 0; r \<leftarrow> opReg m 1;
     Some (setP d (push_bit 8 (getP r s)) s) }"
| "effect env m V6CLANG_SHL16_RAM_HI s = do { d \<leftarrow> opReg m 0; r \<leftarrow> opReg m 1; n \<leftarrow> opUnsigned m 2;
     Some (setP d (push_bit n (getP r s)) s) }"
| "effect env m V6CLANG_SRL16_RAR s = do { d \<leftarrow> opReg m 0; r \<leftarrow> opReg m 1; n \<leftarrow> opUnsigned m 2;
     Some (setP d (drop_bit n (getP r s)) s) }"
| "effect env m V6CLANG_SRL16_24BIT s = do { d \<leftarrow> opReg m 0; r \<leftarrow> opReg m 1; n \<leftarrow> opUnsigned m 2;
     Some (setP d (drop_bit n (getP r s)) s) }"
| "effect env m V6CLANG_SRL16_BYTE s = do { d \<leftarrow> opReg m 0; r \<leftarrow> opReg m 1;
     Some (setP d (drop_bit 8 (getP r s)) s) }"
| "effect env m V6CLANG_SRL16_RAM_LO s = do { d \<leftarrow> opReg m 0; r \<leftarrow> opReg m 1; n \<leftarrow> opUnsigned m 2;
     Some (setP d (drop_bit n (getP r s)) s) }"
| "effect env m V6CLANG_SRA16_RAR s = do { d \<leftarrow> opReg m 0; r \<leftarrow> opReg m 1; n \<leftarrow> opUnsigned m 2;
     Some (setP d (signed_drop_bit n (getP r s)) s) }"
| "effect env m V6CLANG_SRA16_24BIT s = do { d \<leftarrow> opReg m 0; r \<leftarrow> opReg m 1; n \<leftarrow> opUnsigned m 2;
     Some (setP d (signed_drop_bit n (getP r s)) s) }"
| "effect env m V6CLANG_SRA16_BYTE s = do { d \<leftarrow> opReg m 0; r \<leftarrow> opReg m 1;
     Some (setP d (signed_drop_bit 8 (getP r s)) s) }"
| "effect env m V6CLANG_SRA16_RAM_LO s = do { d \<leftarrow> opReg m 0; r \<leftarrow> opReg m 1; n \<leftarrow> opUnsigned m 2;
     Some (setP d (signed_drop_bit n (getP r s)) s) }"
| "effect env m V6CLANG_ROTL16_1 s = Some (setP HL (word_rotl 1 (getP HL s)) s)"
| "effect env m V6CLANG_LOAD8_P s = do {
     d \<leftarrow> opReg m 0; a \<leftarrow> opReg m 1; Some (setR d (mem s (getP a s)) s) }"
| "effect env m V6CLANG_STORE8_P s = do {
     r \<leftarrow> opReg m 0; a \<leftarrow> opReg m 1; Some (store8 (getP a s) (r8 s r) s) }"
| "effect env m (V6CLANG_ALU_M_P op) s = do {
     a \<leftarrow> opReg m (if op = CMP then 1 else 2); Some (aluA op (mem s (getP a s)) s) }"
| "effect env m V6CLANG_STORE8_IMM_P s = do {
     i \<leftarrow> opImm m 0; a \<leftarrow> opReg m 1; Some (store8 (getP a s) (word_of_int i) s) }"
| "effect env m V6CLANG_INR_M_P s = do { a \<leftarrow> opReg m 0; Some (step_mem alu_inr (getP a s) s) }"
| "effect env m V6CLANG_DCR_M_P s = do { a \<leftarrow> opReg m 0; Some (step_mem alu_dcr (getP a s) s) }"
| "effect env m p s = (case logic_opc p of
     Some op \<Rightarrow> do { d \<leftarrow> opReg m 0; l \<leftarrow> opReg m 1; r \<leftarrow> opReg m 2;
       Some (setP d (logic_fun op (getP l s) (getP r s)) s) }
   | None \<Rightarrow> (case logic_imm_opc p of
     Some op \<Rightarrow> do { d \<leftarrow> opReg m 0; i \<leftarrow> opImm m 2;
       Some (setP d (logic_fun op (getP d s) (word_of_int i)) s) }
   | None \<Rightarrow> None))"

text \<open>
  What the compiler may assume about a data pseudo: the effect, with the registers that its
  description defines implicitly and the bytes below the stack pointer left arbitrary.
\<close>

definition clobbers :: "pseudo \<Rightarrow> preg set" where
  "clobbers p = set (pseudo_implicit_defs p)"

inductive data_step :: "senv \<Rightarrow> machine_instr \<Rightarrow> cpu \<Rightarrow> cpu \<Rightarrow> bool" for env m s where
  data_step: "opcode m = PSEUDO p \<Longrightarrow> effect env m p s = Some u
    \<Longrightarrow> unchanged (clobbers p) (below_sp s) u t \<Longrightarrow> data_step env m s t"

inductive_cases data_stepE: "data_step env m s t"

end
