(* ===== verification/Exits.thy ===== *)
theory Exits
  imports LivenessSound Frame
begin

text \<open>
  How two versions of a block are compared: they leave to the same place, in states that differ at
  most in byte registers that no successor has live in.  Dead registers may hold anything.
\<close>

section \<open>Ends of a block\<close>

definition same_exit :: "preg list list \<Rightarrow> ctl \<times> cpu \<Rightarrow> ctl \<times> cpu \<Rightarrow> bool" where
  "same_exit succs x y = (fst x = fst y \<and> unchanged {r. GR8 r \<and> \<not> liveOut r succs} {} (snd x) (snd y))"

lemma same_exit_trans: "same_exit succs x y \<Longrightarrow> same_exit succs y z \<Longrightarrow> same_exit succs x z"
  by (auto simp: same_exit_def intro: unchanged_trans)

lemma rel_same_exit_trans:
  "rel_option (same_exit succs) x y \<Longrightarrow> rel_option (same_exit succs) y z \<Longrightarrow> rel_option (same_exit succs) x z"
  by (cases x; cases y; cases z) (auto intro: same_exit_trans)

lemma dead_fold:
  assumes "list_all wf_instr ms" "final_last isTerminator ms" "\<forall>r \<in> set rs. GR8 r \<and> isRegDeadAtMI r ms succs"
  shows "rel_option (same_exit succs) (run env ms (fold (\<lambda>r. setR r (f r)) rs t)) (run env ms t)"
  using assms(3)
proof (induction rs arbitrary: t)
  case Nil
  then show ?case by (cases "run env ms t") (simp_all add: same_exit_def)
next
  case (Cons r rs)
  have "rel_option (same_end (differ_in r) (liveOut r succs)) (run env ms t) (run env ms (setR r (f r) t))"
    using assms(1,2) Cons.prems by (intro v6.dead_sound) auto
  then have "rel_option (same_exit succs) (run env ms (setR r (f r) t)) (run env ms t)"
    by (cases "run env ms t"; cases "run env ms (setR r (f r) t)")
      (auto simp: same_end_def same_exit_def unchanged_def setR_def)
  then show ?case using Cons by (auto intro: rel_same_exit_trans)
qed

section \<open>Runs that agree up to some flags\<close>

text \<open>
  A scan over the rest of a block: what \<open>sets\<close> sets anew before anything that \<open>reads\<close> it, and is not
  live out if the block ends first.
\<close>

fun scan_dead :: "(machine_instr \<Rightarrow> bool) \<Rightarrow> (machine_instr \<Rightarrow> bool) \<Rightarrow> preg list list \<Rightarrow> machine_instr list \<Rightarrow> bool" where
  "scan_dead reads sets succs [] = (\<not> liveOut FLAGS succs)"
| "scan_dead reads sets succs (m # ms) = (\<not> reads m \<and> (sets m \<or>
     (isTerminator m \<longrightarrow> \<not> liveOut FLAGS succs) \<and> scan_dead reads sets succs ms))"

definition ends_alike :: "(bool \<Rightarrow> cpu \<Rightarrow> cpu \<Rightarrow> bool) \<Rightarrow> preg list list \<Rightarrow> ctl \<times> cpu \<Rightarrow> ctl \<times> cpu \<Rightarrow> bool" where
  "ends_alike agr succs x y \<longleftrightarrow> fst x = fst y \<and> agr (liveOut FLAGS succs) (snd x) (snd y)"

text \<open>
  States related by \<open>agr b\<close> agree but for some flags, and in those too if \<open>b\<close> holds.  An instruction
  that does not read these flags keeps the agreement, and one that sets them makes it whole.
\<close>

locale flag_agreement =
  fixes agr :: "bool \<Rightarrow> cpu \<Rightarrow> cpu \<Rightarrow> bool" and ok reads sets :: "machine_instr \<Rightarrow> bool"
  assumes mono: "agr b s t \<Longrightarrow> (b' \<Longrightarrow> b) \<Longrightarrow> agr b' s t"
    and exec_upto: "agr b s t \<Longrightarrow> ok m \<Longrightarrow> b \<or> \<not> reads m \<Longrightarrow>
      rel_option (rel_prod (=) (agr (b \<or> sets m))) (exec env m s) (exec env m t)"
    and sets_goes_on: "sets m \<Longrightarrow> \<not> isTerminator m"
begin

text \<open>One instruction on both sides, then the rest of the block.\<close>

lemma run_Cons:
  assumes "agr b s t" "ok m" "b \<or> scan_dead reads sets succs (m # ms)"
    and "\<And>b' s' t'. exec env m s = cont s' \<Longrightarrow> exec env m t = cont t' \<Longrightarrow> agr b' s' t' \<Longrightarrow>
      b' \<or> scan_dead reads sets succs ms \<Longrightarrow>
      rel_option (ends_alike agr succs) (run env ms s') (run env ns t')"
  shows "rel_option (ends_alike agr succs) (run env (m # ms) s) (run env (m # ns) t)"
proof -
  have rel: "rel_option (rel_prod (=) (agr (b \<or> sets m))) (exec env m s) (exec env m t)"
    using assms(1-3) by (intro exec_upto) auto
  show ?thesis
  proof (cases "exec env m s")
    case None
    then show ?thesis using rel by simp
  next
    case (Some x)
    then obtain c s' t' where x: "exec env m s = Some (c, s')" "exec env m t = Some (c, t')" "agr (b \<or> sets m) s' t'"
      using rel by (cases x) (auto simp: option_rel_Some1 rel_prod_conv)
    show ?thesis
    proof (cases "c = Next")
      case True
      then show ?thesis using assms(4) [OF _ _ x(3)] assms(3) x(1,2) by auto
    next
      case False
      then have "isTerminator m" using exec_leaves [OF x(1)] by simp
      moreover from this have "\<not> sets m" using sets_goes_on by blast
      ultimately have "agr (liveOut FLAGS succs) s' t'" using x(3) assms(3) by (auto elim: mono)
      then show ?thesis using x False by (simp add: ends_alike_def)
    qed
  qed
qed

lemma run_Nil: "agr b s t \<Longrightarrow> b \<or> scan_dead reads sets succs [] \<Longrightarrow>
    rel_option (ends_alike agr succs) (run env [] s) (run env [] t)"
  by (auto simp: ends_alike_def elim: mono)

lemma run_upto:
  "agr b s t \<Longrightarrow> list_all ok ms \<Longrightarrow> b \<or> scan_dead reads sets succs ms \<Longrightarrow>
    rel_option (ends_alike agr succs) (run env ms s) (run env ms t)"
proof (induction ms arbitrary: b s t)
  case Nil
  then show ?case by (intro run_Nil)
next
  case (Cons m ms)
  show ?case
    by (rule run_Cons [OF Cons.prems(1)]) (use Cons in auto)
qed

end

end
