(* ===== verification/DispatchRefine.thy ===== *)
theory DispatchRefine
  imports Dispatch Exits
begin

text \<open>
  The refinement proof of the dispatch: every expansion of a data pseudo computes its effect and
  changes nothing else but implicit definitions, dead registers and the bytes below the stack
  pointer, and the rest of the block runs as it would after the abstract step.
\<close>

section \<open>Each expansion meets the abstract meaning\<close>

definition meets :: "senv \<Rightarrow> mbb_ctx \<Rightarrow> machine_instr list \<Rightarrow> cpu \<Rightarrow> pseudo \<Rightarrow> cpu \<Rightarrow> bool" where
  "meets env c code s p u = (\<exists>t. run env code s = cont t
     \<and> unchanged (clobbers p \<union> dead_at c) (below_sp s) u t)"

lemma unchanged_setP:
  assumes "GR16 d" "getP d t = v" "unchanged Z M s t" "Z \<subseteq> units d \<union> Y" "M \<subseteq> N"
  shows "unchanged Y N (setP d v s) t"
proof -
  have "unchanged (units d \<union> Y) N s t" using assms(3-5) by (rule unchanged_mono)
  then show ?thesis using assms(1) assms(2) [symmetric]
    by (elim GR16_cases; simp add: unchanged_code)
qed

lemma unchanged_setR:
  assumes "GR8 d" "r8 t d = v" "unchanged Z M s t" "Z \<subseteq> {d} \<union> Y" "M \<subseteq> N"
  shows "unchanged Y N (setR d v s) t"
proof -
  have "unchanged ({d} \<union> Y) N s t" using assms(3-5) by (rule unchanged_mono)
  then show ?thesis using assms(1) assms(2) [symmetric]
    by (elim GR8_cases; simp add: unchanged_code)
qed

lemma meets_setP:
  assumes "\<exists>t. run env code s = cont t \<and> getP d t = v \<and> unchanged Z M s t" "GR16 d"
    and "Z \<subseteq> units d \<union> (clobbers p \<union> dead_at c)" "M \<subseteq> below_sp s"
  shows "meets env c code s p (setP d v s)"
  using assms unchanged_setP [OF assms(2) _ _ assms(3,4)] unfolding meets_def by blast

lemma meets_unchanged:
  assumes "\<exists>t. run env code s = cont t \<and> unchanged Z M u t"
    and "Z \<subseteq> clobbers p \<union> dead_at c" "M \<subseteq> below_sp s"
  shows "meets env c code s p u"
  using assms unchanged_mono [OF _ assms(2,3)] unfolding meets_def by blast

text \<open>The shifts, the bytewise operations and the chains.\<close>

named_theorems meets "data pseudos whose expansion computes their effect"

lemma meets_BUILD_PAIR [meets]:
  "GR16 d \<Longrightarrow> GR8 l \<Longrightarrow> GR8 h \<Longrightarrow> l = subHi d \<longrightarrow> h = subHi d
    \<Longrightarrow> meets env c (expand_BUILD_PAIR d l h) s V6CLANG_BUILD_PAIR (setP d (mk16 (r8 s h) (r8 s l)) s)"
  by (rule meets_setP [OF expand_BUILD_PAIR_correct]) auto

lemma meets_NEG16 [meets]:
  "GR16 d \<Longrightarrow> GR16 r \<Longrightarrow> meets env c (expand_NEG16 c d r) s V6CLANG_NEG16 (setP d (- getP r s) s)"
  by (rule meets_setP [OF expand_NEG16_correct]) (auto simp: clobbers_def)

lemma meets_SEXT [meets]:
  "GR16 d \<Longrightarrow> GR8 l \<Longrightarrow> meets env c (expand_SEXT d l) s V6CLANG_SEXT (setP d (scast (r8 s l)) s)"
  by (rule meets_setP [OF expand_SEXT_correct]) (auto simp: clobbers_def)

lemma meets_ROTL16_1 [meets]:
  "meets env c expand_ROTL16_1 s V6CLANG_ROTL16_1 (setP HL (word_rotl 1 (getP HL s)) s)"
  by (rule meets_setP [OF expand_ROTL16_1_correct]) (auto simp: clobbers_def)

lemma meets_INX16 [meets]:
  assumes "GR16 d" "0 \<le> n" "n < 2 ^ 32"
  shows "meets env c (expand_INX16 INX d n) s V6CLANG_INX16 (setP d (getP d s + word_of_int n) s)"
    "meets env c (expand_INX16 DCX d n) s V6CLANG_DCX16 (setP d (getP d s - word_of_int n) s)"
  using expand_INX16_correct [OF assms, of env s]
  by (auto intro!: meets_setP [OF _ assms(1), of _ _ _ _ "units d" "{}"] simp del: getP.simps)

lemma meets_shl [meets]:
  assumes "GR16 d" "GR16 r"
  shows "meets env c (expand_SHL16_DAD c d r k) s V6CLANG_SHL16_DAD (setP d (push_bit k (getP r s)) s)"
    "meets env c (expand_SHL16_BYTE d r) s V6CLANG_SHL16_BYTE (setP d (push_bit 8 (getP r s)) s)"
    "9 \<le> k \<Longrightarrow> k \<le> 15
      \<Longrightarrow> meets env c (expand_SHL16_RAM_HI d r k) s V6CLANG_SHL16_RAM_HI (setP d (push_bit k (getP r s)) s)"
proof -
  note e = expand_SHL16_run [OF assms, of env c k s]
  show "meets env c (expand_SHL16_DAD c d r k) s V6CLANG_SHL16_DAD (setP d (push_bit k (getP r s)) s)"
    by (rule meets_setP [OF e [THEN conjunct1] assms(1)]) (auto simp: clobbers_def)
  show "meets env c (expand_SHL16_BYTE d r) s V6CLANG_SHL16_BYTE (setP d (push_bit 8 (getP r s)) s)"
    by (rule meets_setP [OF e [THEN conjunct2, THEN conjunct1] assms(1)]) (auto simp: clobbers_def)
  show "meets env c (expand_SHL16_RAM_HI d r k) s V6CLANG_SHL16_RAM_HI (setP d (push_bit k (getP r s)) s)"
    if "9 \<le> k" "k \<le> 15"
    using that
    by (intro meets_setP [OF e [THEN conjunct2, THEN conjunct2, rule_format] assms(1)]) (auto simp: clobbers_def)
qed

lemma meets_srl [meets]:
  assumes "GR16 d" "GR16 r"
  shows "priorClearsCarry (before c) \<longrightarrow> \<not> fCY (fl s)
      \<Longrightarrow> meets env c (expand_SRL16_RAR c d r k) s V6CLANG_SRL16_RAR (setP d (drop_bit k (getP r s)) s)"
    "0 < k \<Longrightarrow> k \<le> 8
      \<Longrightarrow> meets env c (expand_SRL16_24BIT c d r k) s V6CLANG_SRL16_24BIT (setP d (drop_bit k (getP r s)) s)"
    "meets env c (expand_SRL16_BYTE d r) s V6CLANG_SRL16_BYTE (setP d (drop_bit 8 (getP r s)) s)"
    "9 \<le> k \<Longrightarrow> k \<le> 15
      \<Longrightarrow> meets env c (expand_SRL16_RAM_LO d r k) s V6CLANG_SRL16_RAM_LO (setP d (drop_bit k (getP r s)) s)"
proof -
  note e = expand_SRL16_run [OF assms, of c s env k]
  show "meets env c (expand_SRL16_RAR c d r k) s V6CLANG_SRL16_RAR (setP d (drop_bit k (getP r s)) s)"
    if "priorClearsCarry (before c) \<longrightarrow> \<not> fCY (fl s)"
    by (rule meets_setP [OF e [THEN conjunct1, rule_format, OF that [rule_format]] assms(1)])
      (auto simp: clobbers_def)
  show "meets env c (expand_SRL16_24BIT c d r k) s V6CLANG_SRL16_24BIT (setP d (drop_bit k (getP r s)) s)"
    if "0 < k" "k \<le> 8"
    using that by (intro meets_setP [OF e [THEN conjunct2, THEN conjunct1, rule_format] assms(1)])
      (auto simp: clobbers_def)
  show "meets env c (expand_SRL16_BYTE d r) s V6CLANG_SRL16_BYTE (setP d (drop_bit 8 (getP r s)) s)"
    by (rule meets_setP [OF e [THEN conjunct2, THEN conjunct2, THEN conjunct1] assms(1)]) auto
  show "meets env c (expand_SRL16_RAM_LO d r k) s V6CLANG_SRL16_RAM_LO (setP d (drop_bit k (getP r s)) s)"
    if "9 \<le> k" "k \<le> 15"
    using that by (intro meets_setP [OF e [THEN conjunct2, THEN conjunct2, THEN conjunct2, rule_format] assms(1)])
      (auto simp: clobbers_def)
qed

text \<open>A result whose high byte is right or dead.\<close>

lemma meets_setP_hi:
  assumes "\<exists>t. run env code s = cont t \<and> r8 t (subLo d) = lo8 v
      \<and> (isRegDeadAtMI (subHi d) (after c) (succLiveIns c) \<or> getP d t = v) \<and> unchanged Z M s t" "GR16 d"
    and "Z \<subseteq> units d \<union> (clobbers p \<union> dead_at c)" "M \<subseteq> below_sp s"
  shows "meets env c code s p (setP d v s)"
proof -
  obtain t where t: "run env code s = cont t" "r8 t (subLo d) = lo8 v"
    "isRegDeadAtMI (subHi d) (after c) (succLiveIns c) \<or> getP d t = v" "unchanged Z M s t"
    using assms(1) by blast
  have h: "r8 t (subHi d) = hi8 v \<or> subHi d \<in> dead_at c"
    using t(3) assms(2) by (elim GR16_cases) (auto simp: dead_regs_def)
  have "unchanged (units d \<union> (clobbers p \<union> dead_at c)) (below_sp s) s t"
    using t(4) assms(3,4) by (rule unchanged_mono)
  then have "unchanged (clobbers p \<union> dead_at c) (below_sp s) (setP d v s) t"
    using t(2) h assms(2) by (elim GR16_cases; simp add: unchanged_code del: dead_regs_simps; blast)
  then show ?thesis using t(1) by (auto simp: meets_def)
qed

lemma lo8_getP: "GR16 d \<Longrightarrow> lo8 (getP d t) = r8 t (subLo d)"
  by (elim GR16_cases) simp_all

lemma meets_sra [meets]:
  assumes "GR16 d" "GR16 r"
  shows "meets env c (expand_SRA16_RAR d r k) s V6CLANG_SRA16_RAR (setP d (signed_drop_bit k (getP r s)) s)"
    "0 < k \<Longrightarrow> k \<le> 8
      \<Longrightarrow> meets env c (expand_SRA16_24BIT c d r k) s V6CLANG_SRA16_24BIT (setP d (signed_drop_bit k (getP r s)) s)"
    "meets env c (expand_SRA16_BYTE d r) s V6CLANG_SRA16_BYTE (setP d (signed_drop_bit 8 (getP r s)) s)"
    "9 \<le> k \<Longrightarrow> k \<le> 15
      \<Longrightarrow> meets env c (expand_SRA16_RAM_LO c d r k) s V6CLANG_SRA16_RAM_LO (setP d (signed_drop_bit k (getP r s)) s)"
proof -
  note e = expand_SRA16_run [OF assms, of env k s c]
  show "meets env c (expand_SRA16_RAR d r k) s V6CLANG_SRA16_RAR (setP d (signed_drop_bit k (getP r s)) s)"
    by (rule meets_setP [OF e [THEN conjunct1] assms(1)]) (auto simp: clobbers_def)
  show "meets env c (expand_SRA16_24BIT c d r k) s V6CLANG_SRA16_24BIT (setP d (signed_drop_bit k (getP r s)) s)"
    if "0 < k" "k \<le> 8"
    using that by (intro meets_setP [OF e [THEN conjunct2, THEN conjunct1, rule_format] assms(1)])
      (auto simp: clobbers_def)
  show "meets env c (expand_SRA16_BYTE d r) s V6CLANG_SRA16_BYTE (setP d (signed_drop_bit 8 (getP r s)) s)"
    by (rule meets_setP [OF e [THEN conjunct2, THEN conjunct2, THEN conjunct1] assms(1)])
      (auto simp: clobbers_def)
  show "meets env c (expand_SRA16_RAM_LO c d r k) s V6CLANG_SRA16_RAM_LO (setP d (signed_drop_bit k (getP r s)) s)"
    if "9 \<le> k" "k \<le> 15"
    using that e [THEN conjunct2, THEN conjunct2, THEN conjunct2, rule_format]
    by (intro meets_setP_hi [OF _ assms(1), of env _ s _ c "units d \<union> {A, FLAGS}" "{}"]) (auto simp: clobbers_def)
qed

lemma meets_logic [meets]:
  assumes "GR16 d" "GR16 l" "GR16 r" "logic_opc p = Some op"
  shows "meets env c (expand_LOGIC16 op c d l r) s p (setP d (logic_fun op (getP l s) (getP r s)) s)"
proof -
  have "clobbers p = {A, FLAGS}" using assms(4) by (cases p; simp add: clobbers_def)
  then show ?thesis using expand_LOGIC16_correct [OF assms, of env c s]
    by (intro meets_setP_hi [OF _ assms(1), of env _ s _ c "units d \<union> {A, FLAGS}" "{}"])
      (auto simp: lo8_getP [OF assms(1)])
qed

lemma meets_logic_imm [meets]:
  assumes "GR16 d" "logic_imm_opc p = Some op"
  shows "meets env c (expand_LOGIC16_IMM op c d i) s p (setP d (logic_fun op (getP d s) (word_of_int i)) s)"
proof -
  have "clobbers p = {A, FLAGS}" using assms(2) by (cases p; simp add: clobbers_def)
  then show ?thesis using expand_LOGIC16_IMM_run [OF assms, of env c i s]
    by (intro meets_setP_hi [OF _ assms(1), of env _ s _ c "units d \<union> {A, FLAGS}" "{}"])
      (auto simp: lo8_getP [OF assms(1)])
qed

text \<open>The memory pseudos.\<close>

lemma meets_mem8 [meets]:
  assumes "GR16 a" "pairs_ok c" "a = BC \<longrightarrow> getP BC s \<notin> below_sp s"
  shows "meets env c (expand_ALU_M_P op c a) s (V6CLANG_ALU_M_P op) (aluA op (mem s (getP a s)) s)"
    "meets env c (expand_INR_DCR_M_P INRM c a) s V6CLANG_INR_M_P (step_mem alu_inr (getP a s) s)"
    "meets env c (expand_INR_DCR_M_P DCRM c a) s V6CLANG_DCR_M_P (step_mem alu_dcr (getP a s) s)"
    "GR8 q \<Longrightarrow> meets env c (expand_STORE8_P c q a) s V6CLANG_STORE8_P (store8 (getP a s) (r8 s q) s)"
    "meets env c (expand_STORE8_IMM_P c i a) s V6CLANG_STORE8_IMM_P (store8 (getP a s) (word_of_int i) s)"
  using expand_M_P_correct [OF assms, of env op] expand_STORE8_correct [OF assms(1) _ assms(2,3), of q env i]
    expand_STORE8_correct [OF assms(1) _ assms(2,3), of A env i]
  by (auto intro: meets_unchanged)

lemma meets_load8 [meets]:
  assumes "GR8 d" "GR16 a" "a = BC \<longrightarrow> getP BC s \<notin> below_sp s"
    and "a = BC \<longrightarrow> findDeadGR8AtMI (after c) (succLiveIns c) (Some A) (Some d) \<notin> {Some B, Some C}"
  shows "meets env c (expand_LOAD8_P c d a) s V6CLANG_LOAD8_P (setR d (mem s (getP a s)) s)"
proof -
  obtain t where "run env (expand_LOAD8_P c d a) s = cont t" "r8 t d = mem s (getP a s)"
    "unchanged ({d} \<union> dead_at c) (below_sp s) s t"
    using expand_LOAD8_P_run [OF assms, of env] by blast
  then show ?thesis using unchanged_setR [OF assms(1), of t "mem s (getP a s)" "{d} \<union> dead_at c" "below_sp s" s]
    unfolding meets_def by blast
qed

lemma meets_word [meets]:
  assumes "GR16 r" "pairs_ok c"
  shows "GR16 a \<Longrightarrow> off_stack (getP a s) s
      \<Longrightarrow> meets env c (expand_LOAD16_P c r a) s V6CLANG_LOAD16_P (setP r (load16 (getP a s) s) s)"
    "GR16 a \<Longrightarrow> off_stack (getP a s) s \<Longrightarrow> r = BC \<and> a = BC \<longrightarrow> store_BC_BC_ok c s
      \<Longrightarrow> meets env c (expand_STORE16_P c r a) s V6CLANG_STORE16_P (store16 (getP a s) (getP r s) s)"
proof -
  show "meets env c (expand_LOAD16_P c r a) s V6CLANG_LOAD16_P (setP r (load16 (getP a s) s) s)"
    if "GR16 a" "off_stack (getP a s) s"
    by (rule meets_setP [OF expand_LOAD16_P_run [OF assms(1) that(1) assms(2) that(2)] assms(1)]) auto
  show "meets env c (expand_STORE16_P c r a) s V6CLANG_STORE16_P (store16 (getP a s) (getP r s) s)"
    if "GR16 a" "off_stack (getP a s) s" "r = BC \<and> a = BC \<longrightarrow> store_BC_BC_ok c s"
    by (rule meets_unchanged [OF expand_STORE16_P_run [OF assms(1) that(1) assms(2) that(2,3)]]) auto
qed

lemma meets_word_G [meets]:
  assumes "GR16 r" "pairs_ok c" "addrAt x 0 = Some y" "opval env y = Some a" "off_stack a s"
  shows "\<exists>ms. expand_LOAD16_G c r x = Some ms \<and> meets env c ms s V6CLANG_LOAD16_G (setP r (load16 a s) s)"
    "r = DE \<and> deadAt c HL \<longrightarrow> deadAt c DE
      \<Longrightarrow> \<exists>ms. expand_STORE16_G c r x = Some ms \<and> meets env c ms s V6CLANG_STORE16_G (store16 a (getP r s) s)"
proof -
  note e = expand_WORD_G_correct [OF assms]
  show "\<exists>ms. expand_LOAD16_G c r x = Some ms \<and> meets env c ms s V6CLANG_LOAD16_G (setP r (load16 a s) s)"
    using e meets_setP [OF _ assms(1), of env _ s _ "units r \<union> dead_at c" "below_sp s"] by fast
  show "\<exists>ms. expand_STORE16_G c r x = Some ms \<and> meets env c ms s V6CLANG_STORE16_G (store16 a (getP r s) s)"
    if "r = DE \<and> deadAt c HL \<longrightarrow> deadAt c DE"
    using e that meets_unchanged [of env _ s "dead_at c" "below_sp s"] by fast
qed

text \<open>The additions and the subtraction.\<close>

lemma meets_DAD [meets]:
  assumes "GR16 d" "GR16 l" "GR16All r" "lxi_value c l s" "lxi_value c r s" "sp_unmoved c d r"
  shows "meets env c (snd (expand_DAD Mode c m d l r)) s V6CLANG_DAD (setP d (getP l s + getP r s) s)"
  by (rule meets_setP [OF expand_DAD_run [OF assms] assms(1)])
    (use dad_frame_dead [of c] in \<open>auto simp: clobbers_def simp del: dead_regs_simps\<close>)

lemma meets_chains [meets]:
  assumes "GR16 d" "GR16 l" "GR16 r" "pairs_ok c" "lxi_value c r s"
  shows "lxi_value c l s
      \<Longrightarrow> meets env c (snd (expand_ADD16 Mode c m d l r)) s V6CLANG_ADD16 (setP d (getP l s + getP r s) s)"
    "meets env c (snd (expand_SUB16 Mode c m d l r)) s V6CLANG_SUB16 (setP d (getP l s - getP r s) s)"
proof -
  have p: "pair_scan_ok HL (after c) (succLiveIns c)" "pair_scan_ok DE (after c) (succLiveIns c)"
    using assms(4) by (simp_all add: pairs_ok_def)
  show "meets env c (snd (expand_ADD16 Mode c m d l r)) s V6CLANG_ADD16 (setP d (getP l s + getP r s) s)"
    if "lxi_value c l s"
    by (rule meets_setP [OF expand_ADD16_run [OF assms(1-3) that assms(5) p] assms(1)]) (auto simp: clobbers_def)
  show "meets env c (snd (expand_SUB16 Mode c m d l r)) s V6CLANG_SUB16 (setP d (getP l s - getP r s) s)"
    by (rule meets_setP [OF expand_SUB16_run [OF assms(1-3,5)] assms(1)]) (auto simp: clobbers_def)
qed

section \<open>The expansions that touch the code before the pseudo\<close>

text \<open>Code that never reads a register runs the same whatever the register holds.\<close>

lemma run_unread:
  assumes "\<forall>x \<in> set ms. wf_instr x \<and> \<not> isTerminator x \<and> \<not> usesReg r x" "GR8 r" "run env ms s = cont t"
  shows "\<exists>w. run env ms (setR r v s) = cont (setR r w t)"
proof -
  have "isRegDeadAtMI r ms []" using assms(1) by (induction ms) (simp_all add: liveOut_def)
  moreover have "final_last isTerminator ms" "list_all wf_instr ms"
    using assms(1) by (induction ms) simp_all
  ultimately have "rel_option (same_end (differ_in r) (liveOut r [])) (run env ms s) (run env ms (setR r v s))"
    using assms(2) by (intro v6.dead_sound) auto
  then obtain u where u: "run env ms (setR r v s) = cont u" "u = t \<or> (\<exists>w. u = setR r w t)"
    using assms(3) by (auto simp: same_end_def option_rel_Some1)
  moreover have "t = setR r (r8 t r) t" by (simp add: setR_def)
  ultimately have "\<exists>w. u = setR r w t" by metis
  then show ?thesis using u(1) by blast
qed

text \<open>
  The LXI of the pair \<open>q\<close> was erased, and neither the code between it and the pseudo nor the code
  of the expansion reads a half of the pair.
\<close>

definition unreads :: "preg \<Rightarrow> machine_instr \<Rightarrow> bool" where
  "unreads q x = (\<not> usesReg (subHi q) x \<and> \<not> usesReg (subLo q) x)"

definition erased :: "mbb_ctx \<Rightarrow> machine_instr list \<Rightarrow> machine_instr list \<Rightarrow> preg \<Rightarrow> bool" where
  "erased c bef code q = (case findDefiningLXI c q of
     Some (m, Some i) \<Rightarrow> bef = erase_LXI c m (Some i) \<and> deadAt c q \<and> list_all wf_instr (before c)
       \<and> list_all (unreads q) (drop (length (before c) - i) (before c))
       \<and> list_all (\<lambda>x. wf_instr x \<and> \<not> isTerminator x \<and> unreads q x) code
   | _ \<Rightarrow> False)"

definition keeps_before :: "mbb_ctx \<Rightarrow> machine_instr list \<times> machine_instr list \<Rightarrow> preg list \<Rightarrow> bool" where
  "keeps_before c bc qs = (fst bc = before c \<or> list_ex (erased c (fst bc) (snd bc)) qs)"

text \<open>What an expansion needs beyond its operand classes.\<close>

fun expansion_ok :: "senv \<Rightarrow> V6ClangOptMode \<Rightarrow> mbb_ctx \<Rightarrow> machine_instr \<Rightarrow> pseudo \<Rightarrow> cpu \<Rightarrow> bool" where
  "expansion_ok env Mode c m V6CLANG_BUILD_PAIR s =
     (opReg m 1 = map_option subHi (opReg m 0) \<longrightarrow> opReg m 2 = opReg m 1)"
| "expansion_ok env Mode c m V6CLANG_NEG8 s = (case opReg m 1 of
     Some r \<Rightarrow> (opKill m 1 \<longrightarrow> deadAt c r)
       \<and> list_all (\<lambda>x. isCopyFromA r x \<longrightarrow> ex_regs (operands x) = [r, A]) (before c)
   | None \<Rightarrow> False)"
| "expansion_ok env Mode c m V6CLANG_INX16 s = (case opImm m 2 of Some n \<Rightarrow> 0 \<le> n \<and> n < 2 ^ 32 | None \<Rightarrow> False)"
| "expansion_ok env Mode c m V6CLANG_DCX16 s = (case opImm m 2 of Some n \<Rightarrow> 0 \<le> n \<and> n < 2 ^ 32 | None \<Rightarrow> False)"
| "expansion_ok env Mode c m V6CLANG_DAD s = (case (opReg m 0, opReg m 1, opReg m 2) of
     (Some d, Some l, Some r) \<Rightarrow> lxi_value c l s \<and> lxi_value c r s \<and> sp_unmoved c d r
       \<and> keeps_before c (expand_DAD Mode c m d l r) (filter GR16 [l, r]) | _ \<Rightarrow> False)"
| "expansion_ok env Mode c m V6CLANG_ADD16 s = (case (opReg m 0, opReg m 1, opReg m 2) of
     (Some d, Some l, Some r) \<Rightarrow> lxi_value c l s \<and> lxi_value c r s
       \<and> keeps_before c (expand_ADD16 Mode c m d l r) [l, r] | _ \<Rightarrow> False)"
| "expansion_ok env Mode c m V6CLANG_SUB16 s = (case (opReg m 0, opReg m 1, opReg m 2) of
     (Some d, Some l, Some r) \<Rightarrow> lxi_value c r s
       \<and> keeps_before c (expand_SUB16 Mode c m d l r) [r] | _ \<Rightarrow> False)"
| "expansion_ok env Mode c m V6CLANG_SHL16_RAM_HI s =
     (case opUnsigned m 2 of Some k \<Rightarrow> 9 \<le> k \<and> k \<le> 15 | None \<Rightarrow> False)"
| "expansion_ok env Mode c m V6CLANG_SRL16_RAM_LO s =
     (case opUnsigned m 2 of Some k \<Rightarrow> 9 \<le> k \<and> k \<le> 15 | None \<Rightarrow> False)"
| "expansion_ok env Mode c m V6CLANG_SRA16_RAM_LO s =
     (case opUnsigned m 2 of Some k \<Rightarrow> 9 \<le> k \<and> k \<le> 15 | None \<Rightarrow> False)"
| "expansion_ok env Mode c m V6CLANG_SRL16_24BIT s =
     (case opUnsigned m 2 of Some k \<Rightarrow> 0 < k \<and> k \<le> 8 | None \<Rightarrow> False)"
| "expansion_ok env Mode c m V6CLANG_SRA16_24BIT s =
     (case opUnsigned m 2 of Some k \<Rightarrow> 0 < k \<and> k \<le> 8 | None \<Rightarrow> False)"
| "expansion_ok env Mode c m V6CLANG_SRL16_RAR s = (priorClearsCarry (before c) \<longrightarrow> \<not> fCY (fl s))"
| "expansion_ok env Mode c m V6CLANG_LOAD8_P s = (opReg m 1 = Some BC \<longrightarrow> getP BC s \<notin> below_sp s
     \<and> findDeadGR8AtMI (after c) (succLiveIns c) (Some A) (opReg m 0) \<notin> {Some B, Some C})"
| "expansion_ok env Mode c m V6CLANG_STORE8_P s = (opReg m 1 = Some BC \<longrightarrow> getP BC s \<notin> below_sp s)"
| "expansion_ok env Mode c m V6CLANG_STORE8_IMM_P s = (opReg m 1 = Some BC \<longrightarrow> getP BC s \<notin> below_sp s)"
| "expansion_ok env Mode c m (V6CLANG_ALU_M_P op) s =
     (opReg m (if op = CMP then 1 else 2) = Some BC \<longrightarrow> getP BC s \<notin> below_sp s)"
| "expansion_ok env Mode c m V6CLANG_INR_M_P s = (opReg m 0 = Some BC \<longrightarrow> getP BC s \<notin> below_sp s)"
| "expansion_ok env Mode c m V6CLANG_DCR_M_P s = (opReg m 0 = Some BC \<longrightarrow> getP BC s \<notin> below_sp s)"
| "expansion_ok env Mode c m V6CLANG_LOAD16_P s = (case opReg m 1 of
     Some a \<Rightarrow> off_stack (getP a s) s | None \<Rightarrow> False)"
| "expansion_ok env Mode c m V6CLANG_STORE16_P s = (case opReg m 1 of
     Some a \<Rightarrow> off_stack (getP a s) s \<and> (opReg m 0 = Some BC \<and> a = BC \<longrightarrow> store_BC_BC_ok c s)
   | None \<Rightarrow> False)"
| "expansion_ok env Mode c m V6CLANG_LOAD16_G s = (case Option.bind (opAt m 1) (\<lambda>x. Option.bind (addrAt x 0) (opval env)) of
     Some a \<Rightarrow> off_stack a s | None \<Rightarrow> False)"
| "expansion_ok env Mode c m V6CLANG_STORE16_G s = (case Option.bind (opAt m 1) (\<lambda>x. Option.bind (addrAt x 0) (opval env)) of
     Some a \<Rightarrow> off_stack a s \<and> (opReg m 0 = Some DE \<and> deadAt c HL \<longrightarrow> deadAt c DE) | None \<Rightarrow> False)"
| "expansion_ok env Mode c m _ s = True"

lemma erased_meets:
  assumes "erased c bef code q" "GR16 q" "pairs_ok c" "run env (before c) s0 = cont s" "meets env c code s p u"
  shows "\<exists>t. run env (bef @ code) s0 = cont t \<and> unchanged (clobbers p \<union> dead_at c) (below_sp s) u t"
proof -
  obtain m i where e: "findDefiningLXI c q = Some (m, Some i)" "bef = erase_LXI c m (Some i)" "deadAt c q"
    "\<forall>x \<in> set (before c). wf_instr x"
    "\<forall>x \<in> set (drop (length (before c) - i) (before c)). \<not> usesReg (subHi q) x \<and> \<not> usesReg (subLo q) x"
    and un: "\<forall>x \<in> set code. wf_instr x \<and> \<not> isTerminator x \<and> \<not> usesReg (subHi q) x"
    "\<forall>x \<in> set code. wf_instr x \<and> \<not> isTerminator x \<and> \<not> usesReg (subLo q) x"
    using assms(1) by (auto simp: erased_def unreads_def list_all_iff split: option.splits)
  obtain w where w: "run env bef s0 = cont (setP q w s)"
    using erase_LXI_run [OF e(1) assms(2,4) e(4,5)] e(2) by blast
  obtain t where t: "run env code s = cont t" "unchanged (clobbers p \<union> dead_at c) (below_sp s) u t"
    using assms(5) by (auto simp: meets_def)
  have halves: "GR8 (subHi q)" "GR8 (subLo q)" "subHi q \<in> dead_at c" "subLo q \<in> dead_at c"
    using assms(2,3) e(3) by (auto simp: pairs_ok_def pair_scan_ok_def deadAt_def elim!: GR16_cases)
  obtain a b where "run env code (setP q w s) = cont (setR (subHi q) a (setR (subLo q) b t))"
    unfolding setP_as_setR [OF assms(2)]
    using run_unread [OF un(2) halves(2) t(1)] run_unread [OF un(1) halves(1)] by blast
  moreover have "unchanged (clobbers p \<union> dead_at c) (below_sp s) u (setR (subHi q) a (setR (subLo q) b t))"
    using t(2) halves by (auto simp: unchanged_def setR_def)
  ultimately show ?thesis using w by (simp add: run_append_Next)
qed

lemma keeps_before_meets:
  assumes "keeps_before c bc qs" "\<forall>q \<in> set qs. GR16 q" "pairs_ok c" "run env (before c) s0 = cont s"
    and "meets env c (snd bc) s p u"
  shows "\<exists>t. run env (fst bc @ snd bc) s0 = cont t
    \<and> unchanged (clobbers p \<union> dead_at c) (below_sp s) u t"
proof (cases "fst bc = before c")
  case True
  then show ?thesis using assms(4,5) by (auto simp: meets_def run_append_Next)
next
  case False
  then obtain q where q: "erased c (fst bc) (snd bc) q" "GR16 q"
    using assms(1,2) by (auto simp: keeps_before_def list_ex_iff)
  show ?thesis by (rule erased_meets [OF q assms(3-5)])
qed

lemma NEG8_meets:
  assumes "GR8 d" "GR8 r" "run env (before c) s0 = cont s" "k \<longrightarrow> deadAt c r"
    and "list_all (\<lambda>x. isCopyFromA r x \<longrightarrow> ex_regs (operands x) = [r, A]) (before c)"
  shows "\<exists>t. run env (fst (expand_NEG8 c d r k) @ snd (expand_NEG8 c d r k)) s0 = cont t
    \<and> unchanged (clobbers V6CLANG_NEG8 \<union> dead_at c) (below_sp s) (setR d (- r8 s r) s) t"
proof -
  obtain w t where t: "run env (fst (expand_NEG8 c d r k)) s0 = cont w"
    "run env (snd (expand_NEG8 c d r k)) w = cont t" "r8 t d = - r8 s r"
    "unchanged ({d, A, FLAGS} \<union> (if k then {r} else {})) {} s t"
    using expand_NEG8_correct [OF assms(1-3), of k] assms(5) by (auto simp: list_all_iff)
  have "r \<in> dead_at c" if k using assms(4) that by (intro deadAtD [OF _ assms(2)]) simp
  then have "{d, A, FLAGS} \<union> (if k then {r} else {}) \<subseteq> {d} \<union> (clobbers V6CLANG_NEG8 \<union> dead_at c)"
    by (auto simp: clobbers_def)
  then have "unchanged (clobbers V6CLANG_NEG8 \<union> dead_at c) (below_sp s) (setR d (- r8 s r) s) t"
    using unchanged_setR [OF assms(1) t(3,4)] by blast
  then show ?thesis using t(1,2) by (auto simp: run_append_Next)
qed

lemma in_place:
  assumes "operands_ok m p" "expansion_ok env Mode c m p s" "effect env m p s = Some u" "pairs_ok c"
    and "p \<notin> {V6CLANG_NEG8, V6CLANG_DAD, V6CLANG_ADD16, V6CLANG_SUB16}"
  shows "\<exists>code. expand_pseudo Mode c succs new m p = Some (Expanded (before c) code) \<and> meets env c code s p u"
  using assms
  by (cases p; auto simp: operands_ok_def reg_in_iff tied_def Option.bind_eq_Some_conv
      simp del: getP.simps setP.simps One_nat_def logic_fun.simps
      split: option.splits if_splits intro!: meets)

lemma in_place_block:
  assumes "expand_pseudo Mode c succs new m p = Some (Expanded bef code)" "bef = before c"
    and "meets env c code s p u" "run env (before c) s0 = cont s"
  shows "\<exists>bef code t. expand_pseudo Mode c succs new m p = Some (Expanded bef code)
    \<and> run env (bef @ code) s0 = cont t \<and> unchanged (clobbers p \<union> dead_at c) (below_sp s) u t"
  using assms by (auto simp: meets_def run_append_Next)

lemma expand_pseudo_refines:
  assumes "operands_ok m p" "expansion_ok env Mode c m p s" "effect env m p s = Some u" "pairs_ok c"
    and run: "run env (before c) s0 = cont s"
  shows "\<exists>bef code t. expand_pseudo Mode c succs new m p = Some (Expanded bef code)
    \<and> run env (bef @ code) s0 = cont t \<and> unchanged (clobbers p \<union> dead_at c) (below_sp s) u t"
proof -
  note def = operands_ok_def reg_in_iff tied_def Option.bind_eq_Some_conv and del = getP.simps setP.simps
  have chain: ?thesis
    if "expand_pseudo Mode c succs new m p = Some (case_prod Expanded bc)" "keeps_before c bc qs"
      "\<forall>q \<in> set qs. GR16 q" "meets env c (snd bc) s p u" for bc qs
    using keeps_before_meets [OF that(2,3) assms(4) run that(4)] that(1) by (auto simp: case_prod_beta)
  consider "p \<notin> {V6CLANG_NEG8, V6CLANG_DAD, V6CLANG_ADD16, V6CLANG_SUB16}" | "p = V6CLANG_NEG8"
    | "p = V6CLANG_DAD" | "p = V6CLANG_ADD16" | "p = V6CLANG_SUB16" by blast
  then show ?thesis
  proof cases
    case 1
    then obtain code where "expand_pseudo Mode c succs new m p = Some (Expanded (before c) code)"
      "meets env c code s p u" using in_place [OF assms(1-4)] by blast
    then show ?thesis using in_place_block run by blast
  next
    case 2
    then obtain d r where r: "opReg m 0 = Some d" "opReg m 1 = Some r" "GR8 d" "GR8 r"
      using assms(1) by (auto simp: def)
    then have "opKill m 1 \<longrightarrow> deadAt c r" "u = setR d (- r8 s r) s"
      "list_all (\<lambda>x. isCopyFromA r x \<longrightarrow> ex_regs (operands x) = [r, A]) (before c)"
      using assms(2,3) 2 by simp_all
    then show ?thesis using NEG8_meets [OF r(3,4) run, of "opKill m 1"] 2 r(1,2)
      by (simp add: case_prod_beta)
  next
    case 3
    then obtain d l r where r: "opReg m 0 = Some d" "opReg m 1 = Some l" "opReg m 2 = Some r"
      "GR16 d" "GR16 l" "GR16All r" using assms(1) by (auto simp: def simp del: One_nat_def)
    then show ?thesis using 3 assms(2,3)
      by (intro chain [of "expand_DAD Mode c m d l r" "filter GR16 [l, r]"]) (auto simp: assms(4) simp del: del intro!: meets_DAD)
  next
    case 4
    then obtain d l r where r: "opReg m 0 = Some d" "opReg m 1 = Some l" "opReg m 2 = Some r"
      "GR16 d" "GR16 l" "GR16 r" using assms(1) by (auto simp: def simp del: One_nat_def)
    then show ?thesis using 4 assms(2,3)
      by (intro chain [of "expand_ADD16 Mode c m d l r" "[l, r]"]) (auto simp: assms(4) simp del: del intro!: meets_chains)
  next
    case 5
    then obtain d l r where r: "opReg m 0 = Some d" "opReg m 1 = Some l" "opReg m 2 = Some r"
      "GR16 d" "GR16 l" "GR16 r" using assms(1) by (auto simp: def simp del: One_nat_def)
    then show ?thesis using 5 assms(2,3)
      by (intro chain [of "expand_SUB16 Mode c m d l r" "[r]"]) (auto simp: assms(4) simp del: del intro!: meets_chains)
  qed
qed

section \<open>The whole function\<close>

lemma annotated_simps [simp]:
  "after (annotated b k c) = after c" "succLiveIns (annotated b k c) = succLiveIns c"
  "pairs_ok (annotated b k c) = pairs_ok c"
  by (simp_all add: annotated_def pairs_ok_def)

lemma run_annotated:
  "run env (before c) s0 = cont s \<Longrightarrow> run env (before (annotated b k c)) s0 = cont s"
  by (simp add: annotated_def commentMI_def run_append_Next exec_BuildMI step_def)

text \<open>
  C1.  Every expansion of a data pseudo, with or without the annotation, refines its meaning: from the
  state at the pseudo the block reaches the state after the effect, except for the implicit
  definitions of the pseudo, registers that are dead after it and the two bytes below the stack
  pointer.  The conditions are those of \<open>expansion_ok\<close>, pseudo by pseudo, and that the scans of pairs promise no
  more than the scans of their halves (\<open>pairs_ok\<close>).  They leave out what the code gets wrong: a low source of
  BUILD_PAIR that is the high destination, a constant of \<open>findDefiningLXI\<close> that the pair does not hold, an LXI
  that is erased though it is still read, SP added by DAD after HL is pushed, a spare register for LOAD8_P that
  is part of the address, BC stored through BC but on the shapes of \<open>store_BC_BC_ok\<close>, and STORE16_G of a live
  DE; and what selection does not produce: other shift amounts and counts, and addresses in the two
  bytes below the stack pointer.
\<close>

theorem expandPostRAPseudo_refines:
  assumes "opcode m = PSEUDO p" "operands_ok m p" "effect env m p s = Some u" "pairs_ok c"
    and "expansion_ok env Mode (annotated b (num (PSEUDO p)) c) m p s" "run env (before c) s0 = cont s"
  shows "\<exists>bef code t. expandPostRAPseudo b num Mode c succs new m = Some (Expanded bef code)
    \<and> run env (bef @ code) s0 = cont t \<and> unchanged (clobbers p \<union> dead_at c) (below_sp s) u t"
  using expand_pseudo_refines [OF assms(2,5,3) _ run_annotated [OF assms(6)], of succs new] assms(1,4)
  by (simp add: expandPostRAPseudo_def)

definition demo_load :: machine_instr where
  "demo_load = BuildMI (PSEUDO V6CLANG_LOAD16_P) [addRegDef DE, addReg HL]"

theorem expandPostRAPseudo_refines_witness:
  "\<forall>env s. \<exists>bef code t. expandPostRAPseudo True (\<lambda>_. 7) Speed ctx_live [] 0 demo_load = Some (Expanded bef code)
    \<and> run env (bef @ code) (s\<lparr>sp := getP HL s\<rparr>) = cont t
    \<and> getP DE t = load16 (getP HL s) s \<and> getP HL t = getP HL s \<and> fl t = fl s"
proof (intro allI)
  fix env :: senv and s :: cpu
  let ?s = "s\<lparr>sp := getP HL s\<rparr>" and ?m = demo_load
  have ok: "off_stack (getP HL s) ?s" by (simp add: off_stack_def below_sp_def)
  have ops: "opcode ?m = PSEUDO V6CLANG_LOAD16_P" "opReg ?m 0 = Some DE" "opReg ?m (Suc 0) = Some HL"
    by (simp_all add: demo_load_def BuildMI_def opReg_def implicit_operands_def)
  have bef: "run env (before ctx_live) ?s = cont ?s" by (simp add: ctx_live_def)
  obtain bef code t where "expandPostRAPseudo True (\<lambda>_. 7) Speed ctx_live [] 0 ?m = Some (Expanded bef code)"
    "run env (bef @ code) ?s = cont t" "unchanged (clobbers V6CLANG_LOAD16_P \<union> dead_at ctx_live) (below_sp ?s)
      (setP DE (load16 (getP HL s) s) ?s) t"
    using expandPostRAPseudo_refines [OF ops(1), of env ?s "setP DE (load16 (getP HL s) s) ?s" ctx_live Speed True "\<lambda>_. 7" ?s "[]" 0]
      ok ops bef by (auto simp: operands_ok_def reg_in_def tied_def load16_def)
  then show "\<exists>bef code t. expandPostRAPseudo True (\<lambda>_. 7) Speed ctx_live [] 0 ?m = Some (Expanded bef code)
    \<and> run env (bef @ code) ?s = cont t
    \<and> getP DE t = load16 (getP HL s) s \<and> getP HL t = getP HL s \<and> fl t = fl s"
    by (intro exI [of _ bef] exI [of _ code] exI [of _ t]) (simp add: unchanged_code clobbers_def)
qed

section \<open>The block around the pseudo\<close>

text \<open>
  C2.  The block with the expansion in place of the pseudo leaves as the block with some abstract step
  of the pseudo does, in a state that the successors cannot tell apart.  The conditions on the pseudo are those
  above; the instructions behind it are regular, with the terminators last.
\<close>

theorem expandPostRAPseudo_block:
  assumes "opcode m = PSEUDO p" "operands_ok m p" "effect env m p s = Some u" "pairs_ok c"
    and "expansion_ok env Mode (annotated b (num (PSEUDO p)) c) m p s" "run env (before c) s0 = cont s"
    and "list_all wf_instr (after c)" "final_last isTerminator (after c)"
  shows "\<exists>bef code t. expandPostRAPseudo b num Mode c succs new m = Some (Expanded bef code)
    \<and> data_step env m s t
    \<and> rel_option (same_exit (succLiveIns c)) (run env (after c) t) (run env (bef @ code @ after c) s0)"
proof -
  obtain bef code v where v: "expandPostRAPseudo b num Mode c succs new m = Some (Expanded bef code)"
    "run env (bef @ code) s0 = cont v" "unchanged (clobbers p \<union> dead_at c) (below_sp s) u v"
    using expand_pseudo_refines [OF assms(2,5,3) _ run_annotated [OF assms(6)], of succs new] assms(1,4)
    by (auto simp: expandPostRAPseudo_def)
  define rs where "rs = filter (\<lambda>r. r \<in> dead_at c - clobbers p) [A, B, C, D, E, H, L]"
  define t where "t = fold (\<lambda>r. setR r (r8 u r)) rs v"
  have "x \<in> set [A, B, C, D, E, H, L]" if "GR8 x" for x using that by (elim GR8_cases) simp_all
  then have rs: "set rs = dead_at c - clobbers p" unfolding rs_def set_filter by (auto simp: dead_regs_def)
  have fold: "r8 (fold (\<lambda>r. setR r (f r)) xs x) q = (if q \<in> set xs then f q else r8 x q)"
    "fl (fold (\<lambda>r. setR r (f r)) xs x) = fl x" "sp (fold (\<lambda>r. setR r (f r)) xs x) = sp x"
    "mem (fold (\<lambda>r. setR r (f r)) xs x) = mem x" "inte (fold (\<lambda>r. setR r (f r)) xs x) = inte x"
    "iolog (fold (\<lambda>r. setR r (f r)) xs x) = iolog x" for f xs x q
    by (induction xs arbitrary: x) (auto simp: setR_def)
  have "unchanged (clobbers p) (below_sp s) u t"
    using v(3) by (auto simp: unchanged_def t_def fold rs)
  then have "data_step env m s t" using assms(1,3) by (intro data_step)
  moreover have "rel_option (same_exit (succLiveIns c)) (run env (after c) t) (run env (after c) v)"
    unfolding t_def using assms(7,8) rs by (intro dead_fold) auto
  moreover have "run env (bef @ code @ after c) s0 = run env (after c) v"
    using run_append_Next [OF v(2), of "after c"] by simp
  ultimately show ?thesis using v(1) by (intro exI [of _ bef] exI [of _ code] exI [of _ t]) simp
qed

definition demo_ctx :: mbb_ctx where
  "demo_ctx = \<lparr>before = [], after = [BuildMI MOVrr [addRegDef A, addReg E], BuildMI RET []], liveIns = [],
     succLiveIns = [[BC, DE, HL, A]], preds = []\<rparr>"

theorem expandPostRAPseudo_block_witness:
  "\<forall>env s. \<exists>bef code t. expandPostRAPseudo False (\<lambda>_. 7) Speed demo_ctx [] 0 demo_load = Some (Expanded bef code)
    \<and> data_step env demo_load (s\<lparr>sp := getP HL s\<rparr>) t
    \<and> rel_option (same_exit [[BC, DE, HL, A]]) (run env (after demo_ctx) t)
        (run env (bef @ code @ after demo_ctx) (s\<lparr>sp := getP HL s\<rparr>))"
proof (intro allI)
  fix env :: senv and s :: cpu
  let ?s = "s\<lparr>sp := getP HL s\<rparr>" and ?m = demo_load
  have ok: "off_stack (getP HL s) ?s" by (simp add: off_stack_def below_sp_def)
  have ops: "opcode ?m = PSEUDO V6CLANG_LOAD16_P" "opReg ?m 0 = Some DE" "opReg ?m (Suc 0) = Some HL"
    by (simp_all add: demo_load_def BuildMI_def opReg_def implicit_operands_def)
  have "pairs_ok demo_ctx" by (simp add: pairs_ok_def pair_scan_ok_def demo_ctx_def wf_eval isArtifact_def)
  moreover have "run env (before demo_ctx) ?s = cont ?s" "succLiveIns demo_ctx = [[BC, DE, HL, A]]"
    by (simp_all add: demo_ctx_def)
  moreover have "list_all wf_instr (after demo_ctx)" "final_last isTerminator (after demo_ctx)"
    by (simp_all add: demo_ctx_def wf_eval)
  ultimately show "\<exists>bef code t. expandPostRAPseudo False (\<lambda>_. 7) Speed demo_ctx [] 0 ?m = Some (Expanded bef code)
    \<and> data_step env ?m ?s t \<and> rel_option (same_exit [[BC, DE, HL, A]]) (run env (after demo_ctx) t)
        (run env (bef @ code @ after demo_ctx) ?s)"
    using expandPostRAPseudo_block [OF ops(1), of env ?s "setP DE (load16 (getP HL s) s) ?s" demo_ctx Speed False
      "\<lambda>_. 7" ?s "[]" 0] ok ops by (auto simp: operands_ok_def reg_in_def tied_def load16_def annotated_def)
qed

end
