(* ===== verification/DispatchType.thy ===== *)
theory DispatchType
  imports Dispatch
begin

text \<open>
  What the expansions emit is executable code: every instruction is a real one, with registers of
  the classes that its description asks for, and what stays in front of it was there before.
\<close>

section \<open>Instructions with operands in their classes\<close>

definition fits_ops :: "opcode \<Rightarrow> machine_operand list \<Rightarrow> bool" where
  "fits_ops opc ex = (case reg_classes opc of None \<Rightarrow> False | Some cls \<Rightarrow>
     list_all2 (\<lambda>K x. case getReg x of Some r \<Rightarrow> K r | None \<Rightarrow> False) cls ex
     \<and> list_all isDef (take (num_outs opc) ex) \<and> list_all isUse (drop (num_outs opc) ex))"

definition fits :: "machine_instr \<Rightarrow> bool" where
  "fits m = fits_ops (opcode m) (explicit_regs m)"

lemma wf_instr_fits: "wf_instr m \<Longrightarrow> fits m"
  by (auto simp: wf_instr_def fits_def fits_ops_def Let_def list_all_iff split: option.splits)

lemma explicit_BuildMI:
  "explicit_regs (BuildMI opc ops) = filter (\<lambda>x. isReg x \<and> \<not> isImplicit x) ops"
  by (simp add: explicit_regs_def BuildMI_def implicit_operands_def filter_map o_def)
    (induction ops; auto)

lemma fits_BuildMI [simp]:
  "fits (BuildMI opc ops) = fits_ops opc (filter (\<lambda>x. isReg x \<and> \<not> isImplicit x) ops)"
  by (simp add: fits_def explicit_BuildMI)

lemma fits_shapes [simp]:
  "fits (MOV d r) = (GR8 d \<and> GR8 r)" "op \<noteq> CMP \<Longrightarrow> fits (ALU op r) = GR8 r" "fits XCHGi"
  "opc = INX \<or> opc = DCX \<Longrightarrow> fits (INXi opc p) = GR16All p"
  "fits (PUSHi p) = GR16Stack p" "fits (POPi p) = GR16Stack p" "fits (DADi p) = GR16All p"
  "fits (MVI r i) = GR8 r" "opc \<in> {RLC, RRC, RAL, RAR} \<Longrightarrow> fits (ROTi opc)" "fits (ANIi i)"
  "fits (MOVrMi r) = GR8 r" "fits (MOVMri r) = GR8 r" "fits (LDAXi p) = GR16Idx p" "fits (STAXi p) = GR16Idx p"
  "fits (MVIMi i)" "fits saveHL" "fits restoreHL" "fits (ALUMi op)" "fits (CMPi r) = GR8 r"
  by (auto simp: MOV_def ALU_def XCHGi_def INXi_def PUSHi_def POPi_def DADi_def MVI_def ROTi_def ANIi_def
      MOVrMi_def MOVMri_def LDAXi_def STAXi_def MVIMi_def saveHL_def restoreHL_def ALUMi_def CMPi_def fits_ops_def)

lemma fits_undef [simp]: "fits (markXchgUseUndef r XCHGi)" "fits (zeroA c)"
proof -
  show "fits (markXchgUseUndef r XCHGi)"
    by (simp add: fits_def fits_ops_def markXchgUseUndef_def XCHGi_def BuildMI_def implicit_operands_def
        explicit_regs_def)
  show "fits (zeroA c)"
    by (simp add: zeroA_def)
      (simp add: fits_def fits_ops_def markRegUsesUndef_def ALU_def BuildMI_def implicit_operands_def explicit_regs_def)
qed

lemmas operand_shapes = fits_ops_def addImmLo.simps addImmHi.simps

section \<open>The expansions\<close>

lemma GR16_halves [simp]:
  "GR16 r \<Longrightarrow> GR8 (subHi r)" "GR16 r \<Longrightarrow> GR8 (subLo r)" "GR16 r \<Longrightarrow> GR16All r" "GR16 r \<Longrightarrow> GR16Stack r"
  "GR16 r \<Longrightarrow> r \<noteq> HL \<Longrightarrow> GR16Idx r"
  by (cases r; simp)+

lemma list_all_replicate [simp]: "list_all P (replicate n x) = (n = 0 \<or> P x)"
  by (induction n) auto

named_theorems fits_code "expansions whose instructions all fit"

lemma fits_arith:
  assumes "GR16 d" "GR16 r" "GR8 q" "GR8 p"
  shows "list_all fits (expand_BUILD_PAIR d q p)" "list_all fits (expand_NEG16 c d r)"
    "list_all fits (snd (expand_NEG8 c q p k))" "list_all fits (expand_SEXT d q)"
    "opc = INX \<or> opc = DCX \<Longrightarrow> list_all fits (expand_INX16 opc d n)"
  using assms
  by (auto simp: expand_BUILD_PAIR_def expand_NEG16_def expand_NEG8_def expand_SEXT_def expand_INX16_def
      fits_ops_def Let_def)

lemma fits_logic:
  assumes "GR16 d" "GR16 l" "GR16 r" "op \<noteq> CMP"
  shows "list_all fits (expand_LOGIC16 op c d l r)" "list_all fits (expand_LOGIC16_IMM op c d i)"
  using assms by (simp_all add: expand_LOGIC16_def expand_LOGIC16_IMM_def emitByte_def Let_def)

lemma fits_dad_around:
  "GR16 b \<Longrightarrow> GR16 d \<Longrightarrow> list_all fits mid \<Longrightarrow> list_all fits (dad_around P b d mid)"
  by (simp add: dad_around_def fits_ops_def)

lemma inx_chain_opc: "inx_chain Mode sub m = Some (opc, n) \<Longrightarrow> opc = INX \<or> opc = DCX"
  by (auto simp: inx_chain_def Let_def split: option.splits if_splits)

lemma fits_add_code:
  assumes "GR16 d" "GR16 l" "GR16 r"
  shows "list_all fits (add_code c d l r)"
proof -
  have x: "list_all fits (xchg_dad_xchg c q)" if "GR16 q" for q using that by (simp add: xchg_dad_xchg_def)
  show ?thesis using assms x
    by (simp add: add_code_def add_path_A_def add_path_B_def byte_chain_def Let_def)
qed

lemma chain_opc:
  "dad_chain Mode c m r = Some (opc, n, bef) \<Longrightarrow> opc = INX \<or> opc = DCX"
  "add_chain Mode c m d l r = Some (opc, n, bef) \<Longrightarrow> opc = INX \<or> opc = DCX"
  "sub_chain Mode c m d l r = Some (opc, n, bef) \<Longrightarrow> opc = INX \<or> opc = DCX"
  by (auto simp: dad_chain_def add_chain_def sub_chain_def Let_def dest: inx_chain_opc
      split: option.splits if_splits)

lemma fits_replicate: "opc = INX \<or> opc = DCX \<Longrightarrow> GR16 q \<Longrightarrow> list_all fits (replicate n (INXi opc q))"
  using fits_shapes(4) by simp

lemma fits_DAD:
  assumes "GR16 d" "GR16 l" "GR16All r"
  shows "list_all fits (snd (expand_DAD Mode c m d l r))"
proof -
  have b: "GR16 (if r = HL then r else l)" "GR16All (if r = HL then l else r)"
    using assms by simp_all
  show ?thesis
  proof (cases "dad_chain Mode c m (if r = HL then l else r)")
    case None
    then show ?thesis using fits_dad_around [OF b(1) assms(1)] b(2)
      unfolding expand_DAD_def Let_def by simp
  next
    case (Some x)
    then obtain opc n bef where x: "x = (opc, n, bef)" "opc = INX \<or> opc = DCX"
      using chain_opc(1) by (cases x) blast
    show ?thesis using fits_dad_around [OF b(1) assms(1) fits_replicate [OF x(2)]] Some x(1)
      unfolding expand_DAD_def Let_def by simp
  qed
qed

lemma fits_chains:
  assumes "GR16 d" "GR16 l" "GR16 r"
  shows "list_all fits (snd (expand_ADD16 Mode c m d l r))" "list_all fits (snd (expand_SUB16 Mode c m d l r))"
proof -
  show "list_all fits (snd (expand_ADD16 Mode c m d l r))"
    using fits_add_code [OF assms] fits_replicate assms(1) chain_opc(2)
    by (simp add: expand_ADD16_def split: option.splits)
  show "list_all fits (snd (expand_SUB16 Mode c m d l r))"
    using fits_replicate assms chain_opc(3)
    by (simp add: expand_SUB16_def byte_chain_def split: option.splits)
qed

lemma fits_cmp:
  assumes "GR16 l" "GR16 r" "GR8 q"
  shows "list_all fits (expand_CMP16_ZERO l)" "list_all fits (expand_CMP16_SIGN c l)"
    "list_all fits (expand_CMP8_ZERO c q k)" "list_all fits (expand_CMP16 l r)"
    "expand_CMP16_IMM l x = Some ms \<Longrightarrow> list_all fits ms"
    "expand_BRCOND b cc = Some ms \<Longrightarrow> list_all fits ms"
  using assms
  by (auto simp: expand_CMP16_ZERO_def expand_CMP16_SIGN_def expand_CMP8_ZERO_def expand_CMP16_def cmp_chain_def
      expand_CMP16_IMM_def imm_chain_def expand_BRCOND_def fits_ops_def
      split: option.splits elim!: addImmLo.elims addImmHi.elims)

lemma fits_br:
  assumes "GR16 l" "GR16 r"
  shows "expand_BR_CC16 c m succs new l r cc b = Some (InPlace ms) \<Longrightarrow> list_all fits ms"
    "expand_BR_CC16_IMM c m succs new l x cc b = Some (InPlace ms) \<Longrightarrow> list_all fits ms"
    "expand_BR_CC16 c m succs new l r cc b = Some (Split main ss hi hs lives) \<Longrightarrow> list_all fits hi
      \<and> (\<exists>lo. main = pop_terminators (before c @ m # after c) @ lo \<and> list_all fits lo)"
    "expand_BR_CC16_IMM c m succs new l x cc b = Some (Split main ss hi hs lives) \<Longrightarrow> list_all fits hi
      \<and> (\<exists>lo. main = pop_terminators (before c @ m # after c) @ lo \<and> list_all fits lo)"
  using assms fits_cmp(5) [OF assms, of A x]
  by (auto simp: expand_BR_CC16_def expand_BR_CC16_IMM_def split_equality_def cmp_chain_def fits_ops_def
      expand_CMP16_IMM_def split: option.splits if_splits elim!: addImmLo.elims addImmHi.elims)

lemma fits_loop24: "list_all fits (loop24 n)"
  by (simp add: loop24_def list_all_iff)

lemma fits_steps:
  "GR16 d \<Longrightarrow> list_all fits (srl_steps b d n)" "GR16 d \<Longrightarrow> list_all fits (sra_steps d n)"
  by (induction n arbitrary: b) auto

lemma fits_shift:
  assumes "GR16 d" "GR16 r"
  shows "list_all fits (expand_SHL16_DAD c d r n)" "list_all fits (expand_SHL16_BYTE d r)"
    "list_all fits (expand_SHL16_RAM_HI d r n)" "list_all fits (expand_SRL16_RAR c d r n)"
    "list_all fits (expand_SRL16_24BIT c d r n)" "list_all fits (expand_SRL16_BYTE d r)"
    "list_all fits (expand_SRL16_RAM_LO d r n)" "list_all fits (expand_SRA16_RAR d r n)"
    "list_all fits (expand_SRA16_24BIT c d r n)" "list_all fits (expand_SRA16_BYTE d r)"
    "list_all fits (expand_SRA16_RAM_LO c d r n)" "list_all fits expand_ROTL16_1"
proof -
  have rot: "list_all fits (rotate_tail k)" for k by (simp add: rotate_tail_def)
  have sh: "list_all fits (shift24 c d r seed n)" if "list_all fits seed" for seed
    using assms that fits_loop24 by (auto simp: shift24_def Let_def intro!: fits_dad_around)
  show "list_all fits (expand_SHL16_DAD c d r n)"
    using assms by (auto simp: expand_SHL16_DAD_def intro!: fits_dad_around)
  show "list_all fits (expand_SRL16_24BIT c d r n)" "list_all fits (expand_SRA16_24BIT c d r n)"
    using sh by (simp_all add: expand_SRL16_24BIT_def expand_SRA16_24BIT_def)
  show "list_all fits (expand_SRL16_RAR c d r n)" "list_all fits (expand_SRA16_RAR d r n)"
    using assms fits_steps by (simp_all add: expand_SRL16_RAR_def expand_SRA16_RAR_def copy_halves_def)
  show "list_all fits (expand_SHL16_BYTE d r)" "list_all fits (expand_SHL16_RAM_HI d r n)"
    "list_all fits (expand_SRL16_BYTE d r)" "list_all fits (expand_SRL16_RAM_LO d r n)"
    "list_all fits (expand_SRA16_BYTE d r)" "list_all fits (expand_SRA16_RAM_LO c d r n)"
    "list_all fits expand_ROTL16_1"
    using assms rot by (simp_all add: expand_SHL16_BYTE_def expand_SHL16_RAM_HI_def expand_SRL16_BYTE_def
      expand_SRL16_RAM_LO_def expand_SRA16_BYTE_def expand_SRA16_RAM_LO_def expand_ROTL16_1_def Let_def)
qed

lemma fits_memOp:
  "fits i \<Longrightarrow> list_all fits (expandMemOpM c a i)"
  by (simp add: expandMemOpM_def)

lemma GR8_dead [simp]: "findDeadGR8AtMI ms succs x y = Some r \<Longrightarrow> GR8 r" "xchgSpare c = Some r \<Longrightarrow> GR8 r"
  using findDeadGR8AtMI_props(2) [of ms succs x y r] by (auto simp: xchgSpare_def split: if_splits)

lemma partnerOf_GR8: "GR8 r \<Longrightarrow> r \<noteq> A \<Longrightarrow> GR8 (the (partnerOf r))"
  by (elim GR8_cases) simp_all

lemma fits_mem8:
  assumes "GR16 a" "GR8 r"
  shows "list_all fits (expand_ALU_M_P op c a)" "opc = INRM \<or> opc = DCRM \<Longrightarrow> list_all fits (expand_INR_DCR_M_P opc c a)"
    "list_all fits (expand_LOAD8_P c r a)" "list_all fits (expand_STORE8_P c r a)"
    "list_all fits (expand_STORE8_IMM_P c i a)"
proof -
  show "list_all fits (expand_ALU_M_P op c a)" by (simp add: expand_ALU_M_P_def fits_memOp)
  show "list_all fits (expand_INR_DCR_M_P opc c a)" if "opc = INRM \<or> opc = DCRM"
    using that by (auto simp: expand_INR_DCR_M_P_def fits_ops_def intro!: fits_memOp)
  show "list_all fits (expand_LOAD8_P c r a)" "list_all fits (expand_STORE8_P c r a)"
    "list_all fits (expand_STORE8_IMM_P c i a)"
    using assms partnerOf_GR8 [OF assms(2)]
    by (auto simp: expand_LOAD8_P_def expand_STORE8_P_def expand_STORE8_IMM_P_def Let_def split: option.splits)
qed

lemma tmpOrA_GR8: "(\<And>r. x = Some r \<Longrightarrow> GR8 r) \<Longrightarrow> GR8 (tmpOrA x)"
  by (simp add: tmpOrA_def split: option.splits)

lemma fits_wrap [simp]:
  "list_all fits body \<Longrightarrow> list_all fits (wrapPSW b body)" "list_all fits body \<Longrightarrow> list_all fits (wrapHL body)"
  "GR16 p \<Longrightarrow> list_all fits (fixup c p)"
  by (simp_all add: wrapPSW_def wrapHL_def fixup_def)

lemma fits_load16:
  assumes "GR16 r"
  shows "list_all fits (load16_HL c r)" "list_all fits (load16_DE c r)" "list_all fits (load16_BC c r)"
    "list_all fits (store16_HL c r)" "list_all fits (store16_DE c r)" "list_all fits (store16_BC c r)"
proof -
  have t: "GR8 (tmpOrA (spareAt c x y))" "GR8 (tmpOrA (xchgSpare c))" for x y
    by (auto intro!: tmpOrA_GR8)
  show "list_all fits (load16_HL c r)" "list_all fits (store16_HL c r)"
    using assms t by (simp_all add: load16_HL_def store16_HL_def Let_def)
  show "list_all fits (load16_DE c r)" "list_all fits (store16_DE c r)"
    using assms t by (simp_all add: load16_DE_def store16_DE_def Let_def)
  show "list_all fits (load16_BC c r)"
    using assms by (simp add: load16_BC_def Let_def split: option.splits)
  show "list_all fits (store16_BC c r)"
    using assms by (simp add: store16_BC_def Let_def split: option.splits)
qed

lemma fits_addr [simp]:
  assumes "addrAt x b = Some y"
  shows "fits (LHLDi y)" "fits (SHLDi y)" "fits (LDAi y)" "fits (STAi y)"
  using assms by (cases x; auto simp: LHLDi_def SHLDi_def LDAi_def STAi_def fits_ops_def)+

lemma fits_mem16:
  assumes "GR16 a" "GR16 r"
  shows "list_all fits (expand_LOAD16_P c r a)" "list_all fits (expand_STORE16_P c r a)"
    "expand_LOAD16_G c r x = Some ms \<Longrightarrow> list_all fits ms"
    "expand_STORE16_G c r x = Some ms \<Longrightarrow> list_all fits ms"
proof -
  show "list_all fits (expand_LOAD16_P c r a)" "list_all fits (expand_STORE16_P c r a)"
    using fits_load16 [OF assms(2)] by (simp_all add: expand_LOAD16_P_def expand_STORE16_P_def)
  show "list_all fits ms" if "expand_LOAD16_G c r x = Some ms"
    using that assms(2) by (auto simp: expand_LOAD16_G_def split: option.splits)
  show "list_all fits ms" if "expand_STORE16_G c r x = Some ms"
    using that assms(2) by (auto simp: expand_STORE16_G_def split: option.splits)
qed

section \<open>The dispatch\<close>

text \<open>The expansions that may fail, as destruction rules.\<close>

lemma fits_partial:
  "expand_CMP16_IMM l x = Some ms \<Longrightarrow> GR16 l \<Longrightarrow> list_all fits ms"
  "expand_BRCOND b cc = Some ms \<Longrightarrow> list_all fits ms"
  "expand_LOAD16_G c r x = Some ms \<Longrightarrow> GR16 r \<Longrightarrow> list_all fits ms"
  "expand_STORE16_G c r x = Some ms \<Longrightarrow> GR16 r \<Longrightarrow> list_all fits ms"
  using fits_cmp(5) [of l HL A] fits_cmp(6) [of HL HL A] fits_mem16(3,4) [of HL r] by simp_all

lemmas fits_total [fits_code] = fits_arith(1) [where r = HL] fits_arith(2) [where q = A and p = A]
  fits_arith(3) [where d = HL and r = HL] fits_arith(4) [where r = HL and p = A]
  fits_arith(5) [where r = HL and q = A and p = A] fits_logic(1) fits_logic(2) [where l = HL and r = HL]
  fits_DAD fits_chains fits_shift(1-11) fits_shift(12) [where d = HL and r = HL]
  fits_mem8(1,2,5) [where r = A] fits_mem8(3,4) fits_cmp(1) [of _ HL A] fits_cmp(2) [of _ HL A] fits_cmp(3) [of HL HL]
  fits_cmp(4) [of _ _ A] fits_mem16(1,2)

lemma erase_LXI_before: "set (erase_LXI c m i) \<subseteq> set (before c)"
  by (auto simp: erase_LXI_def remove_nth_def split: option.splits dest: in_set_takeD in_set_dropD)

lemma fold_copy_before: "fold_copy_scan r ms = Some ms' \<Longrightarrow> set ms' \<subseteq> set ms"
  by (induction ms arbitrary: ms') (auto split: if_splits)

lemma chain_before:
  "set (fst (expand_DAD Mode c m d l r)) \<subseteq> set (before c)" "set (fst (expand_ADD16 Mode c m d l r)) \<subseteq> set (before c)"
  "set (fst (expand_SUB16 Mode c m d l r)) \<subseteq> set (before c)" "set (fst (expand_NEG8 c d r k)) \<subseteq> set (before c)"
proof -
  have "set bef \<subseteq> set (before c)" if "dad_chain Mode c m q = Some (opc, n, bef)" for q opc n bef
    using that erase_LXI_before by (auto simp: dad_chain_def split: option.splits if_splits)
  then show "set (fst (expand_DAD Mode c m d l r)) \<subseteq> set (before c)"
    by (fastforce simp: expand_DAD_def Let_def split: option.splits)
  have "set bef \<subseteq> set (before c)" if "add_chain Mode c m d l r = Some (opc, n, bef)" for opc n bef
    using that by (auto dest!: erase_LXI_before [THEN subsetD] simp: add_chain_def Let_def split: option.splits if_splits)
  then show "set (fst (expand_ADD16 Mode c m d l r)) \<subseteq> set (before c)"
    by (auto simp: expand_ADD16_def split: option.splits)
  have "set bef \<subseteq> set (before c)" if "sub_chain Mode c m d l r = Some (opc, n, bef)" for opc n bef
    using that erase_LXI_before by (auto simp: sub_chain_def split: option.splits if_splits)
  then show "set (fst (expand_SUB16 Mode c m d l r)) \<subseteq> set (before c)"
    by (auto simp: expand_SUB16_def split: option.splits)
  show "set (fst (expand_NEG8 c d r k)) \<subseteq> set (before c)"
    by (auto simp: expand_NEG8_def Let_def dest!: fold_copy_before split: option.splits if_splits)
qed

fun well_typed :: "mbb_ctx \<Rightarrow> machine_instr \<Rightarrow> expansion \<Rightarrow> bool" where
  "well_typed c m NotExpanded = True"
| "well_typed c m (Expanded bef code) = (set bef \<subseteq> set (before c) \<and> list_all fits code)"
| "well_typed c m (SplitBlock main ms hi hs lives) = (list_all fits hi
     \<and> (\<exists>lo. main = pop_terminators (before c @ m # after c) @ lo \<and> list_all fits lo))"

lemma well_typed_chain [intro!]:
  "set (fst bc) \<subseteq> set (before c) \<Longrightarrow> list_all fits (snd bc) \<Longrightarrow> well_typed c m (case_prod Expanded bc)"
  by (simp add: case_prod_beta)

lemma logic_not_CMP: "logic_opc p = Some op \<Longrightarrow> op \<noteq> CMP" "logic_imm_opc p = Some op \<Longrightarrow> op \<noteq> CMP"
  by (cases p; auto)+

lemma well_typed_br:
  "expand_BR_CC16 c m succs new l r cc b = Some e \<Longrightarrow> GR16 l \<Longrightarrow> GR16 r \<Longrightarrow> well_typed c m (of_br c e)"
  "expand_BR_CC16_IMM c m succs new l x cc b = Some e \<Longrightarrow> GR16 l \<Longrightarrow> well_typed c m (of_br c e)"
  using fits_br [of l r] fits_br [of l HL] by (cases e; auto)+

lemma expand_pseudo_fits:
  assumes "operands_ok m p" "expand_pseudo Mode c succs new m p = Some e"
  shows "well_typed c m e"
  using assms
  by (cases p; auto simp: operands_ok_def reg_in_iff Option.bind_eq_Some_conv
      split: option.splits if_splits intro!: fits_code chain_before dest: logic_not_CMP fits_partial well_typed_br)

text \<open>
  C3.  Whatever the dispatch returns for a pseudo with operands in their classes is well typed: it
  adds only executable instructions with operands in their classes, in place or in the two blocks
  of a split, and keeps in front of them only instructions that were there.
\<close>

theorem expandPostRAPseudo_well_typed:
  assumes "opcode m = PSEUDO p" "operands_ok m p"
    and "expandPostRAPseudo b num Mode c succs new m = Some e"
  shows "well_typed (annotated b (num (PSEUDO p)) c) m e"
  using expand_pseudo_fits [OF assms(2)] assms(1,3) by (simp add: expandPostRAPseudo_def)

definition demo_br :: machine_instr where
  "demo_br = BuildMI (PSEUDO V6CLANG_BR_CC16) [addReg HL, addReg DE, addImm 0, addMBB 4]"

theorem expandPostRAPseudo_well_typed_witness:
  "\<exists>main ms hi hs lives. expandPostRAPseudo True (\<lambda>_. 7) Speed ctx_live [4, 5] 9 demo_br
      = Some (SplitBlock main ms hi hs lives)
    \<and> well_typed (annotated True 7 ctx_live) demo_br (SplitBlock main ms hi hs lives)"
proof -
  have o: "opcode demo_br = PSEUDO V6CLANG_BR_CC16" "operands_ok demo_br V6CLANG_BR_CC16"
    by (simp_all add: demo_br_def BuildMI_def opReg_def operands_ok_def reg_in_def tied_def)
  have "\<exists>main ms hi hs lives. expandPostRAPseudo True (\<lambda>_. 7) Speed ctx_live [4, 5] 9 demo_br
      = Some (SplitBlock main ms hi hs lives)"
    by (simp add: expandPostRAPseudo_def demo_br_def BuildMI_def opReg_def opImm_def opMBB_def
        expand_BR_CC16_def split_equality_def cond_of_def fallthroughMBB_def)
  then show ?thesis using expandPostRAPseudo_well_typed [OF o, of True "\<lambda>_. 7"] by blast
qed

end
