(* ===== verification/PackedSections.thy ===== *)
theory PackedSections
  imports Prelude "HOL-Library.Product_Lexorder" "HOL-Library.Monad_Syntax" "HOL-Library.Multiset"
begin

text \<open>
  The packed zero-initialised sections of the linker (lld/ELF/V6ClangPackedSections.cpp): anchors
  on page boundaries, windows that must not cross a page, and fillers for the holes between them.
  The layout is one best-fit pass; its blocks are disjoint, inside the address space, and aligned
  as their kinds ask.  A \<open>uint64_t\<close> is a number below \<open>2 ^ 64\<close>; the additions that the code checks
  are options and the one that it does not check wraps around.
\<close>

section \<open>Blocks and holes\<close>

datatype (plugins only: code size) V6ClangPackKind = Filler | Anchor | Window

record V6ClangPackBlock =
  kind :: V6ClangPackKind
  bsize :: nat
  originalOrder :: nat
  addr :: nat

datatype (plugins only: code size) V6ClangPackResult =
  Success | InvalidBlock | AddressOverflow | AddressSpaceOverflow

record Hole =
  hbegin :: nat
  hend :: nat

abbreviation pageSize :: nat where "pageSize \<equiv> 0x100"

definition checkedAdd :: "nat \<Rightarrow> nat \<Rightarrow> nat option" where
  "checkedAdd lhs rhs = (if rhs > 2 ^ 64 - 1 - lhs then None else Some (lhs + rhs))"

definition alignToPage :: "nat \<Rightarrow> nat option" where
  "alignToPage v = map_option (\<lambda>biased. biased - biased mod pageSize) (checkedAdd v (pageSize - 1))"

definition fitsWindow :: "nat \<Rightarrow> nat \<Rightarrow> bool" where
  "fitsWindow a sz = (sz \<le> pageSize \<and> a mod pageSize + sz \<le> pageSize)"

definition addHole :: "Hole list \<Rightarrow> nat \<Rightarrow> nat \<Rightarrow> Hole list" where
  "addHole holes b e = (if b < e then holes @ [\<lparr>hbegin = b, hend = e\<rparr>] else holes)"

section \<open>Placing one block\<close>

text \<open>Where in a hole the block would go.\<close>

definition holeAddr :: "V6ClangPackBlock \<Rightarrow> bool \<Rightarrow> Hole \<Rightarrow> nat option" where
  "holeAddr block window hole = do {
     a \<leftarrow> (if window \<and> \<not> fitsWindow (hbegin hole) (bsize block) then alignToPage (hbegin hole)
           else Some (hbegin hole));
     if a > hend hole \<or> bsize block > hend hole - a then None else Some a }"

text \<open>
  One round of the search: the best hole so far, with its index and the address in it, gives way
  to a smaller one, or to an equally large one that begins earlier.
\<close>

definition improve ::
  "V6ClangPackBlock \<Rightarrow> bool \<Rightarrow> nat \<times> Hole \<Rightarrow> (nat \<times> nat \<times> Hole) option \<Rightarrow> (nat \<times> nat \<times> Hole) option" where
  "improve block window = (\<lambda>(i, hole) best. case holeAddr block window hole of
     None \<Rightarrow> best
   | Some a \<Rightarrow> (case best of
       None \<Rightarrow> Some (i, a, hole)
     | Some (_, _, g) \<Rightarrow>
         if hend hole - hbegin hole < hend g - hbegin g
           \<or> hend hole - hbegin hole = hend g - hbegin g \<and> hbegin hole < hbegin g
         then Some (i, a, hole) else best))"

definition placeInBestHole ::
  "V6ClangPackBlock \<Rightarrow> Hole list \<Rightarrow> bool \<Rightarrow> (V6ClangPackBlock \<times> Hole list) option" where
  "placeInBestHole block holes window = (case fold (improve block window) (enumerate 0 holes) None of
     None \<Rightarrow> None
   | Some (i, a, hole) \<Rightarrow> Some (block\<lparr>addr := a\<rparr>,
       addHole (addHole (take i holes @ drop (Suc i) holes) (hbegin hole) a)
         ((a + bsize block) mod 2 ^ 64) (hend hole)))"

definition appendBlock ::
  "V6ClangPackBlock \<Rightarrow> Hole list \<Rightarrow> nat \<Rightarrow> (V6ClangPackBlock \<times> Hole list \<times> nat) option" where
  "appendBlock block holes cursor = do {
     (a, holes') \<leftarrow> (if kind block = Window \<and> \<not> fitsWindow cursor (bsize block)
       then map_option (\<lambda>a. (a, addHole holes cursor a)) (alignToPage cursor)
       else Some (cursor, holes));
     e \<leftarrow> checkedAdd a (bsize block);
     Some (block\<lparr>addr := a\<rparr>, holes', e) }"

section \<open>The layout\<close>

record pack_state =
  blocks :: "V6ClangPackBlock list"
  holes :: "Hole list"
  cursor :: nat

text \<open>
  A pass over the blocks of one kind ends early, with the blocks as they then stand (\<open>Inl\<close>), when an
  address would leave the 64 bits.
\<close>

fun placeAnchors :: "nat list \<Rightarrow> pack_state \<Rightarrow> V6ClangPackBlock list + pack_state" where
  "placeAnchors [] st = Inr st"
| "placeAnchors (i # is) st = (case alignToPage (cursor st) of
     None \<Rightarrow> Inl (blocks st)
   | Some aligned \<Rightarrow>
       (case appendBlock (blocks st ! i) (addHole (holes st) (cursor st) aligned) aligned of
         None \<Rightarrow> Inl (blocks st)
       | Some (b, hs, c) \<Rightarrow> placeAnchors is \<lparr>blocks = (blocks st)[i := b], holes = hs, cursor = c\<rparr>))"

fun placeOthers :: "bool \<Rightarrow> nat list \<Rightarrow> pack_state \<Rightarrow> V6ClangPackBlock list + pack_state" where
  "placeOthers window [] st = Inr st"
| "placeOthers window (i # is) st = (case placeInBestHole (blocks st ! i) (holes st) window of
     Some (b, hs) \<Rightarrow> placeOthers window is (st\<lparr>blocks := (blocks st)[i := b], holes := hs\<rparr>)
   | None \<Rightarrow> (case appendBlock (blocks st ! i) (holes st) (cursor st) of
         None \<Rightarrow> Inl (blocks st)
       | Some (b, hs, c) \<Rightarrow>
           placeOthers window is \<lparr>blocks = (blocks st)[i := b], holes = hs, cursor = c\<rparr>))"

definition andThen :: "'a + 'b \<Rightarrow> ('b \<Rightarrow> 'a + 'c) \<Rightarrow> 'a + 'c" where
  "andThen x f = (case x of Inl a \<Rightarrow> Inl a | Inr b \<Rightarrow> f b)"

text \<open>The indices of the blocks of a kind, the largest first, then by their order in the input.\<close>

definition ofKind :: "V6ClangPackBlock list \<Rightarrow> V6ClangPackKind \<Rightarrow> nat list" where
  "ofKind bs k = sort_key (\<lambda>i. (- int (bsize (bs ! i)), originalOrder (bs ! i)))
     (filter (\<lambda>i. kind (bs ! i) = k) [0..<length bs])"

definition assignV6ClangPackedBlockAddresses ::
  "V6ClangPackBlock list \<Rightarrow> nat \<Rightarrow> V6ClangPackResult \<times> V6ClangPackBlock list \<times> nat" where
  "assignV6ClangPackedBlockAddresses bs startAddr =
    (if startAddr > 0x10000 then (AddressSpaceOverflow, bs, startAddr)
     else if list_ex (\<lambda>b. bsize b = 0 \<or> kind b = Window \<and> bsize b > pageSize) bs
     then (InvalidBlock, bs, startAddr)
     else case andThen (placeAnchors (ofKind bs Anchor) \<lparr>blocks = bs, holes = [], cursor = startAddr\<rparr>)
         (\<lambda>st. andThen (placeOthers True (ofKind bs Window) st) (placeOthers False (ofKind bs Filler))) of
       Inl bs' \<Rightarrow> (AddressOverflow, bs', startAddr)
     | Inr st \<Rightarrow> if cursor st > 0x10000 then (AddressSpaceOverflow, blocks st, startAddr)
                 else (Success, blocks st, cursor st))"

section \<open>Arithmetic of pages\<close>

lemma alignToPage_Some:
  assumes "alignToPage v = Some a"
  shows "v \<le> a" "a < v + 256" "a mod 256 = 0" "a < 2 ^ 64"
proof -
  have a: "a = v + 255 - (v + 255) mod 256" and "v + 255 < 2 ^ 64"
    using assms by (auto simp: alignToPage_def checkedAdd_def split: if_splits)
  then show "v \<le> a" "a < v + 256" "a < 2 ^ 64"
    using mod_less_divisor [of 256 "v + 255"] by linarith+
  show "a mod 256 = 0"
    unfolding a by (simp add: minus_mod_eq_mult_div)
qed

lemma alignToPage_None: "alignToPage v = None \<longleftrightarrow> 2 ^ 64 \<le> v + 255"
  by (auto simp: alignToPage_def checkedAdd_def)

lemma checkedAdd_Some: "checkedAdd x y = Some z \<longleftrightarrow> z = x + y \<and> (x + y < 2 ^ 64 \<or> y = 0 )"
  by (auto simp: checkedAdd_def)

section \<open>The bytes of the area\<close>

definition within :: "nat \<Rightarrow> nat \<Rightarrow> nat \<Rightarrow> nat" where
  "within b e p = of_bool (b \<le> p \<and> p < e)"

lemma within_split: "b \<le> m \<Longrightarrow> m \<le> e \<Longrightarrow> within b e p = within b m p + within m e p"
  by (auto simp: within_def)

lemma within_empty [simp]: "within b b p = 0"
  by (simp add: within_def)

definition inHoles :: "Hole list \<Rightarrow> nat \<Rightarrow> nat" where
  "inHoles hs p = (\<Sum>h\<leftarrow>hs. within (hbegin h) (hend h) p)"

lemma inHoles_addHole: "b \<le> e \<Longrightarrow> inHoles (addHole hs b e) p = inHoles hs p + within b e p"
  by (auto simp: addHole_def inHoles_def within_def)

lemma inHoles_remove:
  assumes "i < length hs"
  shows "inHoles hs p = inHoles (take i hs @ drop (Suc i) hs) p + within (hbegin (hs ! i)) (hend (hs ! i)) p"
  using assms by (subst id_take_nth_drop [OF assms]) (simp add: inHoles_def)

section \<open>Best fit\<close>

lemma holeAddr_Some:
  assumes "holeAddr b w h = Some a" "hbegin h < 2 ^ 64"
  shows "hbegin h \<le> a" "a + bsize b \<le> hend h" "w \<Longrightarrow> bsize b \<le> 256 \<Longrightarrow> a mod 256 + bsize b \<le> 256"
  using assms alignToPage_Some [of "hbegin h" a]
  by (auto simp: holeAddr_def fitsWindow_def split: if_splits Option.bind_splits)


text \<open>The search returns a hole of the list in which the block fits, and no smaller one would do.\<close>

lemma improve_found:
  assumes "fold (improve b w) (enumerate k hs) best = Some (i, a, g)"
  shows "best = Some (i, a, g) \<or>
    k \<le> i \<and> i < k + length hs \<and> g = hs ! (i - k) \<and> holeAddr b w g = Some a"
  using assms
proof (induction hs arbitrary: k best)
  case (Cons h hs)
  have "improve b w (k, h) best = Some (i, a, g) \<or>
      Suc k \<le> i \<and> i < Suc k + length hs \<and> g = hs ! (i - Suc k) \<and> holeAddr b w g = Some a"
    using Cons.IH [of "Suc k" "improve b w (k, h) best"] Cons.prems by simp
  then show ?case
    by (auto simp: improve_def nth_Cons' split: option.splits if_splits)
qed simp

lemma improve_least:
  assumes "fold (improve b w) (enumerate k hs) best = r"
    and "(\<exists>x. best = Some x \<and> x = (j, c, h)) \<or> h \<in> set hs \<and> holeAddr b w h \<noteq> None"
  shows "\<exists>i a g. r = Some (i, a, g) \<and> hend g - hbegin g \<le> hend h - hbegin h"
  using assms
proof (induction hs arbitrary: k best j c h)
  case (Cons h' hs)
  let ?best = "improve b w (k, h') best"
  have run: "fold (improve b w) (enumerate (Suc k) hs) ?best = r"
    using Cons.prems(1) by simp
  show ?case
  proof (cases "h \<in> set hs \<and> holeAddr b w h \<noteq> None")
    case True
    then show ?thesis using Cons.IH [OF run] by blast
  next
    case False
    then obtain i a g where "?best = Some (i, a, g)" "hend g - hbegin g \<le> hend h - hbegin h"
      using Cons.prems(2) by (fastforce simp: improve_def split: option.splits if_splits)
    then show ?thesis using Cons.IH [OF run, of i a g] by fastforce
  qed
qed auto

lemma placeInBestHole_Some:
  assumes "placeInBestHole b hs w = Some (b', hs')"
    and "\<forall>h \<in> set hs. hend h < 2 ^ 64 \<and> hbegin h < hend h" "w \<Longrightarrow> bsize b \<le> 256"
  obtains a where "b' = b\<lparr>addr := a\<rparr>"
    and "\<And>p. inHoles hs p = inHoles hs' p + within a (a + bsize b) p"
    and "w \<Longrightarrow> a mod 256 + bsize b \<le> 256"
    and "\<forall>h \<in> set hs'. hend h < 2 ^ 64 \<and> hbegin h < hend h"
proof -
  obtain i a g where found: "fold (improve b w) (enumerate 0 hs) None = Some (i, a, g)"
    and b': "b' = b\<lparr>addr := a\<rparr>"
    and hs': "hs' = addHole (addHole (take i hs @ drop (Suc i) hs) (hbegin g) a)
         ((a + bsize b) mod 2 ^ 64) (hend g)"
    using assms(1) by (auto simp: placeInBestHole_def split: option.splits)
  have i: "i < length hs" and g: "g = hs ! i" and at: "holeAddr b w g = Some a"
    using improve_found [OF found] by auto
  have "g \<in> set hs" using i g by simp
  with assms(2) have g64: "hend g < 2 ^ 64" "hbegin g < 2 ^ 64" by (auto intro: order.strict_trans)
  note a = holeAddr_Some [OF at g64(2)]
  have m: "(a + bsize b) mod 2 ^ 64 = a + bsize b"
    using a(2) g64 by simp
  have "inHoles hs p = inHoles hs' p + within a (a + bsize b) p" for p
    using inHoles_remove [OF i, of p] a(1,2)
      within_split [of "hbegin g" a "hend g" p] within_split [of a "a + bsize b" "hend g" p]
    unfolding hs' m by (simp add: inHoles_addHole g)
  moreover have "\<forall>h \<in> set hs'. hend h < 2 ^ 64 \<and> hbegin h < hend h"
  proof -
    have "set (take i hs @ drop (Suc i) hs) \<subseteq> set hs"
      by (auto dest: in_set_takeD in_set_dropD)
    then have "set hs' \<subseteq> set hs \<union> {h. hbegin h < hend h \<and> hend h < 2 ^ 64}"
      using a(1,2) g64(1) unfolding hs' m by (auto simp: addHole_def)
    then show ?thesis using assms(2) by blast
  qed
  ultimately show thesis
    using that b' a(3) assms(3) by blast
qed

lemma appendBlock_Some:
  assumes "appendBlock b hs c = Some (b', hs', c')" "c < 2 ^ 64"
    and "kind b = Window \<Longrightarrow> bsize b \<le> 256"
  obtains a where "b' = b\<lparr>addr := a\<rparr>" "c \<le> a" "c' = a + bsize b" "c' < 2 ^ 64"
    and "\<And>p. inHoles hs' p = inHoles hs p + within c a p"
    and "kind b = Window \<Longrightarrow> a mod 256 + bsize b \<le> 256" "kind b \<noteq> Window \<Longrightarrow> a = c"
    and "a < c + 256"
    and "set hs' \<subseteq> set hs \<union> {h. hbegin h < hend h \<and> hend h < 2 ^ 64}"
proof -
  obtain a where "b' = b\<lparr>addr := a\<rparr>" and c': "checkedAdd a (bsize b) = Some c'"
    and "kind b = Window \<and> \<not> fitsWindow c (bsize b) \<and> alignToPage c = Some a \<and> hs' = addHole hs c a
       \<or> \<not> (kind b = Window \<and> \<not> fitsWindow c (bsize b)) \<and> a = c \<and> hs' = hs"
    using assms(1) by (auto simp: appendBlock_def split: if_splits Option.bind_splits)
  then show thesis
    using that [of a] assms(2,3) alignToPage_Some [of c a] inHoles_addHole [of c a hs] c'
    by (auto simp: checkedAdd_Some fitsWindow_def addHole_def)
qed

section \<open>The invariant of the layout\<close>

text \<open>What the kind of a block asks of its address.\<close>

definition placed_well :: "V6ClangPackBlock \<Rightarrow> bool" where
  "placed_well b = ((kind b = Anchor \<longrightarrow> addr b mod pageSize = 0) \<and>
     (kind b = Window \<longrightarrow> addr b mod pageSize + bsize b \<le> pageSize))"

text \<open>
  With the blocks in \<open>D\<close> placed, every byte from the start to the cursor belongs to exactly one
  placed block or one hole, and no byte outside belongs to any.
\<close>

definition inBlocks :: "V6ClangPackBlock list \<Rightarrow> nat set \<Rightarrow> nat \<Rightarrow> nat" where
  "inBlocks bs D p = (\<Sum>i\<in>D. within (addr (bs ! i)) (addr (bs ! i) + bsize (bs ! i)) p)"

definition same_blocks :: "V6ClangPackBlock list \<Rightarrow> V6ClangPackBlock list \<Rightarrow> bool" where
  "same_blocks bs bs' = list_all2 (\<lambda>b b'. b\<lparr>addr := 0\<rparr> = b'\<lparr>addr := 0\<rparr>) bs bs'"

definition packed :: "V6ClangPackBlock list \<Rightarrow> nat \<Rightarrow> nat set \<Rightarrow> pack_state \<Rightarrow> bool" where
  "packed bs start D st = (same_blocks bs (blocks st) \<and> D \<subseteq> {..<length bs} \<and>
     start \<le> cursor st \<and> cursor st < 2 ^ 64 \<and>
     (\<forall>h \<in> set (holes st). hend h < 2 ^ 64 \<and> hbegin h < hend h) \<and>
     (\<forall>p. inBlocks (blocks st) D p + inHoles (holes st) p = within start (cursor st) p) \<and>
     (\<forall>i \<in> D. placed_well (blocks st ! i)))"

lemma same_blocks_length: "same_blocks bs bs' \<Longrightarrow> length bs' = length bs"
  by (auto simp: same_blocks_def dest: list_all2_lengthD)

lemma same_blocks_nth:
  assumes "same_blocks bs bs'" "i < length bs"
  shows "kind (bs' ! i) = kind (bs ! i)" "bsize (bs' ! i) = bsize (bs ! i)"
    "originalOrder (bs' ! i) = originalOrder (bs ! i)"
proof -
  have eq: "(bs ! i)\<lparr>addr := 0\<rparr> = (bs' ! i)\<lparr>addr := 0\<rparr>"
    using assms by (auto simp: same_blocks_def list_all2_conv_all_nth)
  show "kind (bs' ! i) = kind (bs ! i)" using arg_cong [OF eq, of kind] by simp
  show "bsize (bs' ! i) = bsize (bs ! i)" using arg_cong [OF eq, of bsize] by simp
  show "originalOrder (bs' ! i) = originalOrder (bs ! i)"
    using arg_cong [OF eq, of originalOrder] by simp
qed

lemma same_blocks_update:
  "same_blocks bs bs' \<Longrightarrow> i < length bs \<Longrightarrow> same_blocks bs (bs'[i := (bs' ! i)\<lparr>addr := a\<rparr>])"
  by (auto simp: same_blocks_def list_all2_conv_all_nth nth_list_update)

lemma same_blocks_refl: "same_blocks bs bs"
  by (simp add: same_blocks_def list_all2_refl)

lemma inBlocks_update:
  assumes "i \<notin> D" "i < length bs" "finite D"
  shows "inBlocks (bs[i := b]) (insert i D) p = inBlocks bs D p + within (addr b) (addr b + bsize b) p"
proof -
  have "inBlocks (bs[i := b]) D p = inBlocks bs D p"
    unfolding inBlocks_def by (rule sum.cong [OF refl]) (metis assms(1) nth_list_update_neq)
  then show ?thesis
    using assms by (simp add: inBlocks_def)
qed

lemma packed_insert:
  assumes inv: "packed bs start D st" and i: "i < length bs" "i \<notin> D"
    and b: "b = (blocks st ! i)\<lparr>addr := a\<rparr>" and c: "cursor st \<le> c" "c < 2 ^ 64"
    and hs: "\<forall>h \<in> set hs. hend h < 2 ^ 64 \<and> hbegin h < hend h"
    and bytes: "\<And>p. inHoles (holes st) p + within (cursor st) c p =
      inHoles hs p + within a (a + bsize (bs ! i)) p"
    and "placed_well b"
  shows "packed bs start (insert i D) \<lparr>blocks = (blocks st)[i := b], holes = hs, cursor = c\<rparr>"
proof -
  have st: "same_blocks bs (blocks st)" "D \<subseteq> {..<length bs}" "start \<le> cursor st"
    "\<And>p. inBlocks (blocks st) D p + inHoles (holes st) p = within start (cursor st) p"
    "\<forall>j \<in> D. placed_well (blocks st ! j)"
    using inv by (auto simp: packed_def)
  note len = same_blocks_length [OF st(1)]
  have "finite D" using st(2) finite_subset by blast
  then have "inBlocks ((blocks st)[i := b]) (insert i D) p + inHoles hs p = within start c p" for p
    using inBlocks_update [of i D "blocks st" b p] bytes [of p] st(3) st(4) [of p] c i len
      within_split [of start "cursor st" c p] same_blocks_nth(2) [OF st(1) i(1)] b by simp
  moreover have "\<forall>j \<in> insert i D. placed_well ((blocks st)[i := b] ! j)"
    using st(5) i len \<open>placed_well b\<close> by (auto simp: nth_list_update)
  ultimately show ?thesis
    using st i c hs b same_blocks_update [OF st(1) i(1), of a] by (auto simp: packed_def)
qed

text \<open>Each of the three ways of placing a block keeps the invariant.\<close>

lemma packed_hole:
  assumes inv: "packed bs start D st" and i: "i < length bs" "i \<notin> D"
    and run: "placeInBestHole (blocks st ! i) (holes st) w = Some (b, hs)"
    and kind: "kind (bs ! i) = Window \<Longrightarrow> w \<and> bsize (bs ! i) \<le> 256" "kind (bs ! i) \<noteq> Anchor"
      "w \<Longrightarrow> bsize (bs ! i) \<le> 256"
  shows "packed bs start (insert i D) (st\<lparr>blocks := (blocks st)[i := b], holes := hs\<rparr>)"
proof -
  have st: "same_blocks bs (blocks st)" "\<forall>h \<in> set (holes st). hend h < 2 ^ 64 \<and> hbegin h < hend h"
    "cursor st < 2 ^ 64"
    using inv by (auto simp: packed_def)
  note same = same_blocks_nth [OF st(1) i(1)]
  show ?thesis
  proof (rule placeInBestHole_Some [OF run st(2)])
    show "bsize (blocks st ! i) \<le> 256" if w using kind(3) that same by simp
    fix a assume "b = (blocks st ! i)\<lparr>addr := a\<rparr>"
      and "\<And>p. inHoles (holes st) p = inHoles hs p + within a (a + bsize (blocks st ! i)) p"
      and "w \<Longrightarrow> a mod 256 + bsize (blocks st ! i) \<le> 256"
      and "\<forall>h \<in> set hs. hend h < 2 ^ 64 \<and> hbegin h < hend h"
    then show ?thesis
      using packed_insert [OF inv i, of b a "cursor st" hs] same kind st(3)
      by (cases st) (simp add: placed_well_def)
  qed
qed

lemma packed_append:
  assumes inv: "packed bs start D st" and i: "i < length bs" "i \<notin> D"
    and run: "appendBlock (blocks st ! i) (holes st) (cursor st) = Some (b, hs, c)"
    and kind: "kind (bs ! i) = Window \<Longrightarrow> bsize (bs ! i) \<le> 256"
      "kind (bs ! i) = Anchor \<Longrightarrow> cursor st mod 256 = 0"
  shows "packed bs start (insert i D) \<lparr>blocks = (blocks st)[i := b], holes = hs, cursor = c\<rparr>"
    and "c < cursor st + bsize (bs ! i) + 256"
    and "kind (bs ! i) \<noteq> Window \<Longrightarrow> c = cursor st + bsize (bs ! i)"
proof -
  have st: "same_blocks bs (blocks st)" "\<forall>h \<in> set (holes st). hend h < 2 ^ 64 \<and> hbegin h < hend h"
    "cursor st < 2 ^ 64"
    using inv by (auto simp: packed_def)
  note same = same_blocks_nth [OF st(1) i(1)]
  have w: "kind (blocks st ! i) = Window \<Longrightarrow> bsize (blocks st ! i) \<le> 256"
    using kind(1) same by simp
  obtain a where b: "b = (blocks st ! i)\<lparr>addr := a\<rparr>" and a: "cursor st \<le> a"
    "c = a + bsize (bs ! i)" "c < 2 ^ 64"
    and hs: "\<And>p. inHoles hs p = inHoles (holes st) p + within (cursor st) a p"
    and k: "kind (bs ! i) = Window \<Longrightarrow> a mod 256 + bsize (bs ! i) \<le> 256"
      "kind (bs ! i) \<noteq> Window \<Longrightarrow> a = cursor st"
    and less: "a < cursor st + 256"
    and sub: "set hs \<subseteq> set (holes st) \<union> {h. hbegin h < hend h \<and> hend h < 2 ^ 64}"
    by (rule appendBlock_Some [OF run st(3) w, unfolded same], assumption) (rule that)
  have "placed_well b"
    using k kind b same by (auto simp: placed_well_def)
  moreover have "inHoles (holes st) p + within (cursor st) c p =
      inHoles hs p + within a (a + bsize (bs ! i)) p" for p
    using hs [of p] a within_split [of "cursor st" a c p] by simp
  moreover have "\<forall>h \<in> set hs. hend h < 2 ^ 64 \<and> hbegin h < hend h"
    using sub st(2) by blast
  ultimately show "packed bs start (insert i D) \<lparr>blocks = (blocks st)[i := b], holes = hs, cursor = c\<rparr>"
    using packed_insert [OF inv i b] a by simp
  show "c < cursor st + bsize (bs ! i) + 256" using a less by simp
  show "kind (bs ! i) \<noteq> Window \<Longrightarrow> c = cursor st + bsize (bs ! i)" using a k by simp
qed

lemma packed_skip:
  assumes inv: "packed bs start D st" and "alignToPage (cursor st) = Some a"
  shows "packed bs start D (st\<lparr>holes := addHole (holes st) (cursor st) a, cursor := a\<rparr>)"
proof -
  note a = alignToPage_Some [OF assms(2)]
  then show ?thesis
    using inv within_split [of start "cursor st" a] inHoles_addHole [of "cursor st" a "holes st"]
    by (auto simp: packed_def addHole_def)
qed

lemma appendBlock_None:
  assumes "appendBlock b hs c = None"
  shows "2 ^ 64 \<le> c + (bsize b + 255)"
  using assms alignToPage_Some(2) [of c] alignToPage_None [of c]
  by (fastforce simp: appendBlock_def checkedAdd_def split: if_splits Option.bind_splits)

section \<open>The passes\<close>

text \<open>The most that the blocks can take: their sizes, and a page less one byte for each.\<close>

definition worstCase :: "V6ClangPackBlock list \<Rightarrow> nat list \<Rightarrow> nat" where
  "worstCase bs is = (\<Sum>i\<leftarrow>is. bsize (bs ! i) + 255)"

lemma placeAnchors_packed:
  assumes "packed bs start D st" "distinct is" "set is \<inter> D = {}"
    and "\<forall>i \<in> set is. i < length bs \<and> kind (bs ! i) = Anchor" "placeAnchors is st = Inr st'"
  shows "packed bs start (set is \<union> D) st' \<and> cursor st' \<le> cursor st + worstCase bs is"
  using assms
proof (induction "is" arbitrary: D st)
  case (Cons i "is")
  obtain al b hs c where al: "alignToPage (cursor st) = Some al"
    and ap: "appendBlock (blocks st ! i) (addHole (holes st) (cursor st) al) al = Some (b, hs, c)"
    and run: "placeAnchors is \<lparr>blocks = (blocks st)[i := b], holes = hs, cursor = c\<rparr> = Inr st'"
    using Cons.prems(5) by (auto split: option.splits)
  note page = alignToPage_Some [OF al]
  have i: "i < length bs" "i \<notin> D" "kind (bs ! i) = Anchor" using Cons.prems by auto
  let ?skip = "st\<lparr>holes := addHole (holes st) (cursor st) al, cursor := al\<rparr>"
  have "packed bs start D ?skip" by (rule packed_skip [OF Cons.prems(1) al])
  from packed_append [OF this i(1,2), of b hs c] ap i(3) page
  have "packed bs start (insert i D) \<lparr>blocks = (blocks st)[i := b], holes = hs, cursor = c\<rparr>"
    and c: "c = al + bsize (bs ! i)" by simp_all
  from Cons.IH [OF this(1) _ _ _ run] show ?case
    using Cons.prems page(2) c by (auto simp: worstCase_def)
qed (simp add: worstCase_def)

lemma placeOthers_packed:
  assumes "packed bs start D st" "distinct is" "set is \<inter> D = {}"
    and "\<forall>i \<in> set is. i < length bs \<and> kind (bs ! i) \<noteq> Anchor \<and> (w \<longleftrightarrow> kind (bs ! i) = Window) \<and>
      (w \<longrightarrow> bsize (bs ! i) \<le> 256)" "placeOthers w is st = Inr st'"
  shows "packed bs start (set is \<union> D) st' \<and> cursor st' \<le> cursor st + worstCase bs is"
  using assms
proof (induction "is" arbitrary: D st)
  case (Cons i "is")
  have i: "i < length bs" "i \<notin> D" "kind (bs ! i) \<noteq> Anchor" "w \<longleftrightarrow> kind (bs ! i) = Window"
    "w \<Longrightarrow> bsize (bs ! i) \<le> 256" using Cons.prems by auto
  have step: ?case if "placeOthers w is st1 = Inr st'" "packed bs start (insert i D) st1"
    "cursor st1 \<le> cursor st + (bsize (bs ! i) + 255)" for st1
    using Cons.IH [OF that(2) _ _ _ that(1)] that(3) Cons.prems by (auto simp: worstCase_def)
  show ?case
  proof (cases "placeInBestHole (blocks st ! i) (holes st) w")
    case (Some x)
    then obtain b hs where run: "placeInBestHole (blocks st ! i) (holes st) w = Some (b, hs)"
      by (cases x) auto
    show ?thesis
      by (rule step) (use packed_hole [OF Cons.prems(1) i(1,2) run] i run Cons.prems(5) in auto)
  next
    case None
    then obtain b hs c where ap: "appendBlock (blocks st ! i) (holes st) (cursor st) = Some (b, hs, c)"
      and run: "placeOthers w is \<lparr>blocks = (blocks st)[i := b], holes = hs, cursor = c\<rparr> = Inr st'"
      using Cons.prems(5) by (auto split: option.splits)
    show ?thesis
      by (rule step [OF run]) (use packed_append [OF Cons.prems(1) i(1,2) ap] i in auto)
  qed
qed (simp add: worstCase_def)

text \<open>A pass ends early only when the worst case leaves the 64 bits.\<close>

lemma placeAnchors_early:
  assumes "packed bs start D st" "distinct is" "set is \<inter> D = {}"
    and "\<forall>i \<in> set is. i < length bs \<and> kind (bs ! i) = Anchor" "placeAnchors is st = Inl bs'"
  shows "2 ^ 64 \<le> cursor st + worstCase bs is"
  using assms
proof (induction "is" arbitrary: D st)
  case (Cons i "is")
  have i: "i < length bs" "i \<notin> D" "kind (bs ! i) = Anchor" using Cons.prems by auto
  have same: "kind (blocks st ! i) = Anchor" "bsize (blocks st ! i) = bsize (bs ! i)"
    using same_blocks_nth [of bs "blocks st" i] Cons.prems(1) i by (auto simp: packed_def)
  show ?case
  proof (cases "alignToPage (cursor st)")
    case None
    then show ?thesis using alignToPage_None by (simp add: worstCase_def)
  next
    case (Some al)
    note page = alignToPage_Some [OF Some]
    let ?append = "appendBlock (blocks st ! i) (addHole (holes st) (cursor st) al) al"
    show ?thesis
    proof (cases ?append)
      case None
      then show ?thesis
        using same page(2) by (auto simp: appendBlock_def checkedAdd_def worstCase_def split: if_splits)
    next
      case ap: (Some x)
      then obtain b hs c where x: "x = (b, hs, c)" by (cases x)
      let ?st1 = "\<lparr>blocks = (blocks st)[i := b], holes = hs, cursor = c\<rparr>"
      have one: "placeAnchors [i] st = Inr ?st1" using Some ap x by simp
      have "packed bs start (insert i D) ?st1" "c \<le> cursor st + worstCase bs [i]"
        using placeAnchors_packed [OF Cons.prems(1) _ _ _ one] i by auto
      from Cons.IH [OF this(1)] this(2) show ?thesis
        using Cons.prems Some ap x by (auto simp: worstCase_def)
    qed
  qed
qed simp

lemma placeOthers_early:
  assumes "packed bs start D st" "distinct is" "set is \<inter> D = {}"
    and "\<forall>i \<in> set is. i < length bs \<and> kind (bs ! i) \<noteq> Anchor \<and> (w \<longleftrightarrow> kind (bs ! i) = Window) \<and>
      (w \<longrightarrow> bsize (bs ! i) \<le> 256)" "placeOthers w is st = Inl bs'"
  shows "2 ^ 64 \<le> cursor st + worstCase bs is"
  using assms
proof (induction "is" arbitrary: D st)
  case (Cons i "is")
  have i: "i < length bs" "i \<notin> D" using Cons.prems by auto
  show ?case
  proof (cases "placeOthers w [i] st")
    case (Inr st1)
    have "packed bs start (insert i D) st1" "cursor st1 \<le> cursor st + worstCase bs [i]"
      using placeOthers_packed [OF Cons.prems(1) _ _ _ Inr] i Cons.prems(4) by auto
    moreover have "placeOthers w is st1 = Inl bs'"
      using Inr Cons.prems(5) by (auto split: option.splits)
    ultimately show ?thesis
      using Cons.IH [of "insert i D" st1] Cons.prems by (auto simp: worstCase_def)
  next
    case (Inl bs1)
    then have "appendBlock (blocks st ! i) (holes st) (cursor st) = None"
      by (auto split: option.splits)
    from appendBlock_None [OF this] show ?thesis
      using same_blocks_nth [of bs "blocks st" i] Cons.prems(1) i by (auto simp: packed_def worstCase_def)
  qed
qed simp

section \<open>The whole layout\<close>

lemma set_ofKind: "set (ofKind bs k) = {i. i < length bs \<and> kind (bs ! i) = k}"
  by (auto simp: ofKind_def)

lemma distinct_ofKind: "distinct (ofKind bs k)"
  by (simp add: ofKind_def distinct_sort)

lemma packed_init:
  "start < 2 ^ 64 \<Longrightarrow> packed bs start {} \<lparr>blocks = bs, holes = [], cursor = start\<rparr>"
  by (simp add: packed_def same_blocks_refl inBlocks_def inHoles_def)

lemma worstCase_ofKind:
  "worstCase bs (ofKind bs Anchor) + worstCase bs (ofKind bs Window) + worstCase bs (ofKind bs Filler) =
    (\<Sum>b\<leftarrow>bs. bsize b + 255)"
proof -
  have sorted: "worstCase bs (sort_key f is) = worstCase bs is" for f :: "nat \<Rightarrow> int \<times> nat" and "is"
  proof -
    have "mset (map (\<lambda>i. bsize (bs ! i) + 255) (sort_key f is)) = mset (map (\<lambda>i. bsize (bs ! i) + 255) is)"
      by simp
    then show ?thesis
      unfolding worstCase_def sum_mset_sum_list [symmetric] by (rule arg_cong)
  qed
  have "worstCase bs [i \<leftarrow> is. kind (bs ! i) = Anchor] + worstCase bs [i \<leftarrow> is. kind (bs ! i) = Window] +
      worstCase bs [i \<leftarrow> is. kind (bs ! i) = Filler] = worstCase bs is" for "is"
  proof (induction "is")
    case (Cons i "is")
    then show ?case by (cases "kind (bs ! i)") (simp_all add: worstCase_def)
  qed (simp add: worstCase_def)
  then have "worstCase bs (ofKind bs Anchor) + worstCase bs (ofKind bs Window) +
      worstCase bs (ofKind bs Filler) = worstCase bs [0..<length bs]"
    by (simp add: ofKind_def sorted)
  also have "\<dots> = (\<Sum>b\<leftarrow>map ((!) bs) [0..<length bs]. bsize b + 255)"
    by (simp add: worstCase_def o_def)
  finally show ?thesis by (simp only: map_nth)
qed

lemma andThen_Inr: "andThen x f = Inr c \<longleftrightarrow> (\<exists>b. x = Inr b \<and> f b = Inr c)"
  by (auto simp: andThen_def split: sum.splits)

text \<open>The three passes, each over all blocks of its kind.\<close>

abbreviation "windowsFit \<equiv> \<lambda>bs. \<forall>i < length bs. kind (bs ! i) = Window \<longrightarrow> bsize (bs ! i) \<le> pageSize"

lemma pass_anchors:
  assumes "packed bs start {} st"
  shows "placeAnchors (ofKind bs Anchor) st = Inr st' \<Longrightarrow> packed bs start (set (ofKind bs Anchor)) st' \<and>
      cursor st' \<le> cursor st + worstCase bs (ofKind bs Anchor)"
    and "placeAnchors (ofKind bs Anchor) st = Inl bs' \<Longrightarrow>
      2 ^ 64 \<le> cursor st + worstCase bs (ofKind bs Anchor)"
proof -
  have all: "set (ofKind bs Anchor) \<inter> {} = {}"
    "\<forall>i \<in> set (ofKind bs Anchor). i < length bs \<and> kind (bs ! i) = Anchor"
    by (simp_all add: set_ofKind)
  show "placeAnchors (ofKind bs Anchor) st = Inr st' \<Longrightarrow> packed bs start (set (ofKind bs Anchor)) st' \<and>
      cursor st' \<le> cursor st + worstCase bs (ofKind bs Anchor)"
    by (rule placeAnchors_packed [OF assms distinct_ofKind all, simplified Un_empty_right])
  show "placeAnchors (ofKind bs Anchor) st = Inl bs' \<Longrightarrow>
      2 ^ 64 \<le> cursor st + worstCase bs (ofKind bs Anchor)"
    by (rule placeAnchors_early [OF assms distinct_ofKind all])
qed

lemma pass_others:
  assumes "packed bs start D st" "k \<noteq> Anchor" "D \<inter> set (ofKind bs k) = {}" "windowsFit bs"
  shows "placeOthers (k = Window) (ofKind bs k) st = Inr st' \<Longrightarrow>
      packed bs start (set (ofKind bs k) \<union> D) st' \<and> cursor st' \<le> cursor st + worstCase bs (ofKind bs k)"
    and "placeOthers (k = Window) (ofKind bs k) st = Inl bs' \<Longrightarrow>
      2 ^ 64 \<le> cursor st + worstCase bs (ofKind bs k)"
proof -
  have all: "\<forall>i \<in> set (ofKind bs k). i < length bs \<and> kind (bs ! i) \<noteq> Anchor \<and>
      (k = Window \<longleftrightarrow> kind (bs ! i) = Window) \<and> (k = Window \<longrightarrow> bsize (bs ! i) \<le> pageSize)"
    using assms by (simp add: set_ofKind)
  have apart: "set (ofKind bs k) \<inter> D = {}" using assms(3) by blast
  show "placeOthers (k = Window) (ofKind bs k) st = Inr st' \<Longrightarrow>
      packed bs start (set (ofKind bs k) \<union> D) st' \<and> cursor st' \<le> cursor st + worstCase bs (ofKind bs k)"
    by (rule placeOthers_packed [OF assms(1) distinct_ofKind apart all])
  show "placeOthers (k = Window) (ofKind bs k) st = Inl bs' \<Longrightarrow>
      2 ^ 64 \<le> cursor st + worstCase bs (ofKind bs k)"
    by (rule placeOthers_early [OF assms(1) distinct_ofKind apart all])
qed

lemmas pass_windows = pass_others [where k = Window, simplified]
lemmas pass_fillers = pass_others [where k = Filler, simplified]

lemma kinds_apart: "k \<noteq> k' \<Longrightarrow> set (ofKind bs k) \<inter> set (ofKind bs k') = {}"
  by (auto simp: set_ofKind)

lemma kinds_all: "set (ofKind bs Filler) \<union> (set (ofKind bs Window) \<union> set (ofKind bs Anchor)) = {..<length bs}"
  using V6ClangPackKind.exhaust by (auto simp: set_ofKind)

text \<open>What a successful layout and an early end of it say, from the three passes.\<close>

lemma assign_Success:
  assumes "assignV6ClangPackedBlockAddresses bs start = (Success, bs', end')"
  obtains st where "packed bs start {..<length bs} st" "bs' = blocks st" "end' = cursor st"
    "end' \<le> 0x10000" "start \<le> 0x10000"
proof -
  have start: "start \<le> 0x10000" and ok: "\<not> list_ex (\<lambda>b. bsize b = 0 \<or> kind b = Window \<and> bsize b > 256) bs"
    using assms by (auto simp: assignV6ClangPackedBlockAddresses_def split: if_splits)
  let ?run = "andThen (placeAnchors (ofKind bs Anchor) \<lparr>blocks = bs, holes = [], cursor = start\<rparr>)
         (\<lambda>st. andThen (placeOthers True (ofKind bs Window) st) (placeOthers False (ofKind bs Filler)))"
  obtain st where run: "?run = Inr st" and st: "bs' = blocks st" "end' = cursor st" "cursor st \<le> 0x10000"
    using assms start ok by (cases ?run) (simp_all add: assignV6ClangPackedBlockAddresses_def split: if_splits)
  then obtain st1 st2 where
    one: "placeAnchors (ofKind bs Anchor) \<lparr>blocks = bs, holes = [], cursor = start\<rparr> = Inr st1" and
    two: "placeOthers True (ofKind bs Window) st1 = Inr st2" and
    three: "placeOthers False (ofKind bs Filler) st2 = Inr st"
    by (auto simp: andThen_Inr)
  have fit: "windowsFit bs"
    using ok by (auto simp: list_ex_iff not_less)
  have p1: "packed bs start (set (ofKind bs Anchor)) st1"
    using pass_anchors(1) [OF packed_init one] start by simp
  have p2: "packed bs start (set (ofKind bs Window) \<union> set (ofKind bs Anchor)) st2"
    using pass_windows(1) [OF p1 _ fit two] kinds_apart [of Anchor Window] by simp
  have "packed bs start {..<length bs} st"
    using pass_fillers(1) [OF p2 _ fit three] kinds_apart [of Anchor Filler bs]
      kinds_apart [of Window Filler bs] kinds_all by (simp add: Int_Un_distrib2)
  then show thesis
    using that st start by blast
qed

lemma assign_complete:
  assumes "start + (\<Sum>b\<leftarrow>bs. bsize b + 255) \<le> 0x10000"
    and ok: "\<forall>b \<in> set bs. 0 < bsize b \<and> (kind b = Window \<longrightarrow> bsize b \<le> 256)"
  shows "\<exists>bs' end'. assignV6ClangPackedBlockAddresses bs start = (Success, bs', end') \<and>
    end' \<le> start + (\<Sum>b\<leftarrow>bs. bsize b + 255)"
proof -
  have fit: "windowsFit bs" using ok by simp
  have small: "start + worstCase bs (ofKind bs Anchor) + worstCase bs (ofKind bs Window) +
      worstCase bs (ofKind bs Filler) \<le> 0x10000"
    using assms(1) worstCase_ofKind [of bs] by simp
  let ?st0 = "\<lparr>blocks = bs, holes = [], cursor = start\<rparr>"
  have p0: "packed bs start {} ?st0" using packed_init small by simp
  obtain st1 where one: "placeAnchors (ofKind bs Anchor) ?st0 = Inr st1"
  proof (cases "placeAnchors (ofKind bs Anchor) ?st0")
    case (Inl x)
    from pass_anchors(2) [OF p0 this] small show thesis by simp
  qed
  note p1 = pass_anchors(1) [OF p0 one]
  have a2: "set (ofKind bs Anchor) \<inter> set (ofKind bs Window) = {}" by (simp add: kinds_apart)
  note w = pass_windows [OF conjunct1 [OF p1] a2 fit]
  obtain st2 where two: "placeOthers True (ofKind bs Window) st1 = Inr st2"
  proof (cases "placeOthers True (ofKind bs Window) st1")
    case (Inl x)
    from w(2) [OF this] p1 small show thesis by simp
  qed
  note p2 = w(1) [OF two]
  have a3: "(set (ofKind bs Window) \<union> set (ofKind bs Anchor)) \<inter> set (ofKind bs Filler) = {}"
    by (simp add: kinds_apart Int_Un_distrib2)
  note f = pass_fillers [OF conjunct1 [OF p2] a3 fit]
  obtain st where three: "placeOthers False (ofKind bs Filler) st2 = Inr st"
  proof (cases "placeOthers False (ofKind bs Filler) st2")
    case (Inl x)
    from f(2) [OF this] p1 p2 small show thesis by simp
  qed
  have "cursor st \<le> start + (\<Sum>b\<leftarrow>bs. bsize b + 255)"
    using f(1) [OF three] p1 p2 worstCase_ofKind [of bs] by simp
  then show ?thesis
    using assms one two three
    by (auto simp: assignV6ClangPackedBlockAddresses_def andThen_def list_ex_iff)
qed

lemma packed_inside:
  assumes "packed bs start D st" "i \<in> D" "0 < bsize (bs ! i)"
  shows "start \<le> addr (blocks st ! i)" "addr (blocks st ! i) + bsize (bs ! i) \<le> cursor st"
proof -
  let ?b = "blocks st ! i"
  have size: "bsize ?b = bsize (bs ! i)" and "finite D"
    using assms same_blocks_nth(2) [of bs "blocks st" i] finite_subset [of D "{..<length bs}"]
    by (auto simp: packed_def)
  then have "within (addr ?b) (addr ?b + bsize ?b) p \<le> inBlocks (blocks st) D p" for p
    unfolding inBlocks_def using assms(2) by (intro member_le_sum) auto
  moreover have "inBlocks (blocks st) D p \<le> within start (cursor st) p" for p
    using assms(1) unfolding packed_def by (metis le_add1)
  ultimately have "within (addr ?b) (addr ?b + bsize ?b) p \<le> within start (cursor st) p" for p
    using le_trans by blast
  then have inside: "start \<le> p \<and> p < cursor st" if "addr ?b \<le> p" "p < addr ?b + bsize ?b" for p
    using that by (fastforce simp: within_def of_bool_def split: if_splits)
  show "start \<le> addr ?b" "addr ?b + bsize (bs ! i) \<le> cursor st"
    using inside [of "addr ?b"] inside [of "addr ?b + bsize ?b - 1"] assms(3) size by (simp, linarith)
qed

lemma packed_disjoint:
  assumes "packed bs start D st" "i \<in> D" "j \<in> D" "i \<noteq> j" "0 < bsize (bs ! i)" "0 < bsize (bs ! j)"
  shows "addr (blocks st ! i) + bsize (bs ! i) \<le> addr (blocks st ! j) \<or>
    addr (blocks st ! j) + bsize (bs ! j) \<le> addr (blocks st ! i)"
proof (rule ccontr)
  let ?w = "\<lambda>i p. within (addr (blocks st ! i)) (addr (blocks st ! i) + bsize (blocks st ! i)) p"
  assume overlap: "\<not> ?thesis"
  define p where "p = max (addr (blocks st ! i)) (addr (blocks st ! j))"
  have size: "bsize (blocks st ! i) = bsize (bs ! i)" "bsize (blocks st ! j) = bsize (bs ! j)"
    and fin: "finite D"
    using assms same_blocks_nth(2) [of bs "blocks st"] finite_subset [of D "{..<length bs}"]
    by (auto simp: packed_def)
  have "?w i p + ?w j p = (\<Sum>k\<in>{i, j}. ?w k p)" using assms(4) by simp
  also have "\<dots> \<le> inBlocks (blocks st) D p"
    unfolding inBlocks_def by (rule sum_mono2) (use assms fin in auto)
  also have "\<dots> \<le> within start (cursor st) p"
    using assms(1) unfolding packed_def by (metis le_add1)
  also have "\<dots> \<le> 1" by (simp add: within_def)
  finally have "?w i p + ?w j p \<le> 1" .
  moreover have "?w i p = 1" "?w j p = 1"
    using overlap size unfolding within_def p_def by (auto simp: max_def assms(5,6))
  ultimately show False by simp
qed

section \<open>Sections of the output\<close>

text \<open>
  The caller: the input sections of \<open>.bss.pack\<close> are validated, turned into blocks, placed, and
  listed in the order of their addresses in the first description of the output section.  Sections
  are numbers; \<open>secs\<close> holds their contents.  A diagnostic is a message, with the section it is about
  if there is one.
\<close>

record InputSection =
  sname :: string
  stype :: nat
  sflags :: "64 word"
  addralign :: nat
  getSize :: nat
  relocs :: "nat list"
  outSecOff :: nat

datatype (plugins only: code size) SectionCommand = InputSectionDescription "nat list" | OtherCommand

type_synonym diag = "nat option \<times> string"

record packed_out =
  handled :: bool
  endAddr :: nat
  secs :: "nat \<Rightarrow> InputSection"
  commands :: "SectionCommand list"
  errors :: "diag list"
  warnings :: "diag list"

definition getPackKind :: "string \<Rightarrow> V6ClangPackKind option" where
  "getPackKind name =
    (if name = ''.bss.pack.align'' then Some Anchor
     else if name = ''.bss.pack.window'' then Some Window
     else if name = ''.bss.pack'' then Some Filler
     else None)"

abbreviation "SHT_NOBITS \<equiv> (8 :: nat)"
abbreviation "SHF_WRITE \<equiv> (0x1 :: 64 word)"
abbreviation "SHF_ALLOC \<equiv> (0x2 :: 64 word)"
abbreviation "SHF_EXECINSTR \<equiv> (0x4 :: 64 word)"
abbreviation "SHF_MERGE \<equiv> (0x10 :: 64 word)"
abbreviation "SHF_STRINGS \<equiv> (0x20 :: 64 word)"
abbreviation "SHF_LINK_ORDER \<equiv> (0x80 :: 64 word)"
abbreviation "SHF_TLS \<equiv> (0x400 :: 64 word)"

text \<open>The complaints about a section, in order; it is valid when there are none.\<close>

definition validateSection :: "InputSection \<Rightarrow> V6ClangPackKind \<Rightarrow> string list" where
  "validateSection s k =
    (if stype s \<noteq> SHT_NOBITS then [''packed V6CLANG section must have type SHT_NOBITS''] else []) @
    (if sflags s AND (SHF_ALLOC OR SHF_WRITE) \<noteq> SHF_ALLOC OR SHF_WRITE
     then [''packed V6CLANG section must have SHF_ALLOC and SHF_WRITE flags''] else []) @
    (if sflags s AND (SHF_EXECINSTR OR SHF_TLS OR SHF_MERGE OR SHF_STRINGS OR SHF_LINK_ORDER) \<noteq> 0
     then [''packed V6CLANG section has incompatible ELF flags''] else []) @
    (if addralign s \<noteq> 1 then [''packed V6CLANG section must have alignment 1''] else []) @
    (if getSize s = 0 then [''packed V6CLANG section must not be empty''] else []) @
    (if k = Window \<and> getSize s > pageSize then [''.bss.pack.window section exceeds 256 bytes''] else []) @
    (if relocs s \<noteq> [] then [''packed V6CLANG NOBITS section must not contain relocations''] else [])"

text \<open>The place of a section among the input sections of the link (0 when it is not there).\<close>

fun orderOf :: "nat option list \<Rightarrow> nat \<Rightarrow> nat \<Rightarrow> nat" where
  "orderOf [] k s = 0"
| "orderOf (x # xs) k s = (if x = Some s then k else orderOf xs (Suc k) s)"

text \<open>The sections as blocks, with the errors found so far; \<open>Inl\<close> when a section has another name.\<close>

fun collectBlocks ::
  "(nat \<Rightarrow> InputSection) \<Rightarrow> nat option list \<Rightarrow> nat list \<Rightarrow>
    diag list \<times> (nat + (nat \<times> V6ClangPackBlock) list)" where
  "collectBlocks sec inputs [] = ([], Inr [])"
| "collectBlocks sec inputs (s # ss) = (case getPackKind (sname (sec s)) of
     None \<Rightarrow> ([], Inl s)
   | Some k \<Rightarrow> (let (es, r) = collectBlocks sec inputs ss in
       (map (Pair (Some s)) (validateSection (sec s) k) @ es,
        map_sum id (Cons (s, \<lparr>kind = k, bsize = getSize (sec s), originalOrder = orderOf inputs 0 s, addr = 0\<rparr>)) r)))"

fun descriptions :: "SectionCommand list \<Rightarrow> nat list list option" where
  "descriptions [] = Some []"
| "descriptions (InputSectionDescription ss # cs) = map_option (Cons ss) (descriptions cs)"
| "descriptions (OtherCommand # cs) = None"

definition setOffsets :: "nat \<Rightarrow> (nat \<times> V6ClangPackBlock) list \<Rightarrow> (nat \<Rightarrow> InputSection) \<Rightarrow> nat \<Rightarrow> InputSection" where
  "setOffsets startAddr = fold (\<lambda>(s, b) sec. sec(s := (sec s)\<lparr>outSecOff := addr b - startAddr\<rparr>))"

fun errorOf :: "V6ClangPackResult \<Rightarrow> string" where
  "errorOf AddressOverflow = ''V6CLANG packed section address overflow''"
| "errorOf AddressSpaceOverflow = ''V6CLANG packed section exceeds the 16-bit address space''"
| "errorOf InvalidBlock = ''invalid V6CLANG packed block reached layout''"
| "errorOf Success = ''''"

definition assignV6ClangPackedSectionOffsets ::
  "bool \<Rightarrow> bool \<Rightarrow> string \<Rightarrow> nat option list \<Rightarrow> (nat \<Rightarrow> InputSection) \<Rightarrow> SectionCommand list \<Rightarrow> nat \<Rightarrow> nat \<Rightarrow>
    packed_out" where
  "assignV6ClangPackedSectionOffsets isV6Clang relocatable oname inputs sec cmds startAddr endAddr0 =
    (let out = \<lparr>handled = False, endAddr = endAddr0, secs = sec, commands = cmds, errors = [], warnings = []\<rparr> in
     if \<not> isV6Clang \<or> relocatable \<or> oname \<noteq> ''.bss.pack'' then out
     else case descriptions cmds of
       None \<Rightarrow> out\<lparr>warnings := [(None,
         ''V6CLANG packed output section contains linker-script commands; using normal layout'')]\<rparr>
     | Some ds \<Rightarrow>
       if concat ds = [] then out
       else (case collectBlocks sec inputs (concat ds) of
         (es, Inl s) \<Rightarrow> out\<lparr>errors := es, warnings := [(Some s,
           ''V6CLANG packed output section contains unrecognized input section; using normal layout'')]\<rparr>
       | (es, Inr bs) \<Rightarrow>
         if es \<noteq> [] then out\<lparr>handled := True, endAddr := startAddr, errors := es\<rparr>
         else (case assignV6ClangPackedBlockAddresses (map snd bs) startAddr of (result, layout, end') \<Rightarrow>
           if result \<noteq> Success
           then out\<lparr>handled := True, endAddr := end', errors := [(None, errorOf result)]\<rparr>
           else let placed = sort_key (\<lambda>(s, b). (addr b, originalOrder b)) (zip (map fst bs) layout) in
             out\<lparr>handled := True, endAddr := end', secs := setOffsets startAddr placed sec,
               commands := InputSectionDescription (map fst placed) #
                 replicate (length ds - 1) (InputSectionDescription [])\<rparr>)))"

text \<open>The blocks of the sections, when no section is refused.\<close>

lemma collectBlocks_valid:
  assumes "collectBlocks sec inputs ss = ([], Inr bs)"
  shows "map fst bs = ss \<and> (\<forall>(s, b) \<in> set bs. getPackKind (sname (sec s)) = Some (kind b) \<and>
    bsize b = getSize (sec s) \<and> 0 < bsize b)"
  using assms
proof (induction ss arbitrary: bs)
  case (Cons s ss)
  then obtain k r where k: "getPackKind (sname (sec s)) = Some k" "validateSection (sec s) k = []"
    and r: "collectBlocks sec inputs ss = ([], Inr r)"
    and bs: "bs = (s, \<lparr>kind = k, bsize = getSize (sec s), originalOrder = orderOf inputs 0 s, addr = 0\<rparr>) # r"
    by (cases "collectBlocks sec inputs ss"; cases "snd (collectBlocks sec inputs ss)")
      (auto split: option.splits)
  have "0 < getSize (sec s)"
    using k(2) by (auto simp: validateSection_def split: if_splits)
  then show ?case using Cons.IH [OF r] k(1) bs by simp
qed simp

lemma setOffsets_notin: "s \<notin> fst ` set placed \<Longrightarrow> setOffsets start placed sec s = sec s"
  by (induction placed arbitrary: sec) (auto simp: setOffsets_def)

lemma setOffsets_in:
  "distinct (map fst placed) \<Longrightarrow> (s, b) \<in> set placed \<Longrightarrow>
    setOffsets start placed sec s = (sec s)\<lparr>outSecOff := addr b - start\<rparr>"
proof (induction placed arbitrary: sec)
  case (Cons x placed)
  obtain t c where x: "x = (t, c)" by (cases x)
  let ?sec = "sec(t := (sec t)\<lparr>outSecOff := addr c - start\<rparr>)"
  have step: "setOffsets start (x # placed) sec = setOffsets start placed ?sec"
    by (simp add: setOffsets_def x)
  show ?case
  proof (cases "(s, b) = x")
    case True
    then show ?thesis using Cons.prems(1) setOffsets_notin [of s placed start ?sec]
      unfolding step by (simp add: x)
  next
    case False
    then have "(s, b) \<in> set placed" and "s \<noteq> t" using Cons.prems x by force+
    moreover have "distinct (map fst placed)" using Cons.prems(1) by simp
    ultimately show ?thesis
      using Cons.IH [of ?sec] unfolding step by (simp only: fun_upd_other not_False_eq_True)
  qed
qed simp

text \<open>Placed blocks in the order of their addresses follow one another.\<close>

lemma sorted_follow:
  assumes "sorted (map f xs)" "distinct xs"
    and "\<And>x y. x \<in> set xs \<Longrightarrow> y \<in> set xs \<Longrightarrow> x \<noteq> y \<Longrightarrow> a x + n x \<le> a y \<or> a y + n y \<le> (a x :: nat)"
    and "\<And>x. x \<in> set xs \<Longrightarrow> 0 < n x" "\<And>x y. f x \<le> f y \<Longrightarrow> a x \<le> a y"
  shows "sorted_wrt (\<lambda>x y. a x + n x \<le> a y) xs"
  using assms(1-4)
proof (induction xs)
  case (Cons x xs)
  have "a x + n x \<le> a y" if "y \<in> set xs" for y
  proof -
    have "x \<noteq> y" "f x \<le> f y" using Cons.prems(1,2) that by auto
    then show ?thesis
      using Cons.prems(3) [of x y] Cons.prems(4) [of y] assms(5) [of x y] that by force
  qed
  moreover have "sorted_wrt (\<lambda>x y. a x + n x \<le> a y) xs"
    using Cons.prems by (intro Cons.IH) auto
  ultimately show ?case by simp
qed simp

text \<open>What the block layout promises for the list of sections beside their placed blocks.\<close>

lemma assign_zip:
  assumes run: "assignV6ClangPackedBlockAddresses (map snd bs) start = (Success, layout, end')"
    and pos: "\<forall>(s, b) \<in> set bs. 0 < bsize b" and dist: "distinct (map fst bs)"
  defines "placed \<equiv> zip (map fst bs) layout"
  shows "map fst placed = map fst bs"
    and "\<And>s b. (s, b) \<in> set placed \<Longrightarrow> \<exists>b0. (s, b0) \<in> set bs \<and> kind b = kind b0 \<and> bsize b = bsize b0 \<and>
      start \<le> addr b \<and> addr b + bsize b \<le> end' \<and> placed_well b"
    and "\<And>x y. x \<in> set placed \<Longrightarrow> y \<in> set placed \<Longrightarrow> x \<noteq> y \<Longrightarrow>
      addr (snd x) + bsize (snd x) \<le> addr (snd y) \<or> addr (snd y) + bsize (snd y) \<le> addr (snd x)"
proof -
  obtain st where inv: "packed (map snd bs) start {..<length bs} st" and st: "layout = blocks st" "end' = cursor st"
    by (rule assign_Success [OF run, unfolded length_map]) (rule that)
  have same: "same_blocks (map snd bs) layout" using inv st by (simp add: packed_def)
  have len: "length layout = length bs" using same_blocks_length [OF same] by simp
  have pos: "0 < bsize (map snd bs ! i)" if "i < length bs" for i
    using pos nth_mem [OF that] that by (auto simp: case_prod_beta)
  show "map fst placed = map fst bs"
    using len by (simp add: placed_def)
  have at: "\<exists>i < length bs. x = (fst (bs ! i), layout ! i)" if "x \<in> set placed" for x
    using that len by (auto simp: placed_def set_zip)
  show "\<exists>b0. (s, b0) \<in> set bs \<and> kind b = kind b0 \<and> bsize b = bsize b0 \<and>
      start \<le> addr b \<and> addr b + bsize b \<le> end' \<and> placed_well b" if sb: "(s, b) \<in> set placed" for s b
  proof -
    obtain i where i: "i < length bs" "s = fst (bs ! i)" "b = layout ! i"
      using at [OF sb] by auto
    have "(s, snd (bs ! i)) \<in> set bs" using i by simp
    moreover have "placed_well b" using inv i st by (auto simp: packed_def)
    ultimately show ?thesis
      using same_blocks_nth [OF same, of i] packed_inside [OF inv, of i] pos [OF i(1)] i st
      by (intro exI [of _ "snd (bs ! i)"]) simp
  qed
  show "addr (snd x) + bsize (snd x) \<le> addr (snd y) \<or> addr (snd y) + bsize (snd y) \<le> addr (snd x)"
    if "x \<in> set placed" "y \<in> set placed" "x \<noteq> y" for x y
  proof -
    note x = at [OF that(1)] and y = at [OF that(2)]
    from x obtain i where i: "i < length bs" "x = (fst (bs ! i), layout ! i)" by blast
    from y obtain j where j: "j < length bs" "y = (fst (bs ! j), layout ! j)" by blast
    note ij = i j
    have "i \<noteq> j" using \<open>x \<noteq> y\<close> ij by auto
    then show ?thesis
      using packed_disjoint [OF inv, of i j] pos ij st same_blocks_nth(2) [OF same] by simp
  qed
qed

section \<open>What the layout guarantees\<close>

text \<open>
  C15.  A successful layout changes only the addresses of the blocks; every block lies between the
  start and the end address, inside the 16-bit address space; anchors begin a page, windows stay
  within one, and no two blocks share a byte.
\<close>

theorem packed_blocks_safe:
  assumes run: "assignV6ClangPackedBlockAddresses bs start = (Success, bs', end')"
  shows "same_blocks bs bs' \<and> end' \<le> 0x10000 \<and>
    (\<forall>i < length bs. start \<le> addr (bs' ! i) \<and> addr (bs' ! i) + bsize (bs ! i) \<le> end' \<and>
      placed_well (bs' ! i) \<and>
      (\<forall>j < i. addr (bs' ! i) + bsize (bs ! i) \<le> addr (bs' ! j) \<or>
        addr (bs' ! j) + bsize (bs ! j) \<le> addr (bs' ! i)))"
proof -
  obtain st where inv: "packed bs start {..<length bs} st" and st: "bs' = blocks st" "end' = cursor st"
    "end' \<le> 0x10000"
    by (rule assign_Success [OF run]) (rule that)
  have pos: "0 < bsize (bs ! i)" if "i < length bs" for i
    using run nth_mem [OF that]
    by (auto simp: assignV6ClangPackedBlockAddresses_def list_ex_iff split: if_splits)
  have "same_blocks bs bs'" "\<forall>i < length bs. placed_well (bs' ! i)"
    using inv st by (auto simp: packed_def)
  moreover have "start \<le> addr (bs' ! i)" "addr (bs' ! i) + bsize (bs ! i) \<le> end'" if "i < length bs" for i
    using packed_inside [OF inv _ pos [OF that]] that st by simp_all
  moreover have "addr (bs' ! i) + bsize (bs ! i) \<le> addr (bs' ! j) \<or>
      addr (bs' ! j) + bsize (bs ! j) \<le> addr (bs' ! i)" if "i < length bs" "j < i" for i j
    using packed_disjoint [OF inv, of i j] pos that st by simp
  ultimately show ?thesis using st(3) by blast
qed

text \<open>An anchor, a window that must skip to the next page, and a filler for the smallest hole.\<close>

definition packSample :: "V6ClangPackBlock list" where
  "packSample = [\<lparr>kind = Anchor, bsize = 0x20, originalOrder = 0, addr = 0\<rparr>,
     \<lparr>kind = Window, bsize = 0xf0, originalOrder = 1, addr = 0\<rparr>,
     \<lparr>kind = Filler, bsize = 0x10, originalOrder = 2, addr = 0\<rparr>]"

lemmas pack_eval = assignV6ClangPackedBlockAddresses_def andThen_def ofKind_def upt_rec
  appendBlock_def placeInBestHole_def alignToPage_def checkedAdd_def fitsWindow_def addHole_def
  improve_def holeAddr_def

lemma packSample_run: "assignV6ClangPackedBlockAddresses packSample 0x80f0 =
    (Success, [\<lparr>kind = Anchor, bsize = 0x20, originalOrder = 0, addr = 0x8100\<rparr>,
     \<lparr>kind = Window, bsize = 0xf0, originalOrder = 1, addr = 0x8200\<rparr>,
     \<lparr>kind = Filler, bsize = 0x10, originalOrder = 2, addr = 0x80f0\<rparr>], 0x82f0)"
  by (simp add: pack_eval packSample_def)

theorem packed_blocks_safe_witness:
  "\<exists>bs' end'. assignV6ClangPackedBlockAddresses packSample 0x80f0 = (Success, bs', end') \<and>
    same_blocks packSample bs' \<and> end' \<le> 0x10000"
  using packed_blocks_safe [OF packSample_run] packSample_run by blast

text \<open>
  C16.  For blocks that are valid, that is, non-empty and, the windows, of at most 256 bytes, the layout never
  fails when the blocks, with a page of padding less one byte for each, fit into the 16-bit address
  space: it succeeds, and ends within that bound.
\<close>

theorem packed_blocks_complete:
  assumes "start + (\<Sum>b\<leftarrow>bs. bsize b + 255) \<le> 0x10000"
    and "\<forall>b \<in> set bs. 0 < bsize b \<and> (kind b = Window \<longrightarrow> bsize b \<le> 256)"
  shows "\<exists>bs' end'. assignV6ClangPackedBlockAddresses bs start = (Success, bs', end') \<and>
    end' \<le> start + (\<Sum>b\<leftarrow>bs. bsize b + 255)"
  by (rule assign_complete [OF assms])

theorem packed_blocks_complete_witness:
  "\<exists>bs' end'. assignV6ClangPackedBlockAddresses packSample 0x100 = (Success, bs', end')"
  using packed_blocks_complete [of "0x100" packSample] by (auto simp: packSample_def)

text \<open>
  C14.  When the linker lays out the packed sections without an error, every section keeps all but its
  offset, the first description lists all of them in the order of their addresses without overlap,
  the others are empty, and the offsets put each section where its name asks, before the end address.
\<close>

theorem packed_sections_laid_out:
  assumes ds: "descriptions cmds = Some ds" "distinct (concat ds)"
    and out: "out = assignV6ClangPackedSectionOffsets isV6 reloc oname inputs sec cmds start end0"
    and ok: "handled out" "errors out = []"
  shows "\<exists>order. commands out =
      InputSectionDescription order # replicate (length ds - 1) (InputSectionDescription []) \<and>
    mset order = mset (concat ds) \<and> endAddr out \<le> 0x10000 \<and>
    sorted_wrt (\<lambda>s t. outSecOff (secs out s) + getSize (sec s) \<le> outSecOff (secs out t)) order \<and>
    (\<forall>s. (secs out s)\<lparr>outSecOff := 0\<rparr> = (sec s)\<lparr>outSecOff := 0\<rparr>) \<and>
    (\<forall>s \<in> set order. start + outSecOff (secs out s) + getSize (sec s) \<le> endAddr out \<and>
      (sname (sec s) = ''.bss.pack.align'' \<longrightarrow> (start + outSecOff (secs out s)) mod 256 = 0) \<and>
      (sname (sec s) = ''.bss.pack.window'' \<longrightarrow>
        (start + outSecOff (secs out s)) mod 256 + getSize (sec s) \<le> 256))"
proof -
  obtain bs layout end' where bs: "collectBlocks sec inputs (concat ds) = ([], Inr bs)"
    and run: "assignV6ClangPackedBlockAddresses (map snd bs) start = (Success, layout, end')"
    and o: "commands out = InputSectionDescription (map fst (sort_key (\<lambda>(s, b). (addr b, originalOrder b))
        (zip (map fst bs) layout))) # replicate (length ds - 1) (InputSectionDescription [])"
      "secs out = setOffsets start (sort_key (\<lambda>(s, b). (addr b, originalOrder b)) (zip (map fst bs) layout)) sec"
      "endAddr out = end'"
    using ok ds unfolding out assignV6ClangPackedSectionOffsets_def
    by (auto simp: Let_def split: if_splits option.splits prod.splits sum.splits)
  define placed where "placed = sort_key (\<lambda>(s, b). (addr b, originalOrder b)) (zip (map fst bs) layout)"
  note col = collectBlocks_valid [OF bs]
  have dist: "distinct (map fst bs)" and pos: "\<forall>(s, b) \<in> set bs. 0 < bsize b"
    using col ds by auto
  note z = assign_zip [OF run pos dist]
  have m: "mset placed = mset (zip (map fst bs) layout)" by (simp add: placed_def)
  have mem: "set placed = set (zip (map fst bs) layout)" using m by (metis set_mset_mset)
  have fsts: "mset (map fst placed) = mset (concat ds)"
    using m z(1) col by (metis mset_map)
  then have d: "distinct (map fst placed)" using ds(2) mset_eq_imp_distinct_iff by blast
  have sec: "secs out s = (sec s)\<lparr>outSecOff := addr b - start\<rparr>" if "(s, b) \<in> set placed" for s b
    using setOffsets_in [OF d that] o(2) unfolding placed_def by simp
  have facts: "bsize b = getSize (sec s) \<and> 0 < bsize b \<and> getPackKind (sname (sec s)) = Some (kind b) \<and>
      start \<le> addr b \<and> addr b + bsize b \<le> end' \<and> placed_well b" if "(s, b) \<in> set placed" for s b
    using z(2) [of s b] that col mem by force
  have "sorted_wrt (\<lambda>x y. addr (snd x) + bsize (snd x) \<le> addr (snd y)) placed"
  proof (rule sorted_follow [where f = "\<lambda>(s, b). (addr b, originalOrder b)"])
    show "sorted (map (\<lambda>(s, b). (addr b, originalOrder b)) placed)"
      unfolding placed_def by (rule sorted_sort_key)
    show "distinct placed" using d by (simp add: distinct_map)
    show "addr (snd x) + bsize (snd x) \<le> addr (snd y) \<or> addr (snd y) + bsize (snd y) \<le> addr (snd x)"
      if "x \<in> set placed" "y \<in> set placed" "x \<noteq> y" for x y
      using z(3) that unfolding mem by blast
    show "0 < bsize (snd x)" if "x \<in> set placed" for x
      using facts [of "fst x" "snd x"] that by simp
  qed (auto simp: less_eq_prod_def split: if_splits)
  then have "sorted_wrt (\<lambda>x y. outSecOff (secs out (fst x)) + getSize (sec (fst x)) \<le> outSecOff (secs out (fst y))) placed"
    by (rule sorted_wrt_mono_rel [rotated]) (use sec facts in fastforce)
  then have "sorted_wrt (\<lambda>s t. outSecOff (secs out s) + getSize (sec s) \<le> outSecOff (secs out t)) (map fst placed)"
    by (simp add: sorted_wrt_map)
  moreover have "(secs out s)\<lparr>outSecOff := 0\<rparr> = (sec s)\<lparr>outSecOff := 0\<rparr>" for s
  proof (cases "s \<in> fst ` set placed")
    case True
    then show ?thesis using sec by fastforce
  next
    case False
    then show ?thesis using setOffsets_notin [OF False] o(2) unfolding placed_def by simp
  qed
  moreover have "start + outSecOff (secs out s) + getSize (sec s) \<le> endAddr out \<and>
      (sname (sec s) = ''.bss.pack.align'' \<longrightarrow> (start + outSecOff (secs out s)) mod 256 = 0) \<and>
      (sname (sec s) = ''.bss.pack.window'' \<longrightarrow>
        (start + outSecOff (secs out s)) mod 256 + getSize (sec s) \<le> 256)" if "s \<in> set (map fst placed)" for s
  proof -
    obtain b where b: "(s, b) \<in> set placed" using \<open>s \<in> set (map fst placed)\<close> by auto
    show ?thesis
      using facts [OF b] sec [OF b] o(3) by (auto simp: placed_well_def getPackKind_def)
  qed
  moreover have "endAddr out \<le> 0x10000"
    unfolding o(3) by (rule assign_Success [OF run])
  ultimately show ?thesis
    using o(1) fsts unfolding placed_def by blast
qed

definition packSections :: "nat \<Rightarrow> InputSection" where
  "packSections s = \<lparr>sname = (if s = 0 then ''.bss.pack'' else ''.bss.pack.align''), stype = SHT_NOBITS,
     sflags = 3, addralign = 1, getSize = 0x10, relocs = [], outSecOff = 0\<rparr>"

theorem packed_sections_laid_out_witness:
  "\<exists>out. out = assignV6ClangPackedSectionOffsets True False ''.bss.pack'' [Some 0, None, Some 1] packSections
       [InputSectionDescription [0], InputSectionDescription [1]] 0x80f8 0 \<and>
     handled out \<and> errors out = [] \<and> endAddr out = 0x8120 \<and>
     (\<exists>order. commands out = [InputSectionDescription order, InputSectionDescription []])"
proof -
  let ?out = "assignV6ClangPackedSectionOffsets True False ''.bss.pack'' [Some 0, None, Some 1] packSections
       [InputSectionDescription [0], InputSectionDescription [1]] 0x80f8 0"
  have out: "handled ?out \<and> errors ?out = [] \<and> endAddr ?out = 0x8120"
    by (simp add: assignV6ClangPackedSectionOffsets_def packSections_def getPackKind_def
        validateSection_def pack_eval)
  then show ?thesis
    using packed_sections_laid_out [where ds = "[[0], [1]]" and out = ?out, OF _ _ refl]
    by (intro exI [of _ ?out]) auto
qed

end
