(* ===== verification/StaticStackAlloc.thy ===== *)
theory StaticStackAlloc
  imports Main
begin

text \<open>
  Static stack frames (V6ClangStaticStackAlloc.cpp): a function that is never active twice at the same
  time gets its frame objects laid out in a global variable.  The theory holds the module the pass
  looks at, the search for the functions that interrupt handlers reach, the local proof that a
  function is not re-entered, the test for eligibility and the layout; and, to say what eligibility
  is for, the call stacks that a run of the module can have.
\<close>

section \<open>The module\<close>

text \<open>
  A call is inline assembly or not, may carry \<open>nocallback\<close>, and names its callee unless it is
  indirect.  Functions are numbered; a number that the module does not list is the declaration of a
  function without attributes.
\<close>

datatype (plugins only: code size) Instruction =
  CallBase bool bool "nat option"
| OtherInst

record Function =
  isDeclaration :: bool
  interruptAttr :: bool
  NoCallback :: bool
  NoRecurse :: bool
  hasAddressTaken :: bool
  basicBlocks :: "Instruction list list"

type_synonym Module = "(nat \<times> Function) list"

definition fn :: "Module \<Rightarrow> nat \<Rightarrow> Function" where
  "fn M f = (case map_of M f of Some F \<Rightarrow> F
     | None \<Rightarrow> \<lparr>isDeclaration = True, interruptAttr = False, NoCallback = False, NoRecurse = False,
         hasAddressTaken = False, basicBlocks = []\<rparr>)"

definition instrs :: "Module \<Rightarrow> nat \<Rightarrow> Instruction list" where
  "instrs M f = concat (basicBlocks (fn M f))"

lemma defined_in: "\<not> isDeclaration (fn M f) \<Longrightarrow> f \<in> fst ` set M"
  by (force simp: fn_def dest: map_of_SomeD split: option.splits)

lemma interrupt_in: "interruptAttr (fn M f) \<Longrightarrow> f \<in> fst ` set M"
  by (force simp: fn_def dest: map_of_SomeD split: option.splits)

fun getCalledFunction :: "Instruction \<Rightarrow> nat option" where
  "getCalledFunction (CallBase asm nocallback callee) = callee"
| "getCalledFunction OtherInst = None"

section \<open>No call comes back\<close>

text \<open>
  The loop of \<open>hasNoCallbackEvidenceImpl\<close> over the calls of a function, with the search of the callee
  in place, and the function itself.  \<open>None\<close> is the result \<open>false\<close>, which every caller passes on at
  once; otherwise the result is the set of functions visited.  That set only grows, so that adding it
  to the one before the call changes nothing; it makes the descent of the recursion visible.
\<close>

definition harmlessCall :: "Module \<Rightarrow> Instruction \<Rightarrow> bool" where
  "harmlessCall M I = (case I of
     OtherInst \<Rightarrow> True
   | CallBase asm nocallback callee \<Rightarrow> asm \<or> nocallback \<or>
       (case callee of None \<Rightarrow> False | Some g \<Rightarrow> NoCallback (fn M g) \<or> NoRecurse (fn M g)))"

lemma unvisited_mono: "card (fst ` set M - (V \<union> V')) \<le> card (fst ` set M - V)"
  by (auto intro: card_mono)

lemma unvisited_insert:
  "f \<in> fst ` set M \<Longrightarrow> f \<notin> V \<Longrightarrow> card (fst ` set M - insert f V) < card (fst ` set M - V)"
  by (rule psubset_card_mono) auto

function (sequential) callsNoCallback :: "Module \<Rightarrow> Instruction list \<Rightarrow> nat set \<Rightarrow> nat set option" where
  "callsNoCallback M [] Visited = Some Visited"
| "callsNoCallback M (I # Is) Visited =
    (if harmlessCall M I then callsNoCallback M Is Visited
     else case getCalledFunction I of
       None \<Rightarrow> None
     | Some g \<Rightarrow>
         if isDeclaration (fn M g) \<or> g \<in> Visited then None
         else (case callsNoCallback M (instrs M g) (insert g Visited) of
             None \<Rightarrow> None
           | Some Visited' \<Rightarrow> callsNoCallback M Is (Visited \<union> Visited')))"
  by pat_completeness auto

termination
proof (relation "inv_image (less_than <*lex*> less_than) (\<lambda>(M, Is, V). (card (fst ` set M - V), length Is))",
    goal_cases)
  case (3 M I Is V g)
  then show ?case using unvisited_insert [OF defined_in, of M g V] by simp
next
  case (4 M I Is V g V')
  then show ?case using unvisited_mono [of M V V'] by auto
qed (auto intro: wf_inv_image wf_lex_prod)

definition hasNoCallbackEvidenceImpl :: "Module \<Rightarrow> nat \<Rightarrow> nat set \<Rightarrow> nat set option" where
  "hasNoCallbackEvidenceImpl M f Visited =
    (if f \<in> Visited then None else callsNoCallback M (instrs M f) (insert f Visited))"

text \<open>The loop as the code writes it: the search of the callee, and the set as it leaves it.\<close>

lemma callsNoCallback_mono: "callsNoCallback M Is V = Some V' \<Longrightarrow> V \<subseteq> V'"
proof (induction M Is V arbitrary: V' rule: callsNoCallback.induct)
  case (2 M I Is V)
  show ?case
  proof (cases "harmlessCall M I")
    case True
    then show ?thesis using 2 by simp
  next
    case False
    then obtain g V1 where g: "getCalledFunction I = Some g" "\<not> (isDeclaration (fn M g) \<or> g \<in> V)"
      "callsNoCallback M (instrs M g) (insert g V) = Some V1" "callsNoCallback M Is (V \<union> V1) = Some V'"
      using 2(4) by (auto split: option.splits if_splits)
    show ?thesis using 2(3) [OF False g(1,2,3,4)] by blast
  qed
qed simp

lemma callsNoCallback_loop:
  "callsNoCallback M (I # Is) V =
    (if harmlessCall M I then callsNoCallback M Is V
     else case getCalledFunction I of
       None \<Rightarrow> None
     | Some g \<Rightarrow>
         if isDeclaration (fn M g) then None
         else Option.bind (hasNoCallbackEvidenceImpl M g V) (callsNoCallback M Is))"
proof -
  have "V \<union> V' = V'" if "callsNoCallback M (instrs M g) (insert g V) = Some V'" for g V'
    using callsNoCallback_mono [OF that] by blast
  then show ?thesis
    by (auto simp: hasNoCallbackEvidenceImpl_def split: option.splits Option.bind_splits)
qed

definition hasNoCallbackEvidence :: "Module \<Rightarrow> nat \<Rightarrow> bool" where
  "hasNoCallbackEvidence M f = (hasNoCallbackEvidenceImpl M f {} \<noteq> None)"

text \<open>
  What a successful search establishes: every call of a function it visited is harmless or goes to
  a function that was visited later, never back to one that was on the way.
\<close>

definition onward :: "Module \<Rightarrow> nat set \<Rightarrow> nat set \<Rightarrow> Instruction \<Rightarrow> bool" where
  "onward M V V' I = (harmlessCall M I \<or> (\<exists>g. getCalledFunction I = Some g \<and> g \<in> V' - V \<and> \<not> isDeclaration (fn M g)))"

lemma onward_mono: "onward M V1 V2 I \<Longrightarrow> V \<subseteq> V1 \<Longrightarrow> V2 \<subseteq> V' \<Longrightarrow> onward M V V' I"
  by (auto simp: onward_def)

lemma callsNoCallback_onward:
  "callsNoCallback M Is V = Some V' \<Longrightarrow> V \<subseteq> V' \<and> (\<forall>I \<in> set Is. onward M V V' I) \<and>
    (\<forall>f \<in> V' - V. \<forall>I \<in> set (instrs M f). onward M V V' I)"
proof (induction M Is V arbitrary: V' rule: callsNoCallback.induct)
  case (2 M I Is V)
  show ?case
  proof (cases "harmlessCall M I")
    case True
    then show ?thesis using 2 by (auto simp: onward_def)
  next
    case False
    then obtain g V1 where g: "getCalledFunction I = Some g" "\<not> (isDeclaration (fn M g) \<or> g \<in> V)"
      "callsNoCallback M (instrs M g) (insert g V) = Some V1" "callsNoCallback M Is (V \<union> V1) = Some V'"
      using 2(4) by (auto split: option.splits if_splits)
    from 2(2) [OF False g(1,2,3)] have sub: "insert g V \<subseteq> V1"
      and own: "\<And>I'. I' \<in> set (instrs M g) \<Longrightarrow> onward M (insert g V) V1 I'"
      and below: "\<And>h I'. h \<in> V1 - insert g V \<Longrightarrow> I' \<in> set (instrs M h) \<Longrightarrow> onward M (insert g V) V1 I'"
      by auto
    have one: "onward M V V1 I'" if "h \<in> V1 - V" "I' \<in> set (instrs M h)" for h I'
    proof (rule onward_mono [OF _ subset_insertI order.refl])
      show "onward M (insert g V) V1 I'" using own [of I'] below [of h I'] that by (cases "h = g") simp_all
    qed
    have u: "V \<union> V1 = V1" using sub by blast
    from 2(3) [OF False g] have two: "V1 \<subseteq> V'" "\<And>I'. I' \<in> set Is \<Longrightarrow> onward M V1 V' I'"
      "\<And>h I'. h \<in> V' - V1 \<Longrightarrow> I' \<in> set (instrs M h) \<Longrightarrow> onward M V1 V' I'" unfolding u by auto
    have "onward M V V' I" using g(1,2) sub two(1) by (auto simp: onward_def)
    moreover have "onward M V V' I'" if "I' \<in> set Is" for I'
      by (rule onward_mono [OF two(2) [OF that] _ order.refl]) (use sub in blast)
    moreover have "onward M V V' I'" if "h \<in> V' - V" "I' \<in> set (instrs M h)" for h I'
    proof (cases "h \<in> V1")
      case True
      then show ?thesis using onward_mono [OF one order.refl two(1)] that by blast
    next
      case False
      then show ?thesis using onward_mono [OF two(3) _ order.refl] that sub by blast
    qed
    ultimately show ?thesis using sub two(1) by auto
  qed
qed auto

section \<open>Functions reached from interrupt handlers\<close>

abbreviation unvisited :: "Module \<Rightarrow> nat set \<Rightarrow> nat" where
  "unvisited M V \<equiv> card (fst ` set M - V)"

text \<open>One instruction of a function taken from the worklist; the worklist and the reached set.\<close>

definition visitCall :: "Module \<Rightarrow> Instruction \<Rightarrow> nat list \<times> nat set \<Rightarrow> nat list \<times> nat set" where
  "visitCall M I = (\<lambda>(Worklist, R). case I of
     OtherInst \<Rightarrow> (Worklist, R)
   | CallBase _ _ None \<Rightarrow> (Worklist, R)
   | CallBase _ _ (Some g) \<Rightarrow>
       if isDeclaration (fn M g) \<or> g \<in> R then (Worklist, R) else (Worklist @ [g], insert g R))"

text \<open>The functions that a list of instructions calls directly and whose body is in the module.\<close>

definition directCallees :: "Module \<Rightarrow> Instruction list \<Rightarrow> nat set" where
  "directCallees M Is = {g. \<exists>asm nc. CallBase asm nc (Some g) \<in> set Is \<and> \<not> isDeclaration (fn M g)}"

lemma visitCalls:
  assumes "fold (visitCall M) Is (q, R) = (q', R')"
  shows "R' = R \<union> directCallees M Is \<and> set q' = set q \<union> (directCallees M Is - R) \<and>
    unvisited M R' + length q' = unvisited M R + length q"
  using assms
proof (induction Is arbitrary: q R)
  case (Cons I Is)
  obtain q1 R1 where one: "visitCall M I (q, R) = (q1, R1)" by (cases "visitCall M I (q, R)")
  then have ih: "R' = R1 \<union> directCallees M Is \<and> set q' = set q1 \<union> (directCallees M Is - R1) \<and>
    unvisited M R' + length q' = unvisited M R1 + length q1"
    using Cons by simp
  have callee: "directCallees M (I # Is) = directCallees M [I] \<union> directCallees M Is"
    by (auto simp: directCallees_def)
  have "R1 = R \<union> directCallees M [I] \<and> set q1 = set q \<union> (directCallees M [I] - R) \<and>
      unvisited M R1 + length q1 = unvisited M R + length q"
  proof (cases "\<exists>asm nc g. I = CallBase asm nc (Some g) \<and> \<not> isDeclaration (fn M g) \<and> g \<notin> R")
    case True
    then obtain asm nc g where I: "I = CallBase asm nc (Some g)" "\<not> isDeclaration (fn M g)" "g \<notin> R" by blast
    have "fst ` set M - R = insert g (fst ` set M - insert g R)"
      using defined_in [OF I(2)] I(3) by blast
    then have "unvisited M R = Suc (unvisited M (insert g R))"
      by (metis (no_types, lifting) DiffD2 card_insert_disjoint finite_Diff finite_imageI finite_set insertI1)
    moreover have "directCallees M [I] = {g}" using I by (auto simp: directCallees_def)
    moreover have "q1 = q @ [g]" "R1 = insert g R" using one I by (simp_all add: visitCall_def)
    ultimately show ?thesis using I(3) by (simp only:) auto
  next
    case False
    then have "(q1, R1) = (q, R)" "directCallees M [I] \<subseteq> R"
      using one by (auto simp: visitCall_def directCallees_def split: Instruction.splits option.splits if_splits)
    then show ?thesis by auto
  qed
  then show ?case using ih unfolding callee by auto
qed (simp add: directCallees_def)

function interruptLoop :: "Module \<Rightarrow> nat list \<Rightarrow> nat set \<Rightarrow> nat set" where
  "interruptLoop M [] R = R"
| "interruptLoop M (f # Worklist) R =
    (case fold (visitCall M) (instrs M f) (Worklist, R) of (Worklist', R') \<Rightarrow> interruptLoop M Worklist' R')"
  by pat_completeness auto

termination
proof (relation "measure (\<lambda>(M, q, R). unvisited M R + length q)", goal_cases)
  case (2 M f q R x R')
  from visitCalls [OF 2 [symmetric]] have "unvisited M R' + length x = unvisited M R + length q" by blast
  then show ?case unfolding in_measure prod.case by simp
qed simp

definition interruptHandlers :: "Module \<Rightarrow> nat list" where
  "interruptHandlers M = filter (\<lambda>f. interruptAttr (fn M f)) (map fst M)"

definition analyzeInterruptReachability :: "Module \<Rightarrow> nat set \<Rightarrow> nat set" where
  "analyzeInterruptReachability M R = interruptLoop M (interruptHandlers M) (R \<union> set (interruptHandlers M))"

text \<open>The loop computes exactly the functions that chains of direct calls reach from the handlers.\<close>

definition directCall :: "Module \<Rightarrow> (nat \<times> nat) set" where
  "directCall M = {(f, g). g \<in> directCallees M (instrs M f)}"

lemma interruptLoop_complete:
  assumes "set q \<subseteq> R" "\<forall>f \<in> R - set q. directCall M `` {f} \<subseteq> R"
  shows "R \<subseteq> interruptLoop M q R \<and> directCall M `` interruptLoop M q R \<subseteq> interruptLoop M q R"
  using assms
proof (induction M q R rule: interruptLoop.induct)
  case (1 M R)
  then show ?case by auto
next
  case (2 M f q R)
  obtain q' R' where run: "fold (visitCall M) (instrs M f) (q, R) = (q', R')" by fastforce
  note v = visitCalls [OF run]
  have f: "directCall M `` {f} = directCallees M (instrs M f)" by (auto simp: directCall_def)
  have "set q' \<subseteq> R'" using v 2(2) by auto
  moreover have "\<forall>g \<in> R' - set q'. directCall M `` {g} \<subseteq> R'"
  proof
    fix g assume g: "g \<in> R' - set q'"
    show "directCall M `` {g} \<subseteq> R'"
    proof (cases "g = f")
      case True
      then show ?thesis using f v by blast
    next
      case False
      then have "g \<in> R - set (f # q)" using g v by auto
      then show ?thesis using 2(3) v by blast
    qed
  qed
  ultimately have "R' \<subseteq> interruptLoop M q' R' \<and> directCall M `` interruptLoop M q' R' \<subseteq> interruptLoop M q' R'"
    by (rule 2(1) [OF run [symmetric]])
  then show ?case using v run by auto
qed

lemma interruptLoop_sound:
  assumes "set q \<subseteq> R" "R \<subseteq> (directCall M)\<^sup>* `` H"
  shows "interruptLoop M q R \<subseteq> (directCall M)\<^sup>* `` H"
  using assms
proof (induction M q R rule: interruptLoop.induct)
  case (2 M f q R)
  obtain q' R' where run: "fold (visitCall M) (instrs M f) (q, R) = (q', R')" by fastforce
  note v = visitCalls [OF run]
  have "directCallees M (instrs M f) \<subseteq> directCall M `` {f}" by (auto simp: directCall_def)
  also have "\<dots> \<subseteq> (directCall M)\<^sup>* `` H"
  proof -
    have "f \<in> (directCall M)\<^sup>* `` H" using 2(2,3) by auto
    then show ?thesis by (auto intro: rtrancl_into_rtrancl)
  qed
  finally have "R' \<subseteq> (directCall M)\<^sup>* `` H" "set q' \<subseteq> R'" using v 2(2,3) by auto
  then show ?case using 2(1) [OF run [symmetric]] run by simp
qed simp

lemma set_interruptHandlers: "set (interruptHandlers M) = {h. interruptAttr (fn M h)}"
  using interrupt_in by (auto simp: interruptHandlers_def)

lemma reachability_run:
  "analyzeInterruptReachability M {} = (directCall M)\<^sup>* `` {h. interruptAttr (fn M h)}" (is "?R = ?S")
proof
  show "?R \<subseteq> ?S"
    unfolding analyzeInterruptReachability_def set_interruptHandlers [symmetric]
    by (rule interruptLoop_sound) auto
  have c: "set (interruptHandlers M) \<subseteq> ?R \<and> directCall M `` ?R \<subseteq> ?R"
    unfolding analyzeInterruptReachability_def Un_empty_left by (rule interruptLoop_complete) auto
  have "g \<in> ?R" if "(h, g) \<in> (directCall M)\<^sup>*" "h \<in> ?R" for h g
    using that by induction (use c in auto)
  then show "?S \<subseteq> ?R" using c by (auto simp: set_interruptHandlers)
qed

section \<open>Eligibility and layout\<close>

record FrameObject =
  isDead :: bool
  objSize :: int

definition isFunctionEligible :: "Module \<Rightarrow> nat set \<Rightarrow> nat \<Rightarrow> FrameObject list \<Rightarrow> bool" where
  "isFunctionEligible M InterruptReachable f MFI =
    (if \<not> NoRecurse (fn M f) \<and> \<not> hasNoCallbackEvidence M f then False
     else if interruptAttr (fn M f) then False
     else if f \<in> InterruptReachable then False
     else if hasAddressTaken (fn M f) then False
     else list_ex (\<lambda>ob. \<not> isDead ob \<and> objSize ob > 0) MFI)"

record MachineFunctionInfo =
  UseStaticStack :: bool
  StaticSlots :: "nat \<Rightarrow> int option"
  StaticSizes :: "nat \<Rightarrow> int option"

record pass_state =
  ModuleAnalyzed :: bool
  InterruptReachable :: "nat set"

fun totalSize :: "FrameObject list \<Rightarrow> int" where
  "totalSize [] = 0"
| "totalSize (ob # obs) = (if \<not> isDead ob \<and> objSize ob > 0 then objSize ob else 0) + totalSize obs"

definition addStaticSlot :: "nat \<Rightarrow> int \<Rightarrow> int \<Rightarrow> MachineFunctionInfo \<Rightarrow> MachineFunctionInfo" where
  "addStaticSlot FI off sz info =
    info\<lparr>StaticSlots := (StaticSlots info)(FI \<mapsto> off), StaticSizes := (StaticSizes info)(FI \<mapsto> sz)\<rparr>"

fun assignSlots :: "nat \<Rightarrow> int \<Rightarrow> FrameObject list \<Rightarrow> MachineFunctionInfo \<Rightarrow> MachineFunctionInfo" where
  "assignSlots I off [] info = info"
| "assignSlots I off (ob # obs) info =
    (if isDead ob \<or> objSize ob \<le> 0 then assignSlots (Suc I) off obs info
     else assignSlots (Suc I) (off + objSize ob) obs (addStaticSlot I off (objSize ob) info))"

definition zeroSizes :: "FrameObject list \<Rightarrow> FrameObject list" where
  "zeroSizes = map (\<lambda>ob. if \<not> isDead ob \<and> objSize ob > 0 then ob\<lparr>objSize := 0\<rparr> else ob)"

text \<open>
  The pass on one function: its state, the frame, the function's information and the size of the
  global variable that it creates, if any.
\<close>

definition runOnMachineFunction ::
  "bool \<Rightarrow> Module \<Rightarrow> nat \<Rightarrow> pass_state \<Rightarrow> FrameObject list \<Rightarrow> MachineFunctionInfo \<Rightarrow>
    bool \<times> pass_state \<times> FrameObject list \<times> MachineFunctionInfo \<times> int option" where
  "runOnMachineFunction disabled M f st MFI info =
    (if disabled then (False, st, MFI, info, None)
     else let st = (if ModuleAnalyzed st then st
         else \<lparr>ModuleAnalyzed = True, InterruptReachable = analyzeInterruptReachability M (InterruptReachable st)\<rparr>) in
       if \<not> isFunctionEligible M (InterruptReachable st) f MFI then (False, st, MFI, info, None)
       else if totalSize MFI = 0 then (False, st, MFI, info, None)
       else (True, st, zeroSizes MFI, (assignSlots 0 0 MFI info)\<lparr>UseStaticStack := True\<rparr>, Some (totalSize MFI)))"

section \<open>Call stacks\<close>

text \<open>
  What a call can transfer control to: its callee, or, for an indirect call, a function whose
  address is taken or one outside the module.  What external code calls back is a parameter
  \<open>callbacks\<close> of the model: the functions that a declared function may call.
\<close>

fun targets :: "Module \<Rightarrow> Instruction \<Rightarrow> nat set" where
  "targets M (CallBase asm nc (Some g)) = (if asm then {} else {g})"
| "targets M (CallBase asm nc None) =
    (if asm then {} else {g. hasAddressTaken (fn M g) \<or> isDeclaration (fn M g)})"
| "targets M OtherInst = {}"

definition mayCall :: "Module \<Rightarrow> (nat \<Rightarrow> nat set) \<Rightarrow> (nat \<times> nat) set" where
  "mayCall M callbacks = {(f, g). if isDeclaration (fn M f) then g \<in> callbacks f
     else \<exists>I \<in> set (instrs M f). g \<in> targets M I}"

text \<open>
  The stacks of active functions, the innermost first: a run starts in any function, calls, returns,
  and can be interrupted at any time.
\<close>

inductive active :: "Module \<Rightarrow> (nat \<Rightarrow> nat set) \<Rightarrow> nat list \<Rightarrow> bool" for M callbacks where
  start: "active M callbacks [f]"
| call: "active M callbacks (f # st) \<Longrightarrow> (f, g) \<in> mayCall M callbacks \<Longrightarrow> active M callbacks (g # f # st)"
| return: "active M callbacks (f # st) \<Longrightarrow> active M callbacks st"
| interrupt: "active M callbacks st \<Longrightarrow> interruptAttr (fn M h) \<Longrightarrow> active M callbacks (h # st)"

text \<open>
  The attributes as they are documented: a \<open>norecurse\<close> function is on no cycle of calls (the LLVM
  language reference), a call that is \<open>nocallback\<close>, at its site or by its callee, does not come back
  to the function that makes it (ditto), and an external function that is \<open>nocallback\<close>, the
  \<open>leaf\<close> of V6ClangUsage.md, does not call back into the translation unit.
\<close>

definition attributes_hold :: "Module \<Rightarrow> (nat \<Rightarrow> nat set) \<Rightarrow> bool" where
  "attributes_hold M callbacks \<longleftrightarrow>
    (\<forall>f. NoRecurse (fn M f) \<longrightarrow> (f, f) \<notin> (mayCall M callbacks)\<^sup>+) \<and>
    (\<forall>f asm nc callee g. \<not> isDeclaration (fn M f) \<longrightarrow> CallBase asm nc callee \<in> set (instrs M f) \<longrightarrow>
       g \<in> targets M (CallBase asm nc callee) \<longrightarrow> nc \<or> callee = Some g \<and> NoCallback (fn M g) \<longrightarrow>
       (g, f) \<notin> (mayCall M callbacks)\<^sup>*) \<and>
    (\<forall>g f. isDeclaration (fn M g) \<longrightarrow> NoCallback (fn M g) \<longrightarrow> \<not> isDeclaration (fn M f) \<longrightarrow>
       (g, f) \<notin> (mayCall M callbacks)\<^sup>*)"

text \<open>
  Interrupt code calls what the search sees, a condition on the module alone: no function that a
  handler reaches makes an indirect call, and every external function it calls is \<open>nocallback\<close>.
  The pass does not check it; section ``What the pass does not check'' shows what happens without.
\<close>

definition interrupts_direct :: "Module \<Rightarrow> bool" where
  "interrupts_direct M \<longleftrightarrow>
    (\<forall>f \<in> analyzeInterruptReachability M {}. (isDeclaration (fn M f) \<longrightarrow> NoCallback (fn M f)) \<and>
      (\<forall>asm nc callee. CallBase asm nc callee \<in> set (instrs M f) \<longrightarrow> \<not> asm \<longrightarrow>
        (\<exists>g. callee = Some g \<and> (isDeclaration (fn M g) \<longrightarrow> NoCallback (fn M g)))))"

lemma harmlessCall_never_back:
  assumes "attributes_hold M callbacks" "\<not> isDeclaration (fn M x)" "I \<in> set (instrs M x)" "harmlessCall M I"
    "y \<in> targets M I"
  shows "(y, x) \<notin> (mayCall M callbacks)\<^sup>*"
proof
  let ?r = "mayCall M callbacks"
  assume ret: "(y, x) \<in> ?r\<^sup>*"
  have "(x, y) \<in> ?r" using assms(2,3,5) by (auto simp: mayCall_def)
  with ret have "(y, y) \<in> ?r\<^sup>+" by (rule rtrancl_into_trancl1)
  then have "\<not> NoRecurse (fn M y)" using assms(1) by (auto simp: attributes_hold_def)
  moreover obtain asm nc callee where I: "I = CallBase asm nc callee" using assms(5) by (cases I) auto
  ultimately have "nc \<or> callee = Some y \<and> NoCallback (fn M y)"
    using assms(4,5) by (cases callee) (auto simp: harmlessCall_def split: if_splits)
  then show False
    using assms(1,2,3,5) ret unfolding attributes_hold_def I by blast
qed

lemma evidence_no_cycle:
  assumes "hasNoCallbackEvidence M f" "attributes_hold M callbacks" "\<not> isDeclaration (fn M f)"
  shows "(f, f) \<notin> (mayCall M callbacks)\<^sup>+"
proof
  let ?r = "mayCall M callbacks"
  obtain V where "hasNoCallbackEvidenceImpl M f {} = Some V"
    using assms(1) by (auto simp: hasNoCallbackEvidence_def)
  then have run: "callsNoCallback M (instrs M f) {f} = Some V"
    by (simp add: hasNoCallbackEvidenceImpl_def)
  have on: "onward M {f} V I" if "g \<in> insert f V" "I \<in> set (instrs M g)" for g I
    using callsNoCallback_onward [OF run] that by (cases "g = f") auto
  have further: "y \<in> V - {f} \<and> \<not> isDeclaration (fn M y)"
    if x: "x \<in> insert f V" "\<not> isDeclaration (fn M x)" "(x, y) \<in> ?r" "(y, x) \<in> ?r\<^sup>*" for x y
  proof -
    obtain I where I: "I \<in> set (instrs M x)" "y \<in> targets M I" using x(2,3) by (auto simp: mayCall_def)
    then have "\<not> harmlessCall M I" using harmlessCall_never_back [OF assms(2) x(2) I(1) _ I(2)] x(4) by blast
    then obtain g where "getCalledFunction I = Some g" "g \<in> V - {f}" "\<not> isDeclaration (fn M g)"
      using on [OF x(1) I(1)] by (auto simp: onward_def)
    then show ?thesis using I(2) by (cases I) (auto split: if_splits)
  qed
  have "g \<in> V - {f} \<and> \<not> isDeclaration (fn M g)" if "(f, g) \<in> ?r\<^sup>+" "(g, f) \<in> ?r\<^sup>*" for g
    using that
  proof (induction rule: trancl_induct)
    case (base g)
    then show ?case using further [of f g] assms(3) by blast
  next
    case (step g h)
    then have "(g, f) \<in> ?r\<^sup>*" by (meson converse_rtrancl_into_rtrancl)
    moreover have "(h, g) \<in> ?r\<^sup>*" using step(1,4) by (meson rtrancl_trans trancl_into_rtrancl)
    ultimately show ?case using further [of g h] step(2,3) by blast
  qed
  moreover assume "(f, f) \<in> ?r\<^sup>+"
  ultimately show False by blast
qed

text \<open>
  A stack is the functions entered from an interrupt handler on, which never leave the set the
  search found but for external functions, on top of one chain of calls.
\<close>

definition interruptSide :: "Module \<Rightarrow> (nat \<Rightarrow> nat set) \<Rightarrow> nat set" where
  "interruptSide M callbacks = analyzeInterruptReachability M {} \<union>
     {g. isDeclaration (fn M g) \<and> (\<forall>f. (g, f) \<in> (mayCall M callbacks)\<^sup>* \<longrightarrow> isDeclaration (fn M f))}"

lemma nocallback_interruptSide:
  "attributes_hold M callbacks \<Longrightarrow> isDeclaration (fn M g) \<Longrightarrow> NoCallback (fn M g) \<Longrightarrow>
    isDeclaration (fn M g) \<and> (\<forall>f. (g, f) \<in> (mayCall M callbacks)\<^sup>* \<longrightarrow> isDeclaration (fn M f))"
  unfolding attributes_hold_def by blast

lemma interruptSide_closed:
  assumes "attributes_hold M callbacks" "interrupts_direct M"
    and "f \<in> interruptSide M callbacks" "(f, g) \<in> mayCall M callbacks"
  shows "g \<in> interruptSide M callbacks"
proof (cases "isDeclaration (fn M f)")
  case True
  then have "\<forall>h. (f, h) \<in> (mayCall M callbacks)\<^sup>* \<longrightarrow> isDeclaration (fn M h)"
    using assms(2,3) nocallback_interruptSide [OF assms(1), of f]
    by (auto simp: interruptSide_def interrupts_direct_def)
  moreover have "(f, h) \<in> (mayCall M callbacks)\<^sup>*" if "(g, h) \<in> (mayCall M callbacks)\<^sup>*" for h
    using assms(4) that by (rule converse_rtrancl_into_rtrancl)
  ultimately show ?thesis by (auto simp: interruptSide_def)
next
  case False
  then have f: "f \<in> analyzeInterruptReachability M {}" using assms(3) by (auto simp: interruptSide_def)
  obtain I where I: "I \<in> set (instrs M f)" "g \<in> targets M I" using False assms(4) by (auto simp: mayCall_def)
  then obtain asm nc callee where C: "I = CallBase asm nc callee" "\<not> asm"
    by (cases "(M, I)" rule: targets.cases) (auto split: if_splits)
  then obtain h where "callee = Some h" "isDeclaration (fn M h) \<longrightarrow> NoCallback (fn M h)"
    using assms(2) f I(1) unfolding interrupts_direct_def by blast
  with I(2) C have g: "callee = Some g" "isDeclaration (fn M g) \<longrightarrow> NoCallback (fn M g)" by auto
  show ?thesis
  proof (cases "isDeclaration (fn M g)")
    case True
    then show ?thesis
      using g(2) nocallback_interruptSide [OF assms(1) True] unfolding interruptSide_def by blast
  next
    case False
    then have "(f, g) \<in> directCall M"
      using I(1) C(1) g(1) by (auto simp: directCall_def directCallees_def)
    then have "g \<in> analyzeInterruptReachability M {}"
      using f unfolding reachability_run by (auto intro: rtrancl_into_rtrancl)
    then show ?thesis by (simp add: interruptSide_def)
  qed
qed

lemma active_shape:
  assumes "active M callbacks st" "attributes_hold M callbacks" "interrupts_direct M"
  shows "\<exists>up lo. st = up @ lo \<and> set up \<subseteq> interruptSide M callbacks \<and>
    sorted_wrt (\<lambda>y x. (x, y) \<in> (mayCall M callbacks)\<^sup>+) lo"
  using assms(1)
proof induction
  case (start f)
  show ?case by (rule exI [of _ "[]"], rule exI [of _ "[f]"]) simp
next
  case (call f st g)
  then obtain up lo where st: "f # st = up @ lo" "set up \<subseteq> interruptSide M callbacks"
    "sorted_wrt (\<lambda>y x. (x, y) \<in> (mayCall M callbacks)\<^sup>+) lo" by blast
  show ?case
  proof (cases up)
    case Nil
    have "(x, g) \<in> (mayCall M callbacks)\<^sup>+" if "x = f \<or> (x, f) \<in> (mayCall M callbacks)\<^sup>+" for x
      using that call(2) by (blast intro: trancl_into_trancl)
    then have "sorted_wrt (\<lambda>y x. (x, y) \<in> (mayCall M callbacks)\<^sup>+) (g # f # st)"
      using st Nil by auto
    then show ?thesis by (intro exI [of _ "[]"] exI [of _ "g # f # st"]) simp
  next
    case (Cons x xs)
    then have "g \<in> interruptSide M callbacks"
      using st interruptSide_closed [OF assms(2,3) _ call(2)] by simp
    then show ?thesis using st by (intro exI [of _ "g # up"] exI [of _ lo]) simp
  qed
next
  case (return f st)
  then obtain up lo where st: "f # st = up @ lo" "set up \<subseteq> interruptSide M callbacks"
    "sorted_wrt (\<lambda>y x. (x, y) \<in> (mayCall M callbacks)\<^sup>+) lo" by blast
  show ?case
  proof (cases up)
    case Nil
    then show ?thesis using st by (intro exI [of _ "[]"] exI [of _ st]) auto
  next
    case (Cons x xs)
    then show ?thesis using st by (intro exI [of _ xs] exI [of _ lo]) auto
  qed
next
  case (interrupt st h)
  then obtain up lo where st: "st = up @ lo" "set up \<subseteq> interruptSide M callbacks"
    "sorted_wrt (\<lambda>y x. (x, y) \<in> (mayCall M callbacks)\<^sup>+) lo" by blast
  have "h \<in> interruptSide M callbacks"
    using interrupt(2) by (auto simp: interruptSide_def reachability_run)
  then show ?case using st by (intro exI [of _ "h # up"] exI [of _ lo]) simp
qed

lemma sorted_wrt_once:
  "sorted_wrt r xs \<Longrightarrow> \<not> r x x \<Longrightarrow> count_list xs x \<le> 1"
proof (induction xs)
  case (Cons y xs)
  then have "count_list xs x \<le> 1" by simp
  moreover have "x \<notin> set xs" if "y = x" using Cons.prems that by auto
  ultimately show ?case by (auto simp: count_list_0_iff)
qed simp

section \<open>What the pass guarantees\<close>

text \<open>
  C21.  A function that the pass finds eligible, looking at the functions its search reached, is active at
  most once in every call stack, interrupts included: its static frame is never shared by two
  activations.  It holds when the attributes mean what they are documented to mean and when interrupt
  code makes no indirect call and calls no external function but \<open>nocallback\<close> ones; the pass does
  not check the latter.
\<close>

theorem eligible_not_reentered:
  assumes "isFunctionEligible M (analyzeInterruptReachability M {}) f MFI"
    and "\<not> isDeclaration (fn M f)"
    and "attributes_hold M callbacks" "interrupts_direct M"
    and "active M callbacks st"
  shows "count_list st f \<le> 1"
proof -
  have el: "NoRecurse (fn M f) \<or> hasNoCallbackEvidence M f" "f \<notin> analyzeInterruptReachability M {}"
    using assms(1) by (auto simp: isFunctionEligible_def split: if_splits)
  have "(f, f) \<notin> (mayCall M callbacks)\<^sup>+"
    using el(1) evidence_no_cycle [OF _ assms(3,2)] assms(3) by (auto simp: attributes_hold_def)
  moreover obtain up lo where st: "st = up @ lo" "set up \<subseteq> interruptSide M callbacks"
    "sorted_wrt (\<lambda>y x. (x, y) \<in> (mayCall M callbacks)\<^sup>+) lo"
    using active_shape [OF assms(5,3,4)] by blast
  moreover have "f \<notin> set up"
    using st(2) el(2) assms(2) by (auto simp: interruptSide_def)
  ultimately show ?thesis
    using sorted_wrt_once [OF st(3), of f] by (simp add: count_list_0_iff)
qed

text \<open>
  A module with a handler (0) that calls 1, an external leaf; \<open>main\<close> (2), which calls 3; and 3,
  which calls 4, a leaf with inline assembly.
\<close>

definition sampleModule :: Module where
  "sampleModule = (let d = \<lparr>isDeclaration = False, interruptAttr = False, NoCallback = False,
       NoRecurse = False, hasAddressTaken = False, basicBlocks = []\<rparr> in
     [(0, d\<lparr>interruptAttr := True, basicBlocks := [[CallBase False False (Some 1)]]\<rparr>),
      (1, d\<lparr>isDeclaration := True, NoCallback := True\<rparr>),
      (2, d\<lparr>basicBlocks := [[CallBase False False (Some 3)]]\<rparr>),
      (3, d\<lparr>basicBlocks := [[OtherInst], [CallBase False False (Some 4), OtherInst]]\<rparr>),
      (4, d\<lparr>basicBlocks := [[CallBase True False None, CallBase False True (Some 1)]]\<rparr>)])"

lemma sampleModule_fn:
  "fn sampleModule 0 = \<lparr>isDeclaration = False, interruptAttr = True, NoCallback = False, NoRecurse = False,
     hasAddressTaken = False, basicBlocks = [[CallBase False False (Some 1)]]\<rparr>"
  "isDeclaration (fn sampleModule 1)" "basicBlocks (fn sampleModule 1) = []" "\<not> interruptAttr (fn sampleModule 1)"
  "NoCallback (fn sampleModule 1)" "\<not> NoRecurse (fn sampleModule 1)"
  "fn sampleModule 3 = \<lparr>isDeclaration = False, interruptAttr = False, NoCallback = False, NoRecurse = False,
     hasAddressTaken = False, basicBlocks = [[OtherInst], [CallBase False False (Some 4), OtherInst]]\<rparr>"
  "fn sampleModule 4 = \<lparr>isDeclaration = False, interruptAttr = False, NoCallback = False, NoRecurse = False,
     hasAddressTaken = False, basicBlocks = [[CallBase True False None, CallBase False True (Some 1)]]\<rparr>"
  "\<not> NoRecurse (fn sampleModule f)" "NoCallback (fn sampleModule f) \<Longrightarrow> f = 1"
  "\<not> isDeclaration (fn sampleModule f) \<Longrightarrow> \<not> interruptAttr (fn sampleModule f) \<or> f = 0"
  by (auto simp: fn_def sampleModule_def Let_def split: if_splits)

lemma sampleModule_nocallback:
  "CallBase asm nc callee \<in> set (instrs sampleModule f) \<Longrightarrow>
    g \<in> targets sampleModule (CallBase asm nc callee) \<Longrightarrow>
    nc \<or> callee = Some g \<and> NoCallback (fn sampleModule g) \<Longrightarrow> g = 1"
  by (auto simp: instrs_def fn_def sampleModule_def Let_def split: if_splits)

lemma sampleModule_attributes: "attributes_hold sampleModule (\<lambda>_. {})"
proof -
  have "(1, x) \<notin> mayCall sampleModule (\<lambda>_. {})" for x
    by (simp add: mayCall_def sampleModule_fn del: One_nat_def)
  then have "(1, x) \<in> (mayCall sampleModule (\<lambda>_. {}))\<^sup>* \<Longrightarrow> x = 1" for x
    by (metis converse_rtranclE)
  then show ?thesis
    using sampleModule_nocallback sampleModule_fn(2,9,10) unfolding attributes_hold_def by metis
qed

lemma sampleModule_reach: "analyzeInterruptReachability sampleModule {} = {0}"
  by (simp add: analyzeInterruptReachability_def interruptHandlers_def instrs_def sampleModule_def fn_def
      Let_def visitCall_def)

theorem eligible_not_reentered_witness:
  "isFunctionEligible sampleModule (analyzeInterruptReachability sampleModule {}) 3
     [\<lparr>isDead = False, objSize = 2\<rparr>] \<and>
   active sampleModule (\<lambda>_. {}) [1, 0, 4, 3, 2] \<and> count_list [1, 0, 4, 3, 2 :: nat] 3 \<le> 1"
proof -
  let ?M = sampleModule and ?c = "\<lambda>_ :: nat. {} :: nat set"
  have el: "isFunctionEligible ?M (analyzeInterruptReachability ?M {}) 3 [\<lparr>isDead = False, objSize = 2\<rparr>]"
    unfolding sampleModule_reach
    by (simp add: isFunctionEligible_def hasNoCallbackEvidence_def hasNoCallbackEvidenceImpl_def instrs_def harmlessCall_def sampleModule_fn)
  have idir: "interrupts_direct ?M"
    by (simp add: interrupts_direct_def sampleModule_reach instrs_def sampleModule_fn del: One_nat_def)
  have e: "(2, 3) \<in> mayCall ?M ?c" "(3, 4) \<in> mayCall ?M ?c" "(0, 1) \<in> mayCall ?M ?c"
    by (simp_all add: mayCall_def instrs_def fn_def sampleModule_def Let_def)
  have "interruptAttr (fn ?M 0)" by (simp add: sampleModule_fn)
  then have act: "active ?M ?c [1, 0, 4, 3, 2]"
    by (rule active.call [OF active.interrupt [OF active.call [OF active.call [OF active.start e(1)] e(2)]] e(3)])
  have "\<not> isDeclaration (fn ?M 3)" by (simp add: sampleModule_fn)
  from eligible_not_reentered [OF el this sampleModule_attributes idir act] el act show ?thesis by simp
qed

section \<open>What the pass does not check\<close>

definition indirectModule :: Module where
  "indirectModule = (let d = \<lparr>isDeclaration = False, interruptAttr = False, NoCallback = False,
       NoRecurse = True, hasAddressTaken = False, basicBlocks = []\<rparr> in
     [(0, d\<lparr>interruptAttr := True, basicBlocks := [[CallBase False False None]]\<rparr>),
      (1, d\<lparr>hasAddressTaken := True, basicBlocks := [[CallBase False False (Some 2)]]\<rparr>),
      (2, d)])"

text \<open>
  C40.  The hypothesis on interrupts is needed: the search follows direct calls only.  When a handler calls
  through a pointer a function that calls \<open>f\<close> by name, \<open>f\<close> is eligible although its address is not
  taken and it is \<open>norecurse\<close>, and an interrupt re-enters it.
\<close>

theorem eligible_reentered_through_pointer:
  "isFunctionEligible indirectModule (analyzeInterruptReachability indirectModule {}) 2
     [\<lparr>isDead = False, objSize = 2\<rparr>] \<and>
   attributes_hold indirectModule (\<lambda>_. {}) \<and> active indirectModule (\<lambda>_. {}) [2, 1, 0, 2]"
proof -
  let ?M = indirectModule and ?c = "\<lambda>_ :: nat. {} :: nat set"
  have fns: "instrs ?M 0 = [CallBase False False None]" "instrs ?M 1 = [CallBase False False (Some 2)]"
    "instrs ?M 2 = []" "\<not> isDeclaration (fn ?M 0)" "\<not> isDeclaration (fn ?M 1)" "\<not> isDeclaration (fn ?M 2)"
    "hasAddressTaken (fn ?M f) \<longleftrightarrow> f = 1" "f > 2 \<Longrightarrow> isDeclaration (fn ?M f)" "f > 2 \<Longrightarrow> instrs ?M f = []" for f
    by (auto simp: instrs_def fn_def indirectModule_def Let_def)
  have el: "isFunctionEligible ?M (analyzeInterruptReachability ?M {}) 2 [\<lparr>isDead = False, objSize = 2\<rparr>]"
    by (simp add: isFunctionEligible_def analyzeInterruptReachability_def interruptHandlers_def instrs_def
        indirectModule_def fn_def Let_def visitCall_def)
  have up: "f < g" if "(f, g) \<in> mayCall ?M ?c" for f g
  proof (cases "f > 2")
    case True
    then show ?thesis using that fns(8) by (simp add: mayCall_def)
  next
    case False
    then consider "f = 0" | "f = 1" | "f = 2" by linarith
    then show ?thesis
    proof cases
      case 1
      then show ?thesis using that fns(1,4,7) by (cases "g = 0") (auto simp: mayCall_def)
    qed (use that fns(2,3,5,6) in \<open>auto simp: mayCall_def\<close>)
  qed
  have "f < g" if "(f, g) \<in> (mayCall ?M ?c)\<^sup>+" for f g
    using that by induction (use up in \<open>auto intro: order.strict_trans\<close>)
  then have "(f, f) \<notin> (mayCall ?M ?c)\<^sup>+" for f by blast
  moreover have "\<not> nc" "callee = Some g \<Longrightarrow> \<not> NoCallback (fn ?M g)"
    if "CallBase asm nc callee \<in> set (instrs ?M f)" for asm nc callee f g
    using that by (auto simp: instrs_def fn_def indirectModule_def Let_def split: if_splits)
  moreover have "\<not> NoCallback (fn ?M g)" for g
    by (auto simp: fn_def indirectModule_def Let_def)
  ultimately have att: "attributes_hold ?M ?c" unfolding attributes_hold_def by blast
  have "(1, 2) \<in> mayCall ?M ?c" "(0, 1) \<in> mayCall ?M ?c"
    using fns by (auto simp: mayCall_def simp del: One_nat_def)
  moreover have "interruptAttr (fn ?M 0)" by (simp add: fn_def indirectModule_def Let_def)
  ultimately have "active ?M ?c [2, 1, 0, 2]"
    using active.call [OF active.call [OF active.interrupt [OF active.start]]] by blast
  then show ?thesis using el att by blast
qed

text \<open>
  Nor does the search see what an external function calls.  A handler (0) calls 1, which another
  translation unit defines and which calls \<open>f\<close> (2) by name.
\<close>

definition externModule :: Module where
  "externModule = (let d = \<lparr>isDeclaration = False, interruptAttr = False, NoCallback = False,
       NoRecurse = False, hasAddressTaken = False, basicBlocks = []\<rparr> in
     [(0, d\<lparr>interruptAttr := True, basicBlocks := [[CallBase False False (Some 1)]]\<rparr>),
      (1, d\<lparr>isDeclaration := True\<rparr>),
      (2, d\<lparr>NoRecurse := True\<rparr>)])"

theorem eligible_reentered_through_extern:
  "isFunctionEligible externModule (analyzeInterruptReachability externModule {}) 2
     [\<lparr>isDead = False, objSize = 2\<rparr>] \<and>
   attributes_hold externModule (\<lambda>g. if g = 1 then {2} else {}) \<and>
   active externModule (\<lambda>g. if g = 1 then {2} else {}) [2, 1, 0, 2]"
proof -
  let ?M = externModule and ?c = "\<lambda>g :: nat. if g = 1 then {2 :: nat} else {}"
  have fns: "instrs ?M f = (if f = 0 then [CallBase False False (Some 1)] else [])"
    "isDeclaration (fn ?M f) \<longleftrightarrow> f \<noteq> 0 \<and> f \<noteq> 2" "NoCallback (fn ?M f) \<longleftrightarrow> False"
    "NoRecurse (fn ?M f) \<longleftrightarrow> f = 2" "interruptAttr (fn ?M f) \<longleftrightarrow> f = 0" "\<not> hasAddressTaken (fn ?M f)" for f
    by (auto simp: instrs_def fn_def externModule_def Let_def)
  have "interruptHandlers ?M = [0]"
    by (simp add: interruptHandlers_def fns) (simp add: externModule_def Let_def)
  then have reach: "analyzeInterruptReachability ?M {} = {0}"
    by (simp add: analyzeInterruptReachability_def fns visitCall_def del: One_nat_def)
  have el: "isFunctionEligible ?M {0} 2 [\<lparr>isDead = False, objSize = 2\<rparr>]"
    by (simp add: isFunctionEligible_def fns)
  have call: "mayCall ?M ?c = {(0, 1), (1, 2)}"
    by (auto simp: mayCall_def fns split: if_splits)
  have "f < g" if "(f, g) \<in> (mayCall ?M ?c)\<^sup>+" for f g
    using that by induction (auto simp: call simp del: One_nat_def)
  then have "(f, f) \<notin> (mayCall ?M ?c)\<^sup>+" for f by blast
  then have att: "attributes_hold ?M ?c"
    unfolding attributes_hold_def by (simp add: fns)
  have "interruptAttr (fn ?M 0)" "(0, 1) \<in> mayCall ?M ?c" "(1, 2) \<in> mayCall ?M ?c"
    by (simp_all add: fns call del: One_nat_def)
  then have "active ?M ?c [2, 1, 0, 2]"
    using active.call [OF active.call [OF active.interrupt [OF active.start]]] by blast
  then show ?thesis using el att reach by simp
qed

text \<open>
  C22.  The worklist loop over the interrupt handlers ends with exactly the functions that a chain of
  direct calls reaches from a handler.
\<close>

theorem analyzeInterruptReachability_exact:
  "g \<in> analyzeInterruptReachability M {} \<longleftrightarrow>
    (\<exists>h. interruptAttr (fn M h) \<and> (h, g) \<in> (directCall M)\<^sup>*)"
  using reachability_run by auto

abbreviation allocated :: "FrameObject \<Rightarrow> bool" where
  "allocated ob \<equiv> \<not> isDead ob \<and> objSize ob > 0"

lemma totalSize_append: "totalSize (xs @ ys) = totalSize xs + totalSize ys"
  by (induction xs) auto

lemma totalSize_nonneg: "0 \<le> totalSize obs"
  by (induction obs) auto

lemma totalSize_take:
  assumes "i < length obs" "allocated (obs ! i)" "i < j"
  shows "totalSize (take i obs) + objSize (obs ! i) \<le> totalSize (take j obs)"
proof -
  have "take j obs = take (Suc i) obs @ take (j - Suc i) (drop (Suc i) obs)"
    using assms(3) by (simp flip: take_add)
  then show ?thesis
    using assms(1,2) totalSize_nonneg [of "take (j - Suc i) (drop (Suc i) obs)"]
    by (simp add: take_Suc_conv_app_nth totalSize_append)
qed

lemma assignSlots_below:
  "i < I \<Longrightarrow> StaticSlots (assignSlots I off obs info) i = StaticSlots info i \<and>
    StaticSizes (assignSlots I off obs info) i = StaticSizes info i"
  by (induction I off obs info rule: assignSlots.induct) (auto simp: addStaticSlot_def)

lemma assignSlots_at:
  "k < length obs \<Longrightarrow> allocated (obs ! k) \<Longrightarrow>
    StaticSlots (assignSlots I off obs info) (I + k) = Some (off + totalSize (take k obs)) \<and>
    StaticSizes (assignSlots I off obs info) (I + k) = Some (objSize (obs ! k))"
proof (induction I off obs info arbitrary: k rule: assignSlots.induct)
  case (2 I off ob obs info)
  show ?case
  proof (cases k)
    case 0
    then show ?thesis
      using 2(4) assignSlots_below [of I "Suc I" "off + objSize ob" obs] by (simp add: addStaticSlot_def)
  next
    case (Suc k')
    then show ?thesis using 2 by (cases "isDead ob \<or> objSize ob \<le> 0") auto
  qed
qed simp

text \<open>
  C23.  When the pass moves a frame, every live object of positive size gets a slot of its size inside the
  global variable, no two slots share a byte, and no object keeps a size on the stack.
\<close>

theorem static_slots_layout:
  assumes "runOnMachineFunction disabled M f st MFI info = (True, st', MFI', info', Some TotalSize)"
  shows "UseStaticStack info' \<and> 0 < TotalSize \<and>
    (\<forall>i < length MFI. allocated (MFI ! i) \<longrightarrow> (\<exists>off. StaticSlots info' i = Some off \<and>
      StaticSizes info' i = Some (objSize (MFI ! i)) \<and> 0 \<le> off \<and> off + objSize (MFI ! i) \<le> TotalSize \<and>
      (\<forall>j < length MFI. i < j \<and> allocated (MFI ! j) \<longrightarrow>
        (\<exists>off'. StaticSlots info' j = Some off' \<and> off + objSize (MFI ! i) \<le> off')))) \<and>
    (\<forall>ob \<in> set MFI'. isDead ob \<or> objSize ob \<le> 0)"
proof -
  have info: "info' = (assignSlots 0 0 MFI info)\<lparr>UseStaticStack := True\<rparr>" and TotalSize: "TotalSize = totalSize MFI"
    "TotalSize \<noteq> 0" and MFI': "MFI' = zeroSizes MFI"
    using assms by (auto simp: runOnMachineFunction_def Let_def split: if_splits)
  have slot: "StaticSlots info' i = Some (totalSize (take i MFI)) \<and> StaticSizes info' i = Some (objSize (MFI ! i))"
    if "i < length MFI" "allocated (MFI ! i)" for i
    using assignSlots_at [OF that, of 0 0 info] unfolding info by simp
  have "0 < TotalSize" using TotalSize totalSize_nonneg [of MFI] by simp
  moreover have "totalSize (take i MFI) + objSize (MFI ! i) \<le> TotalSize" if "i < length MFI" "allocated (MFI ! i)" for i
    using totalSize_take [OF that, of "length MFI"] that TotalSize by simp
  moreover have "\<forall>ob \<in> set MFI'. isDead ob \<or> objSize ob \<le> 0"
    unfolding MFI' zeroSizes_def by auto
  ultimately show ?thesis
    using slot totalSize_take [of _ MFI] totalSize_nonneg info by auto
qed

theorem static_slots_layout_witness:
  "\<exists>st' MFI' info'. runOnMachineFunction False sampleModule 3 \<lparr>ModuleAnalyzed = False, InterruptReachable = {}\<rparr>
     [\<lparr>isDead = False, objSize = 2\<rparr>, \<lparr>isDead = True, objSize = 9\<rparr>, \<lparr>isDead = False, objSize = 3\<rparr>]
     \<lparr>UseStaticStack = False, StaticSlots = Map.empty, StaticSizes = Map.empty\<rparr> = (True, st', MFI', info', Some 5) \<and>
     StaticSlots info' 0 = Some 0 \<and> StaticSlots info' 2 = Some 2 \<and> UseStaticStack info'"
proof -
  have ev: "hasNoCallbackEvidence sampleModule 3"
    by (simp add: hasNoCallbackEvidence_def hasNoCallbackEvidenceImpl_def instrs_def harmlessCall_def sampleModule_fn)
  have el: "isFunctionEligible sampleModule {0} 3
     [\<lparr>isDead = False, objSize = 2\<rparr>, \<lparr>isDead = True, objSize = 9\<rparr>, \<lparr>isDead = False, objSize = 3\<rparr>]"
    using ev by (simp add: isFunctionEligible_def sampleModule_fn)
  have run: "\<exists>st' MFI' info'. runOnMachineFunction False sampleModule 3
     \<lparr>ModuleAnalyzed = False, InterruptReachable = {}\<rparr>
     [\<lparr>isDead = False, objSize = 2\<rparr>, \<lparr>isDead = True, objSize = 9\<rparr>, \<lparr>isDead = False, objSize = 3\<rparr>]
     \<lparr>UseStaticStack = False, StaticSlots = Map.empty, StaticSizes = Map.empty\<rparr> = (True, st', MFI', info', Some 5) \<and>
     StaticSlots info' 0 = Some 0 \<and> StaticSlots info' 2 = Some 2"
    using el by (simp add: runOnMachineFunction_def Let_def sampleModule_reach addStaticSlot_def)
  then show ?thesis using static_slots_layout by blast
qed

end

