(* ===== verification/XchgOpt.thy ===== *)
theory XchgOpt
  imports Emit Exits
begin

text \<open>
  The XCHG pass (V6ClangXchgOpt.cpp): two moves that copy HL to DE, or DE to HL, become one XCHG when
  the source pair is dead afterwards, and two XCHG in a row are removed.  The pass keeps its own copies
  of the two liveness scans; the backward one is the same as that of V6ClangInstrInfo.cpp, the forward
  one takes every use for a use.
\<close>

section \<open>The pass\<close>

definition isMovReg :: "machine_instr \<Rightarrow> preg \<Rightarrow> preg \<Rightarrow> bool" where
  "isMovReg MI Dst Src = (opcode MI = MOVrr \<and> opReg MI 0 = Some Dst \<and> opReg MI 1 = Some Src)"

definition xchg_isRegLiveBefore :: "preg list \<Rightarrow> machine_instr list \<Rightarrow> preg \<Rightarrow> bool" where
  "xchg_isRegLiveBefore li bef r = isRegLiveBefore li bef r"

definition markUndefIfNotLive :: "preg list \<Rightarrow> machine_instr list \<Rightarrow> preg \<Rightarrow> machine_instr \<Rightarrow> machine_instr" where
  "markUndefIfNotLive li bef r XchgMI =
    (if xchg_isRegLiveBefore li bef r then XchgMI
     else XchgMI\<lparr>operands := mark_first_use r (operands XchgMI)\<rparr>)"

definition xchg_usesReg :: "preg \<Rightarrow> machine_instr \<Rightarrow> bool" where
  "xchg_usesReg r m = list_ex (\<lambda>x. case getReg x of None \<Rightarrow> False | Some q \<Rightarrow>
     regsOverlap q r \<and> isUse x \<and> \<not> isUndef x) (operands m)"

fun xchg_isRegDeadAfter :: "machine_instr list \<Rightarrow> preg list list \<Rightarrow> preg \<Rightarrow> bool" where
  "xchg_isRegDeadAfter [] succs r = (\<not> liveOut r succs)"
| "xchg_isRegDeadAfter (m # ms) succs r =
     (if xchg_usesReg r m then False else if defsReg r m then True else xchg_isRegDeadAfter ms succs r)"

text \<open>
  \<open>tryXchg\<close> at a position: the instructions before it and those from it on; the new block, if the
  pass changes it.
\<close>

fun tryXchg ::
  "preg list \<Rightarrow> preg list list \<Rightarrow> machine_instr list \<Rightarrow> machine_instr list \<Rightarrow> machine_instr list option" where
  "tryXchg li succs bef (First # Second # rest) =
    (if isMovReg First D H \<and> isMovReg Second E L then
       (if \<not> xchg_isRegDeadAfter rest succs HL then None
        else Some (bef @ markUndefIfNotLive li bef DE XCHGi # rest))
     else if isMovReg First H D \<and> isMovReg Second L E then
       (if \<not> xchg_isRegDeadAfter rest succs DE then None
        else Some (bef @ markUndefIfNotLive li bef HL XCHGi # rest))
     else if isMovReg First E L \<and> isMovReg Second D H then
       (if \<not> xchg_isRegDeadAfter rest succs HL then None
        else Some (bef @ markUndefIfNotLive li bef DE XCHGi # rest))
     else if isMovReg First L E \<and> isMovReg Second H D then
       (if \<not> xchg_isRegDeadAfter rest succs DE then None
        else Some (bef @ markUndefIfNotLive li bef HL XCHGi # rest))
     else None)"
| "tryXchg li succs bef _ = None"

lemma tryXchg_length: "tryXchg li succs (take i MBB) (drop i MBB) = Some MBB' \<Longrightarrow> length MBB = Suc (length MBB')"
proof (cases "drop i MBB" rule: remdups_adj.cases)
  case (3 x y zs)
  moreover assume "tryXchg li succs (take i MBB) (drop i MBB) = Some MBB'"
  ultimately have "length MBB' = length (take i MBB) + Suc (length zs)" "length (drop i MBB) = Suc (Suc (length zs))"
    by (auto split: if_splits)
  then show ?thesis by (simp add: min_def split: if_splits)
qed simp_all

text \<open>The scan over the block starts again from its beginning after every change.\<close>

function xchgLoop :: "preg list \<Rightarrow> preg list list \<Rightarrow> bool \<Rightarrow> machine_instr list \<Rightarrow> nat \<Rightarrow> bool \<times> machine_instr list" where
  "xchgLoop li succs Changed MBB i =
    (if length MBB \<le> i then (Changed, MBB)
     else case tryXchg li succs (take i MBB) (drop i MBB) of
       Some MBB' \<Rightarrow> xchgLoop li succs True MBB' 0
     | None \<Rightarrow> xchgLoop li succs Changed MBB (Suc i))"
  by auto

termination
  by (relation "inv_image (less_than <*lex*> less_than) (\<lambda>(li, succs, ch, MBB, i). (length MBB, length MBB - i))")
    (auto dest: tryXchg_length)

declare xchgLoop.simps [simp del]

lemma split_debug: "dropWhile P ms = J # js \<Longrightarrow> ms = takeWhile P ms @ J # js"
  by (metis takeWhile_dropWhile_id)

lemma split_debug_length: "dropWhile P ms = J # js \<Longrightarrow> length ms = Suc (length (takeWhile P ms) + length js)"
  using arg_cong [OF split_debug, of P ms J js length] by simp

text \<open>The second scan removes pairs of XCHG with nothing but debug instructions between them.\<close>

function cancelLoop :: "machine_instr list \<Rightarrow> bool \<times> machine_instr list" where
  "cancelLoop [] = (False, [])"
| "cancelLoop (I # ms) =
    (if opcode I \<noteq> XCHG then map_prod id (Cons I) (cancelLoop ms)
     else case dropWhile isDebugInstr ms of
       J # js \<Rightarrow> if opcode J = XCHG then map_prod (\<lambda>_. True) id (cancelLoop (takeWhile isDebugInstr ms @ js))
                else map_prod id (Cons I) (cancelLoop ms)
     | [] \<Rightarrow> map_prod id (Cons I) (cancelLoop ms))"
  by pat_completeness auto

termination
  by (relation "measure length") (auto dest: split_debug_length)

record xchg_block =
  blockLiveIns :: "preg list"
  blockSuccLiveIns :: "preg list list"
  blockInstrs :: "machine_instr list"

definition xchgBlock :: "xchg_block \<Rightarrow> bool \<times> xchg_block" where
  "xchgBlock b = (let (c1, ms) = xchgLoop (blockLiveIns b) (blockSuccLiveIns b) False (blockInstrs b) 0;
     (c2, ms') = cancelLoop ms in (c1 \<or> c2, b\<lparr>blockInstrs := ms'\<rparr>))"

definition xchg_runOnMachineFunction :: "bool \<Rightarrow> xchg_block list \<Rightarrow> bool \<times> xchg_block list" where
  "xchg_runOnMachineFunction disabled MF =
    (if disabled then (False, MF)
     else (list_ex (fst \<circ> xchgBlock) MF, map (snd \<circ> xchgBlock) MF))"

section \<open>Correctness\<close>

text \<open>The forward scan of the pass finds no more registers dead than that of the instruction info.\<close>

lemma xchg_dead: "xchg_isRegDeadAfter ms succs r \<Longrightarrow> isRegDeadAtMI r ms succs"
proof (induction ms)
  case (Cons m ms)
  moreover have "usesReg r m \<Longrightarrow> xchg_usesReg r m"
    by (auto simp: usesReg_def xchg_usesReg_def list_ex_iff split: option.splits)
  ultimately show ?case by (auto split: if_splits)
qed simp

text \<open>A move without implicit operands.\<close>

definition plainMove :: "machine_instr \<Rightarrow> bool" where
  "plainMove m = (opcode m = MOVrr \<longrightarrow> length (operands m) = 2)"

lemma wf_MOVrr:
  assumes "wf_instr m" "plainMove m" "isMovReg m d r"
  obtains x y where "operands m = [x, y]" "getReg x = Some d" "isDef x" "\<not> isImplicit x" "isReg x"
    "getReg y = Some r" "isUse y" "\<not> isUndef y" "\<not> isImplicit y" "isReg y"
proof -
  have opc: "opcode m = MOVrr" and regs: "opReg m 0 = Some d" "opReg m 1 = Some r"
    using assms(3) by (auto simp: isMovReg_def)
  have len: "length (explicit_regs m) = 2"
    using assms(1) opc by (auto simp: wf_instr_def Let_def dest!: list_all2_lengthD)
  obtain x y where ops: "operands m = [x, y]"
    using assms(2) opc by (auto simp: plainMove_def length_Suc_conv numeral_2_eq_2)
  then have ex: "explicit_regs m = [x, y]" "isReg x" "isReg y" "\<not> isImplicit x" "\<not> isImplicit y"
    using len by (auto simp: explicit_regs_def split: if_splits)
  then have "isDef x" "isUse y" "\<not> isUndef y"
    using assms(1) opc by (auto simp: wf_instr_def Let_def)
  moreover have "getReg x = Some d" "getReg y = Some r"
    using regs ops by (simp_all add: opReg_def)
  ultimately show thesis using that ops ex by blast
qed

lemma exec_isMovReg:
  assumes "wf_instr m" "plainMove m" "isMovReg m d r"
  shows "exec env m s = cont (setR d (r8 s r) s)"
proof (rule wf_MOVrr [OF assms])
  fix x y
  assume "operands m = [x, y]" "getReg x = Some d" "isReg x" "\<not> isImplicit x"
    "getReg y = Some r" "isReg y" "\<not> isImplicit y"
  then have "ex_regs (operands m) = [d, r]" by (cases x; cases y) simp_all
  then show ?thesis using assms(3) by (simp add: exec_def isMovReg_def step_simps)
qed

lemma exec_markUndefIfNotLive: "exec env (markUndefIfNotLive li bef r XCHGi) s = exec env XCHGi s"
  by (simp add: markUndefIfNotLive_def exec_def)

text \<open>
  What a change of the pass amounts to: the source pair of two moves, in either order, which is dead
  after them, and an XCHG in their place.
\<close>

definition movesPair :: "preg \<Rightarrow> machine_instr \<Rightarrow> machine_instr \<Rightarrow> bool" where
  "movesPair p m n = (if p = HL then isMovReg m D H \<and> isMovReg n E L \<or> isMovReg m E L \<and> isMovReg n D H
     else isMovReg m H D \<and> isMovReg n L E \<or> isMovReg m L E \<and> isMovReg n H D)"

lemma tryXchgD:
  assumes "tryXchg li succs bef ms = Some MBB'"
  shows "\<exists>m n rest. ms = m # n # rest \<and>
    (movesPair HL m n \<and> xchg_isRegDeadAfter rest succs HL \<and> MBB' = bef @ markUndefIfNotLive li bef DE XCHGi # rest \<or>
     movesPair DE m n \<and> xchg_isRegDeadAfter rest succs DE \<and> MBB' = bef @ markUndefIfNotLive li bef HL XCHGi # rest)"
  using assms
  by (cases ms rule: remdups_adj.cases) (auto simp: movesPair_def split: if_splits)

lemma tryXchg_None:
  "tryXchg li succs bef (m # n # rest) = None \<longleftrightarrow>
    (movesPair HL m n \<longrightarrow> \<not> xchg_isRegDeadAfter rest succs HL) \<and>
    (movesPair DE m n \<longrightarrow> \<not> xchg_isRegDeadAfter rest succs DE)"
  by (auto simp: movesPair_def isMovReg_def)

lemma run_movesPair:
  assumes "wf_instr m" "plainMove m" "wf_instr n" "plainMove n" "movesPair p m n"
  shows "p = HL \<Longrightarrow> run env (m # n # ms) s = run env ms (setP DE (getP HL s) s)"
    and "p = DE \<Longrightarrow> run env (m # n # ms) s = run env ms (setP HL (getP DE s) s)"
  using assms
  by (auto simp: movesPair_def exec_isMovReg setR_def fun_upd_twist)


text \<open>One change: the block with the XCHG leaves as the block with the moves does.\<close>

lemma dead_pair:
  assumes "list_all wf_instr ms" "final_last isTerminator ms" "pair_scan_ok p ms succs" "GR16 p"
    "xchg_isRegDeadAfter ms succs p"
  shows "rel_option (same_exit succs) (run env ms (setP p w t)) (run env ms t)"
proof -
  have "isRegDeadAtMI (subHi p) ms succs" "isRegDeadAtMI (subLo p) ms succs" "GR8 (subHi p)" "GR8 (subLo p)"
    using pair_scan_okD [OF assms(3) xchg_dead [OF assms(5)] assms(4)] by (auto simp: dead_regs_def)
  then have "rel_option (same_exit succs)
      (run env ms (fold (\<lambda>r. setR r (if r = subHi p then hi8 w else lo8 w)) [subHi p, subLo p] t)) (run env ms t)"
    by (intro dead_fold [OF assms(1,2)]) simp
  moreover have "fold (\<lambda>r. setR r (if r = subHi p then hi8 w else lo8 w)) [subHi p, subLo p] t = setP p w t"
    using assms(4) by (auto simp: setR_def)
  ultimately show ?thesis by simp
qed

text \<open>Where the pass finds a copy of a pair, the scan of the source pair covers both halves.\<close>

fun pairs_end :: "preg list list \<Rightarrow> machine_instr list \<Rightarrow> bool" where
  "pairs_end succs (m # n # rest) \<longleftrightarrow> (movesPair HL m n \<longrightarrow> pair_scan_ok HL rest succs) \<and>
     (movesPair DE m n \<longrightarrow> pair_scan_ok DE rest succs) \<and> pairs_end succs (n # rest)"
| "pairs_end succs ms \<longleftrightarrow> True"

lemma tryXchg_step:
  assumes "tryXchg li succs bef ms = Some MBB'" "list_all wf_instr ms" "list_all plainMove ms"
    and "final_last isTerminator ms"
    and "pairs_end succs ms"
  shows "rel_option (same_exit succs) (run env MBB' s) (run env (bef @ ms) s)"
proof -
  obtain m n rest where ms: "ms = m # n # rest"
    and alt: "movesPair HL m n \<and> xchg_isRegDeadAfter rest succs HL \<and> MBB' = bef @ markUndefIfNotLive li bef DE XCHGi # rest \<or>
     movesPair DE m n \<and> xchg_isRegDeadAfter rest succs DE \<and> MBB' = bef @ markUndefIfNotLive li bef HL XCHGi # rest"
    using tryXchgD [OF assms(1)] by blast
  have ok: "list_all wf_instr rest" "final_last isTerminator rest" "wf_instr m" "plainMove m" "wf_instr n" "plainMove n"
    using assms(2-4) ms by auto
  note moves = run_movesPair [OF ok(3-6)]
  have tail: "rel_option (same_exit succs) (run env (markUndefIfNotLive li bef q XCHGi # rest) t) (run env ms t)"
    if "MBB' = bef @ markUndefIfNotLive li bef q XCHGi # rest" for q t
    using alt
  proof (elim disjE conjE)
    assume p: "movesPair HL m n" "xchg_isRegDeadAfter rest succs HL"
    have "run env (markUndefIfNotLive li bef q XCHGi # rest) t = run env rest (setP HL (getP DE t) (setP DE (getP HL t) t))"
      by (simp add: exec_markUndefIfNotLive exec_shapes)
    then show ?thesis
      using dead_pair [OF ok(1,2) _ _ p(2), of env "getP DE t" "setP DE (getP HL t) t"] moves(1) [OF p(1) refl, of env rest t]
        assms(5) ms p(1) by simp
  next
    assume p: "movesPair DE m n" "xchg_isRegDeadAfter rest succs DE"
    have "run env (markUndefIfNotLive li bef q XCHGi # rest) t = run env rest (setP DE (getP HL t) (setP HL (getP DE t) t))"
      by (simp add: exec_markUndefIfNotLive exec_shapes fun_upd_twist)
    then show ?thesis
      using dead_pair [OF ok(1,2) _ _ p(2), of env "getP HL t" "setP HL (getP DE t) t"] moves(2) [OF p(1) refl, of env rest t]
        assms(5) ms p(1) by simp
  qed
  have refl: "rel_option (same_exit succs) (Some x) (Some x)" for x by (simp add: same_exit_def)
  show ?thesis
    using alt tail refl by (elim disjE conjE) (auto simp: run_append split: option.splits)
qed


text \<open>
  Starting again from the beginning finds nothing new: a position where the pass changed nothing
  stays as it is when it replaces two moves further on.
\<close>

lemma xchg_reads:
  "(p, q) = (HL, DE) \<or> (p, q) = (DE, HL) \<Longrightarrow> xchg_usesReg p (markUndefIfNotLive li bef q XCHGi)"
  by (auto simp: markUndefIfNotLive_def XCHGi_def BuildMI_def implicit_operands_def xchg_usesReg_def)

lemma moves_dead:
  assumes "wf_instr m" "plainMove m" "movesPair p m n" "(p, q) = (HL, DE) \<or> (p, q) = (DE, HL)"
  shows "xchg_isRegDeadAfter (m # ms) succs q"
proof -
  obtain d r where mov: "isMovReg m d r" "\<not> regsOverlap r q" "regsOverlap d q"
    using assms(3,4) by (auto simp: movesPair_def split: if_splits)
  show ?thesis
  proof (rule wf_MOVrr [OF assms(1,2) mov(1)])
    fix x y
    assume "operands m = [x, y]" "getReg x = Some d" "isDef x" "getReg y = Some r" "isUse y"
    then show ?thesis
      using mov(2,3) isUse_not_isDef by (cases x) (auto simp: xchg_usesReg_def defsReg_def simp del: regsOverlap_code)
  qed
qed

lemma still_live:
  assumes "wf_instr m" "plainMove m" "movesPair p m n" "(p, q) = (HL, DE) \<or> (p, q) = (DE, HL)"
    and "\<not> xchg_isRegDeadAfter (mid @ m # n # rest) succs r" "r = HL \<or> r = DE"
  shows "\<not> xchg_isRegDeadAfter (mid @ markUndefIfNotLive li bef q XCHGi # rest) succs r"
  using assms(5)
proof (induction mid)
  case Nil
  then show ?case
    using moves_dead [OF assms(1-4), of "n # rest" succs] xchg_reads [OF assms(4), of li bef] assms(4,6) by auto
qed (auto split: if_splits)

lemma still_None:
  assumes "wf_instr m" "plainMove m" "movesPair p m n" "(p, q) = (HL, DE) \<or> (p, q) = (DE, HL)"
    and "j < i" "i < length MBB" "drop i MBB = m # n # rest"
    and "tryXchg li succs (take j MBB) (drop j MBB) = None"
    and M: "M' = take i MBB @ markUndefIfNotLive li' bef q XCHGi # rest"
  shows "tryXchg li succs (take j M') (drop j M') = None"
proof -
  define mid where "mid = drop j (take i MBB)"
  let ?x = "markUndefIfNotLive li' bef q XCHGi"
  have opc: "opcode ?x = XCHG" by (simp add: markUndefIfNotLive_def XCHGi_def BuildMI_def)
  have new: "drop j M' = mid @ ?x # rest" using assms(5,6) by (simp add: M mid_def)
  have old: "drop j MBB = mid @ m # n # rest"
  proof -
    have "drop j MBB = drop j (take i MBB @ drop i MBB)" by simp
    also have "\<dots> = mid @ drop i MBB"
      using assms(5,6) by (simp only: drop_append mid_def) simp
    finally show ?thesis using assms(7) by simp
  qed
  show ?thesis
  proof (cases mid rule: remdups_adj.cases)
    case 1
    then show ?thesis using assms(5,6) by (auto simp: mid_def)
  next
    case (2 f)
    then show ?thesis using opc unfolding new by (auto simp: isMovReg_def)
  next
    case (3 f g ms)
    then show ?thesis
      using assms(8) still_live [OF assms(1-4), of ms rest succs] unfolding new old
      by (simp only: append_Cons tryXchg_None) blast
  qed
qed

definition suffix_ok :: "preg list list \<Rightarrow> machine_instr list \<Rightarrow> bool" where
  "suffix_ok succs ms \<longleftrightarrow> list_all wf_instr ms \<and> list_all plainMove ms \<and> final_last isTerminator ms \<and> pairs_end succs ms"

lemma suffix_ok_Cons: "suffix_ok succs (m # ms) \<Longrightarrow> suffix_ok succs ms"
  unfolding suffix_ok_def by (cases ms) auto

text \<open>Both scans keep the block equivalent.\<close>

lemma xchgLoop_run:
  assumes "i \<le> k" "\<forall>j < k. tryXchg li succs (take j MBB) (drop j MBB) = None" "suffix_ok succs (drop k MBB)"
  shows "rel_option (same_exit succs) (run env (snd (xchgLoop li succs Changed MBB i)) s) (run env MBB s)"
  using assms
proof (induction li succs Changed MBB i arbitrary: k rule: xchgLoop.induct)
  case (1 li succs Changed MBB i)
  show ?case
  proof (cases "length MBB \<le> i")
    case True
    then show ?thesis
      by (cases "run env MBB s") (simp_all add: xchgLoop.simps [of li succs Changed MBB i] same_exit_def)
  next
    case False
    show ?thesis
    proof (cases "tryXchg li succs (take i MBB) (drop i MBB)")
      case None
      have "\<forall>j < max k (Suc i). tryXchg li succs (take j MBB) (drop j MBB) = None"
      proof (intro allI impI)
        fix j assume "j < max k (Suc i)"
        then have "j < k \<or> j = i" using 1(3) by linarith
        then show "tryXchg li succs (take j MBB) (drop j MBB) = None" using 1(4) None by blast
      qed
      moreover have "suffix_ok succs (drop (max k (Suc i)) MBB)"
      proof (cases "k = i")
        case True
        then show ?thesis
          using 1(5) False suffix_ok_Cons [of succs "MBB ! i" "drop (Suc i) MBB"] by (simp add: Cons_nth_drop_Suc max_def)
      next
        case False
        then have "max k (Suc i) = k" using 1(3) by simp
        then show ?thesis using 1(5) by simp
      qed
      ultimately show ?thesis
        using 1(1) [OF False None, of "max k (Suc i)"] False None by (simp add: xchgLoop.simps [of li succs Changed MBB i])
    next
      case (Some M')
      then have k: "k = i" using 1(3,4) by (metis le_neq_implies_less option.distinct(1))
      obtain m n rest where ms: "drop i MBB = m # n # rest"
        and alt: "movesPair HL m n \<and> M' = take i MBB @ markUndefIfNotLive li (take i MBB) DE XCHGi # rest \<or>
          movesPair DE m n \<and> M' = take i MBB @ markUndefIfNotLive li (take i MBB) HL XCHGi # rest"
        using tryXchgD [OF Some] by blast
      have ok: "suffix_ok succs (m # n # rest)" using 1(5) ms k by simp
      then have wf: "wf_instr m" "plainMove m" by (simp_all add: suffix_ok_def)
      from alt obtain p q where pq: "(p, q) = (HL, DE) \<or> (p, q) = (DE, HL)" "movesPair p m n"
        and M': "M' = take i MBB @ markUndefIfNotLive li (take i MBB) q XCHGi # rest" by blast
      have i: "i < length MBB" using False by simp
      have "tryXchg li succs (take j M') (drop j M') = None" if "j < Suc i" for j
      proof (cases "j < i")
        case True
        then show ?thesis
          using still_None [OF wf pq(2,1) True i ms _ M'] 1(4) k by simp
      next
        case False
        then have "drop j M' = markUndefIfNotLive li (take i MBB) q XCHGi # rest" using that i by (simp add: M')
        then show ?thesis
          by (cases rest) (simp_all add: isMovReg_def markUndefIfNotLive_def XCHGi_def BuildMI_def)
      qed
      moreover have "drop (Suc i) M' = rest" using i by (simp add: M')
      moreover have "suffix_ok succs rest" using ok by (blast dest: suffix_ok_Cons)
      ultimately have "rel_option (same_exit succs) (run env (snd (xchgLoop li succs True M' 0)) s) (run env M' s)"
        using 1(2) [OF False Some, of "Suc i"] by simp
      moreover have "rel_option (same_exit succs) (run env M' s) (run env (take i MBB @ drop i MBB) s)"
      proof (rule tryXchg_step [OF Some])
        show "list_all wf_instr (drop i MBB)" "list_all plainMove (drop i MBB)" "final_last isTerminator (drop i MBB)"
          "pairs_end succs (drop i MBB)"
          using ok unfolding ms suffix_ok_def by blast+
      qed
      ultimately show ?thesis
        using False Some by (auto simp: xchgLoop.simps [of li succs Changed MBB i] intro: rel_same_exit_trans)
    qed
  qed
qed

lemma run_debug: "list_all isDebugInstr ms \<Longrightarrow> run env (ms @ ns) s = run env ns s"
  by (induction ms) (auto simp: isDebugInstr_def exec_def step_def)

lemma exec_XCHG: "opcode m = XCHG \<Longrightarrow> exec env m s = cont (setP HL (getP DE s) (setP DE (getP HL s) s))"
  by (simp add: exec_def step_simps)

lemma swap_twice:
  "setP HL (getP DE u) (setP DE (getP HL u) u) = s" if "u = setP HL (getP DE s) (setP DE (getP HL s) s)"
  unfolding that by (simp add: fun_upd_twist)

lemma cancelLoop_run: "run env (snd (cancelLoop ms)) s = run env ms s"
proof (induction ms arbitrary: s rule: cancelLoop.induct)
  case (2 I ms)
  have keep: "run env (I # snd (cancelLoop ms)) s = run env (I # ms) s"
    if "\<And>t. run env (snd (cancelLoop ms)) t = run env ms t"
    using that by (auto split: option.splits)
  show ?case
  proof (cases "opcode I = XCHG")
    case False
    then show ?thesis using keep 2(1) by simp
  next
    case True
    show ?thesis
    proof (cases "dropWhile isDebugInstr ms")
      case Nil
      have "cancelLoop (I # ms) = map_prod id (Cons I) (cancelLoop ms)"
        unfolding cancelLoop.simps(2) Nil using True by simp
      then show ?thesis using keep 2(2) [OF _ Nil] True by simp
    next
      case (Cons J js)
      show ?thesis
      proof (cases "opcode J = XCHG")
        case False
        then show ?thesis using True Cons keep 2(4) by simp
      next
        case J: True
        have d: "list_all isDebugInstr (takeWhile isDebugInstr ms)" by (auto simp: list_all_iff dest: set_takeWhileD)
        have "run env ms u = run env (J # js) u" for u
          by (subst split_debug [OF Cons]) (rule run_debug [OF d])
        moreover have "\<exists>u. exec env I s = cont u \<and> exec env J u = cont s"
          unfolding exec_XCHG [OF True] exec_XCHG [OF J]
          by (rule exI, rule conjI, rule refl) (rule arg_cong [where f = cont, OF swap_twice [OF refl]])
        ultimately have "run env (I # ms) s = run env js s" by auto
        also have "\<dots> = run env (takeWhile isDebugInstr ms @ js) s" using run_debug [OF d] by simp
        finally show ?thesis using True Cons J 2(3) [of J js] by simp
      qed
    qed
  qed
qed simp

section \<open>What the pass guarantees\<close>

text \<open>
  The pass changes no block observably: each block of the function runs to the same exit as before, in a
  state that no successor can tell apart, when its instructions are well formed, its moves carry no
  implicit operands and the scan of a pair promises no more than the death of both halves.
\<close>

theorem xchgOpt_correct:
  assumes "\<forall>b \<in> set MF. suffix_ok (blockSuccLiveIns b) (blockInstrs b)"
  shows "list_all2 (\<lambda>b b'. blockSuccLiveIns b' = blockSuccLiveIns b \<and> blockLiveIns b' = blockLiveIns b \<and>
      (\<forall>env s. rel_option (same_exit (blockSuccLiveIns b)) (run env (blockInstrs b') s) (run env (blockInstrs b) s)))
    MF (snd (xchg_runOnMachineFunction disabled MF))"
proof -
  have refl: "rel_option (same_exit succs) x x" for succs x
    by (cases x) (simp_all add: same_exit_def)
  have one: "rel_option (same_exit (blockSuccLiveIns b)) (run env (blockInstrs (snd (xchgBlock b))) s)
      (run env (blockInstrs b) s)" if "b \<in> set MF" for b env s
    using xchgLoop_run [of 0 0 "blockLiveIns b" "blockSuccLiveIns b" "blockInstrs b" env False s] assms that
    by (auto simp: xchgBlock_def Let_def case_prod_beta cancelLoop_run)
  have same: "blockSuccLiveIns (snd (xchgBlock b)) = blockSuccLiveIns b" "blockLiveIns (snd (xchgBlock b)) = blockLiveIns b" for b
    by (simp_all add: xchgBlock_def Let_def case_prod_beta)
  show ?thesis
    using one same refl by (auto simp: xchg_runOnMachineFunction_def list_all2_map2 intro!: list.rel_refl_strong)
qed

lemma some_reg: "\<exists>u. u = a \<or> u = b" "\<not> (\<forall>u. u \<noteq> a \<and> u \<noteq> b)"
  by blast+

definition xchgDemo :: xchg_block where
  "xchgDemo = \<lparr>blockLiveIns = [HL], blockSuccLiveIns = [[DE]],
     blockInstrs = [MOV D H, MOV E L, BuildMI LXI [addRegDef HL, addImm 7], BuildMI RET []]\<rparr>"

lemma xchgDemo_run: "xchg_runOnMachineFunction False [xchgDemo] = (True, [xchgDemo\<lparr>blockInstrs :=
    [XCHGi\<lparr>operands := mark_first_use DE (operands XCHGi)\<rparr>, BuildMI LXI [addRegDef HL, addImm 7], BuildMI RET []]\<rparr>])"
  by (simp add: xchg_runOnMachineFunction_def xchgBlock_def xchgDemo_def xchgLoop.simps isMovReg_def MOV_def BuildMI_def
      opReg_def implicit_operands_def xchg_usesReg_def defsReg_def markUndefIfNotLive_def xchg_isRegLiveBefore_def
      isRegLiveBefore_def XCHGi_def liveOut_def some_reg)

theorem xchgOpt_correct_witness:
  "\<forall>env s. rel_option (same_exit [[DE]])
     (run env [XCHGi\<lparr>operands := mark_first_use DE (operands XCHGi)\<rparr>, BuildMI LXI [addRegDef HL, addImm 7], BuildMI RET []] s)
     (run env (blockInstrs xchgDemo) s)"
proof -
  have "suffix_ok (blockSuccLiveIns xchgDemo) (blockInstrs xchgDemo)"
    by (simp add: suffix_ok_def xchgDemo_def movesPair_def isMovReg_def opReg_def pair_scan_ok_def MOV_def wf_eval
        plainMove_def)
  then have "\<forall>b \<in> set [xchgDemo]. suffix_ok (blockSuccLiveIns b) (blockInstrs b)" by simp
  from xchgOpt_correct [OF this, of False] show ?thesis
    unfolding xchgDemo_run by (simp add: xchgDemo_def)
qed

text \<open>
  The condition on pairs is needed: HL counts as dead when only H is redefined, and the XCHG then
  loses L, which is still read.
\<close>

definition xchgPairDemo :: xchg_block where
  "xchgPairDemo = \<lparr>blockLiveIns = [HL, DE], blockSuccLiveIns = [[A]],
     blockInstrs = [MOV D H, MOV E L, MVI H 5, MOV A L, BuildMI RET []]\<rparr>"

theorem xchgOpt_pair_unsound:
  "\<exists>env s. \<not> rel_option (same_exit [[A]])
     (run env (blockInstrs (hd (snd (xchg_runOnMachineFunction False [xchgPairDemo])))) s)
     (run env (blockInstrs xchgPairDemo) s)"
proof -
  have run: "snd (xchg_runOnMachineFunction False [xchgPairDemo]) =
      [xchgPairDemo\<lparr>blockInstrs := [XCHGi, MVI H 5, MOV A L, BuildMI RET []]\<rparr>]"
    by (simp add: xchg_runOnMachineFunction_def xchgBlock_def xchgPairDemo_def xchgLoop.simps isMovReg_def MOV_def MVI_def
        BuildMI_def opReg_def implicit_operands_def xchg_usesReg_def defsReg_def markUndefIfNotLive_def
        xchg_isRegLiveBefore_def isRegLiveBefore_def XCHGi_def some_reg)
  define s :: cpu where "s = \<lparr>r8 = (\<lambda>r. if r = E then 1 else 0), fl = szp 0 False False, sp = 0, mem = (\<lambda>_. 0),
    inte = False, iolog = []\<rparr>"
  have "\<not> rel_option (same_exit [[A]]) (run env (blockInstrs (hd (snd (xchg_runOnMachineFunction False [xchgPairDemo])))) s)
     (run env (blockInstrs xchgPairDemo) s)" for env
    unfolding run
    by (simp add: xchgPairDemo_def exec_simps step_def s_def same_exit_def unchanged_def liveOut_def) (auto intro: exI [of _ A])
  then show ?thesis by blast
qed

end
