(* ===== verification/FlagOpts.thy ===== *)
theory FlagOpts
  imports Emit Exits
begin

text \<open>
  Two passes over the flags.  V6ClangZeroTestOpt.cpp turns CPI 0 into ORA A; V6ClangRedundantFlagElim.cpp
  removes ORA A and ANA A where the zero flag already tells about A, and the triple MOV r,A; XRA A;
  CMP r.  Neither keeps every flag: what they keep, and which later instructions may therefore
  follow, is what the theorems state.
\<close>

section \<open>CPI 0 to ORA A (V6ClangZeroTestOpt.cpp)\<close>

text \<open>
  An instruction that the patched-reload pass works on (a label before it, or a flag on its operand)
  is left alone; \<open>patched\<close> tells which.
\<close>

definition zeroTest :: "(machine_instr \<Rightarrow> bool) \<Rightarrow> machine_instr \<Rightarrow> machine_instr" where
  "zeroTest patched MI =
    (if opcode MI \<noteq> CPI then MI
     else case opImm MI 1 of
       None \<Rightarrow> MI
     | Some i \<Rightarrow> if i \<noteq> 0 then MI
         else if patched MI then MI
         else BuildMI ORAr [addRegDef A, addReg A, addReg A])"

definition zeroTest_runOnMachineFunction ::
  "bool \<Rightarrow> (machine_instr \<Rightarrow> bool) \<Rightarrow> machine_instr list list \<Rightarrow> bool \<times> machine_instr list list" where
  "zeroTest_runOnMachineFunction disabled patched MF =
    (if disabled then (False, MF)
     else (list_ex (list_ex (\<lambda>MI. opcode MI = CPI \<and> opImm MI 1 = Some 0 \<and> \<not> patched MI)) MF,
       map (map (zeroTest patched)) MF))"

section \<open>Redundant ORA A (V6ClangRedundantFlagElim.cpp)\<close>

definition isOraA :: "machine_instr \<Rightarrow> bool" where
  "isOraA MI = (opcode MI = ORAr \<and> opReg MI 2 = Some A)"

definition isAnaA :: "machine_instr \<Rightarrow> bool" where
  "isAnaA MI = (opcode MI = ANAr \<and> opReg MI 2 = Some A)"

fun isAluWritesAAndFlags_opc :: "opcode \<Rightarrow> preg option \<Rightarrow> bool" where
  "isAluWritesAAndFlags_opc (ALUr op) r = (op \<noteq> CMP)"
| "isAluWritesAAndFlags_opc (ALUM op) r = (op \<noteq> CMP)"
| "isAluWritesAAndFlags_opc (ALUI op) r = (op \<noteq> CMP)"
| "isAluWritesAAndFlags_opc INRr r = (r = Some A)"
| "isAluWritesAAndFlags_opc DCRr r = (r = Some A)"
| "isAluWritesAAndFlags_opc _ r = False"

definition isAluWritesAAndFlags :: "machine_instr \<Rightarrow> bool" where
  "isAluWritesAAndFlags MI = isAluWritesAAndFlags_opc (opcode MI) (opReg MI 0)"

fun isWritesANoFlags_opc :: "opcode \<Rightarrow> preg option \<Rightarrow> bool" where
  "isWritesANoFlags_opc MOVrr r = (r = Some A)"
| "isWritesANoFlags_opc MOVrM r = (r = Some A)"
| "isWritesANoFlags_opc MVIr r = (r = Some A)"
| "isWritesANoFlags_opc LDA r = True"
| "isWritesANoFlags_opc LDAX r = True"
| "isWritesANoFlags_opc POP r = (r = Some PSW)"
| "isWritesANoFlags_opc _ r = False"

definition isWritesANoFlags :: "machine_instr \<Rightarrow> bool" where
  "isWritesANoFlags MI = isWritesANoFlags_opc (opcode MI) (opReg MI 0)"

fun isWritesFlagsNoA_opc :: "opcode \<Rightarrow> preg option \<Rightarrow> bool" where
  "isWritesFlagsNoA_opc INRr r = (r \<noteq> Some A)"
| "isWritesFlagsNoA_opc DCRr r = (r \<noteq> Some A)"
| "isWritesFlagsNoA_opc INRM r = True"
| "isWritesFlagsNoA_opc DCRM r = True"
| "isWritesFlagsNoA_opc DAD r = True"
| "isWritesFlagsNoA_opc (ALUr op) r = (op = CMP)"
| "isWritesFlagsNoA_opc (ALUM op) r = (op = CMP)"
| "isWritesFlagsNoA_opc (ALUI op) r = (op = CMP)"
| "isWritesFlagsNoA_opc RLC r = True"
| "isWritesFlagsNoA_opc RRC r = True"
| "isWritesFlagsNoA_opc RAL r = True"
| "isWritesFlagsNoA_opc RAR r = True"
| "isWritesFlagsNoA_opc STC r = True"
| "isWritesFlagsNoA_opc CMC r = True"
| "isWritesFlagsNoA_opc _ r = False"

definition isWritesFlagsNoA :: "machine_instr \<Rightarrow> bool" where
  "isWritesFlagsNoA MI = isWritesFlagsNoA_opc (opcode MI) (opReg MI 0)"

text \<open>\<open>isCall\<close>, \<open>isReturn\<close> and \<open>isBranch\<close> of the instruction descriptions (V6ClangInstrInfo.td).\<close>

fun desc_isControlFlow :: "opcode \<Rightarrow> bool" where
  "desc_isControlFlow CALL = True" | "desc_isControlFlow (Ccc _) = True" | "desc_isControlFlow (RST _) = True"
| "desc_isControlFlow opc = desc_isTerminator opc"

definition isControlFlow :: "machine_instr \<Rightarrow> bool" where
  "isControlFlow MI = desc_isControlFlow (opcode MI)"

definition isXraA :: "machine_instr \<Rightarrow> bool" where
  "isXraA MI = (opcode MI = XRAr \<and> opReg MI 2 = Some A)"

definition getMOVrADest :: "(machine_instr \<Rightarrow> bool) \<Rightarrow> machine_instr \<Rightarrow> preg option" where
  "getMOVrADest patched MI =
    (if opcode MI \<noteq> MOVrr then None
     else case (opReg MI 0, opReg MI 1) of
       (Some d, Some r) \<Rightarrow> if r \<noteq> A \<or> d = A then None else if patched MI then None else Some d
     | _ \<Rightarrow> None)"

definition readsRegister :: "machine_instr \<Rightarrow> preg \<Rightarrow> bool" where
  "readsRegister m r = list_ex (\<lambda>x. isUse x \<and> getReg x = Some r) (operands m)"

fun isBridgeDead :: "preg \<Rightarrow> machine_instr list \<Rightarrow> preg list list \<Rightarrow> bool" where
  "isBridgeDead R [] succs = (\<not> list_ex (\<lambda>li. List.member li R) succs)"
| "isBridgeDead R (m # ms) succs =
    (if readsRegister m R then False else if definesRegister False m R then True else isBridgeDead R ms succs)"

text \<open>
  The pass over a block.  Instructions carry their number in the block, which stands for the pointer to
  them; \<open>out\<close> is the part of the block already passed.
\<close>

record elim_state =
  ZFlagValid :: bool
  AValueRegs :: "preg set"
  AValueSrc :: "preg \<Rightarrow> nat option"

definition resetState :: "elim_state \<Rightarrow> elim_state" where
  "resetState st = st\<lparr>ZFlagValid := False, AValueRegs := {}, AValueSrc := Map.empty\<rparr>"

definition defRegs :: "machine_instr \<Rightarrow> preg set" where
  "defRegs MI = set (List.map_filter (\<lambda>x. if isDef x then getReg x else None) (operands MI))"

definition updateState :: "(machine_instr \<Rightarrow> bool) \<Rightarrow> nat \<Rightarrow> machine_instr \<Rightarrow> elim_state \<Rightarrow> elim_state" where
  "updateState patched n MI st =
    (if isAluWritesAAndFlags MI then \<lparr>ZFlagValid = True, AValueRegs = {A}, AValueSrc = Map.empty\<rparr>
     else if ZFlagValid st then
       (case getMOVrADest patched MI of
         Some d \<Rightarrow> st\<lparr>AValueRegs := insert d (AValueRegs st), AValueSrc := (AValueSrc st)(d \<mapsto> n)\<rparr>
       | None \<Rightarrow>
         (let st = st\<lparr>AValueRegs := AValueRegs st - defRegs MI, AValueSrc := AValueSrc st |` (- defRegs MI)\<rparr> in
          if isWritesANoFlags MI \<or> isWritesFlagsNoA MI \<or> isControlFlow MI then resetState st else st))
     else if isWritesANoFlags MI \<or> isWritesFlagsNoA MI \<or> isControlFlow MI then resetState st
     else st)"

function elimLoop ::
  "(machine_instr \<Rightarrow> bool) \<Rightarrow> (machine_instr \<Rightarrow> bool) \<Rightarrow> preg list list \<Rightarrow> elim_state \<Rightarrow> bool \<Rightarrow>
    (nat \<times> machine_instr) list \<Rightarrow> (nat \<times> machine_instr) list \<Rightarrow> bool \<times> machine_instr list" where
  "elimLoop patched label succs st Changed out [] = (Changed, map snd out)"
| "elimLoop patched label succs st Changed out ((n, MI) # rest) =
    (if ZFlagValid st \<and> (isOraA MI \<or> isAnaA MI)
     then elimLoop patched label succs st True out rest
     else case (case rest of
         [] \<Rightarrow> None
       | (_, NextMI) # aft \<Rightarrow>
         if ZFlagValid st \<and> isXraA MI \<and> opcode NextMI = CMPr then
           (case opReg NextMI 1 of
             None \<Rightarrow> None
           | Some R \<Rightarrow>
             if R \<in> AValueRegs st \<and> (AValueSrc st R = None \<or> isBridgeDead R (map snd aft) succs) \<and>
               \<not> label MI \<and> \<not> label NextMI
             then Some (R, aft) else None)
         else None) of
       Some (R, aft) \<Rightarrow>
         elimLoop patched label succs st True (filter (\<lambda>(k, _). AValueSrc st R \<noteq> Some k) out) aft
     | None \<Rightarrow> elimLoop patched label succs (updateState patched n MI st) Changed (out @ [(n, MI)]) rest)"
  by pat_completeness auto

termination
  by (relation "measure (\<lambda>(p, l, s, st, c, out, rest). length rest)")
    (auto split: list.splits option.splits if_splits)

definition elimBlock ::
  "(machine_instr \<Rightarrow> bool) \<Rightarrow> (machine_instr \<Rightarrow> bool) \<Rightarrow> preg list list \<Rightarrow> machine_instr list \<Rightarrow> bool \<times> machine_instr list" where
  "elimBlock patched label succs MBB =
    elimLoop patched label succs \<lparr>ZFlagValid = False, AValueRegs = {}, AValueSrc = Map.empty\<rparr> False [] (enumerate 0 MBB)"

section \<open>States that agree up to some flags\<close>

text \<open>Equal states, but for the auxiliary carry and, unless \<open>cy\<close>, the carry.\<close>

definition flags_upto :: "bool \<Rightarrow> flags \<Rightarrow> flags \<Rightarrow> bool" where
  "flags_upto cy f g \<longleftrightarrow> fS g = fS f \<and> fZ g = fZ f \<and> fP g = fP f \<and> (cy \<longrightarrow> fCY g = fCY f)"

definition cpu_upto :: "bool \<Rightarrow> cpu \<Rightarrow> cpu \<Rightarrow> bool" where
  "cpu_upto cy s t \<longleftrightarrow> t = s\<lparr>fl := fl t\<rparr> \<and> flags_upto cy (fl s) (fl t)"

text \<open>Instructions that read the carry, that set it anew, and that do not look at the auxiliary carry.\<close>

fun readsCY :: "opcode \<Rightarrow> bool" where
  "readsCY (ALUr op) = reads_carry op" | "readsCY (ALUM op) = reads_carry op" | "readsCY (ALUI op) = reads_carry op"
| "readsCY RAL = True" | "readsCY RAR = True" | "readsCY CMC = True" | "readsCY DAA = True"
| "readsCY (Jcc c) = (c = COND_C \<or> c = COND_NC)" | "readsCY (Rcc c) = (c = COND_C \<or> c = COND_NC)"
| "readsCY _ = False"

fun setsCY :: "opcode \<Rightarrow> bool" where
  "setsCY (ALUr op) = True" | "setsCY (ALUM op) = True" | "setsCY (ALUI op) = True"
| "setsCY DAD = True" | "setsCY RLC = True" | "setsCY RRC = True" | "setsCY RAL = True" | "setsCY RAR = True"
| "setsCY STC = True" | "setsCY CMC = True"
| "setsCY _ = False"

definition noAC :: "machine_instr \<Rightarrow> bool" where
  "noAC m = (opcode m \<noteq> DAA \<and> (PSW \<in> set (ex_regs (operands m)) \<longrightarrow> opcode m = POP))"

lemma getP_fl: "p \<noteq> PSW \<Longrightarrow> getP p (s\<lparr>fl := f\<rparr>) = getP p s"
  by (cases p) simp_all

lemma updates_fl:
  "setR r v (s\<lparr>fl := f\<rparr>) = (setR r v s)\<lparr>fl := f\<rparr>" "store8 a v (s\<lparr>fl := f\<rparr>) = (store8 a v s)\<lparr>fl := f\<rparr>"
  "store16 a w (s\<lparr>fl := f\<rparr>) = (store16 a w s)\<lparr>fl := f\<rparr>" "push16 w (s\<lparr>fl := f\<rparr>) = (push16 w s)\<lparr>fl := f\<rparr>"
  "load16 a (s\<lparr>fl := f\<rparr>) = load16 a s" "pop16 (s\<lparr>fl := f\<rparr>) = pop16 s"
  "p \<noteq> PSW \<Longrightarrow> setP p w (s\<lparr>fl := f\<rparr>) = (setP p w s)\<lparr>fl := f\<rparr>"
  "setP PSW w (s\<lparr>fl := f\<rparr>) = setP PSW w s"
  by (simp_all add: setR_def store8_def store16_def push16_def load16_def pop16_def) (cases p; simp)

lemma alu_upto:
  "flags_upto cy f g \<Longrightarrow> cy \<or> \<not> reads_carry op \<Longrightarrow> alu op a b g = alu op a b f"
  by (cases op) (auto simp: flags_upto_def)

lemma cpu_upto_fl [simp]: "cpu_upto cy (s\<lparr>fl := f\<rparr>) (s\<lparr>fl := g\<rparr>) \<longleftrightarrow> flags_upto cy f g"
  by (simp add: cpu_upto_def)

lemma cpu_upto_setP_PSW [simp]: "cpu_upto cy s s"
  by (simp add: cpu_upto_def flags_upto_def)

lemma cpu_upto_setP: "flags_upto cy f g \<Longrightarrow> cpu_upto cy (setP p w (s\<lparr>fl := f\<rparr>)) (setP p w (s\<lparr>fl := g\<rparr>))"
  by (cases "p = PSW") (simp_all add: updates_fl del: setP.simps)

lemma setCY_fl: "setCY c (s\<lparr>fl := f\<rparr>) = s\<lparr>fl := f\<lparr>fCY := c\<rparr>\<rparr>"
  by (simp add: setCY_def)

lemma r8_fl: "(s\<lparr>fl := f\<rparr>)\<lparr>r8 := g\<rparr> = s\<lparr>r8 := g, fl := f\<rparr>" "(s\<lparr>fl := f\<rparr>)\<lparr>sp := w\<rparr> = s\<lparr>sp := w, fl := f\<rparr>"
  "(s\<lparr>fl := f\<rparr>)\<lparr>inte := i\<rparr> = s\<lparr>inte := i, fl := f\<rparr>" "(s\<lparr>fl := f\<rparr>)\<lparr>iolog := l\<rparr> = s\<lparr>iolog := l, fl := f\<rparr>"
  by simp_all

lemma flags_upto_ops:
  assumes "flags_upto cy f g"
  shows "flags_upto cy' (f\<lparr>fCY := c\<rparr>) (g\<lparr>fCY := c\<rparr>)"
    and "flags_upto cy (snd (alu_inr a f)) (snd (alu_inr a g))"
    and "flags_upto cy (snd (alu_dcr a f)) (snd (alu_dcr a g))"
    and "cy \<or> \<not> readsCY (Jcc cc) \<Longrightarrow> cond_holds cc g = cond_holds cc f"
  using assms by (auto simp: flags_upto_def alu_inr_def alu_dcr_def Let_def) (cases cc; simp)+

lemma inr_dcr_value [simp]: "fst (alu_inr a f) = a + 1" "fst (alu_dcr a f) = a - 1" "flags_upto cy f f"
  by (simp_all add: alu_inr_def alu_dcr_def Let_def flags_upto_def)

lemma step_upto_fl:
  assumes "flags_upto cy f g" "opc \<noteq> DAA" "PSW \<in> set rs \<longrightarrow> opc = POP" "cy \<or> \<not> readsCY opc"
  shows "rel_option (rel_prod (=) (cpu_upto (cy \<or> setsCY opc)))
    (step env opc rs vs bs (s\<lparr>fl := f\<rparr>)) (step env opc rs vs bs (s\<lparr>fl := g\<rparr>))"
proof -
  note simps = step_def updates_fl getP_fl setCY_fl r8_fl flags_upto_ops [OF assms(1)] aluA_def dad_def
    alu_upto [OF assms(1)]
  have cyeq: "cy \<Longrightarrow> fCY g = fCY f" using assms(1) by (simp add: flags_upto_def)
  show ?thesis
    using cpu_upto_setP [OF assms(1)] assms(2-4) cyeq assms(1)
    by (cases opc; auto simp: simps simp del: getP.simps setP.simps updates_setR split: list.splits)
qed

lemma exec_upto:
  assumes "cpu_upto cy s t" "noAC m" "cy \<or> \<not> readsCY (opcode m)"
  shows "rel_option (rel_prod (=) (cpu_upto (cy \<or> setsCY (opcode m)))) (exec env m s) (exec env m t)"
proof -
  have s: "s = s\<lparr>fl := fl s\<rparr>" and t: "t = s\<lparr>fl := fl t\<rparr>" and f: "flags_upto cy (fl s) (fl t)"
    using assms(1) unfolding cpu_upto_def by simp_all
  show ?thesis
    unfolding exec_def
    by (subst s, subst t) (rule step_upto_fl [OF f], use assms(2,3) in \<open>simp_all add: noAC_def\<close>)
qed

text \<open>The carry is set anew before it is read, and not live out if the block ends first.\<close>

abbreviation "carry_dead \<equiv> scan_dead (\<lambda>m. readsCY (opcode m)) (\<lambda>m. setsCY (opcode m))"

abbreviation "upto_exit \<equiv> ends_alike cpu_upto"

lemma cpu_upto_mono: "cpu_upto cy s t \<Longrightarrow> (cy' \<Longrightarrow> cy) \<Longrightarrow> cpu_upto cy' s t"
  by (auto simp: cpu_upto_def flags_upto_def)

lemma setsCY_goes_on: "setsCY (opcode m) \<Longrightarrow> \<not> isTerminator m"
  by (cases "opcode m") (auto simp: isTerminator_def)

interpretation cy: flag_agreement cpu_upto noAC "\<lambda>m. readsCY (opcode m)" "\<lambda>m. setsCY (opcode m)"
  by unfold_locales (blast intro: cpu_upto_mono, rule exec_upto, auto simp: setsCY_goes_on)

section \<open>The zero test\<close>

text \<open>The immediate of a CPI is its only value.\<close>

definition cpiShape :: "machine_instr \<Rightarrow> bool" where
  "cpiShape m = (opcode m = CPI \<longrightarrow> (\<forall>env. length (ex_vals env (operands m)) = 1))"

lemma CPI_0:
  assumes "cpiShape m" "opcode m = CPI" "opImm m 1 = Some 0"
  shows "exec env m s = cont (aluA CMP 0 s)"
proof -
  obtain v where v: "ex_vals env (operands m) = [v]"
    using assms(1,2) by (auto simp: cpiShape_def length_Suc_conv)
  have "MO_Immediate 0 \<in> set (operands m)"
    using assms(3) by (auto simp: opImm_def in_set_conv_nth split: if_splits elim!: getImm.elims)
  from ex_vals_imm [OF this, of env] have "v = 0" unfolding v by simp
  then show ?thesis using v assms(2) by (simp add: exec_def exec_simps lo8_def)
qed

lemma CPI_ORA: "cpu_upto cy s t \<Longrightarrow> cpu_upto True (aluA CMP 0 s) (aluA ORA (r8 t A) t)"
  unfolding cpu_upto_def by (cases s; cases t) (auto simp: aluA_def flags_upto_def alu_sub_def Let_def szp_def setR_def fun_eq_iff)

lemma ORA_A: "exec env (BuildMI ORAr [addRegDef A, addReg A, addReg A]) s = cont (aluA ORA (r8 s A) s)"
  by (simp add: exec_def exec_simps BuildMI_def)

lemma zeroTest_cases:
  assumes "cpiShape m"
  shows "zeroTest patched m = m \<or>
    opcode m = CPI \<and> zeroTest patched m = BuildMI ORAr [addRegDef A, addReg A, addReg A] \<and>
    (\<forall>env s. exec env m s = cont (aluA CMP 0 s))"
  using CPI_0 [OF assms] by (auto simp: zeroTest_def split: option.splits)

lemma zeroTest_run:
  assumes "cpu_upto cy s t" "list_all noAC ms" "list_all cpiShape ms" "cy \<or> carry_dead succs ms"
  shows "rel_option (upto_exit succs) (run env ms s) (run env (map (zeroTest patched) ms) t)"
  using assms
proof (induction ms arbitrary: cy s t)
  case Nil
  then show ?case by (auto simp: ends_alike_def elim: cpu_upto_mono)
next
  case (Cons m ms)
  have rest: "list_all noAC ms" "list_all cpiShape ms" using Cons.prems by simp_all
  have "cpiShape m" using Cons.prems(3) by simp
  from zeroTest_cases [OF this, of patched] show ?case
  proof (elim disjE conjE)
    assume "zeroTest patched m = m"
    then show ?thesis
      using cy.run_Cons [OF Cons.prems(1) _ Cons.prems(4)] Cons.IH rest Cons.prems(2) by simp
  next
    assume "zeroTest patched m = BuildMI ORAr [addRegDef A, addReg A, addReg A]"
      "\<forall>env s. exec env m s = cont (aluA CMP 0 s)"
    then show ?thesis
      using Cons.IH [OF CPI_ORA [OF Cons.prems(1)] rest] by (simp add: ORA_A)
  qed
qed

text \<open>
  the zero-test pass (V6ClangZeroTestOpt.cpp:46-84) replaces every CPI 0 that the patched-reload
  pass does not use by the shorter ORA A.  In a block that never looks at the auxiliary carry (no DAA,
  no PUSH PSW) the new block leaves to the same place with the same registers, memory, sign, zero,
  parity and carry flags: only the auxiliary carry may differ.
\<close>

theorem zeroTest_correct:
  assumes "list_all noAC ms" "list_all cpiShape ms"
  shows "rel_option (\<lambda>x y. fst x = fst y \<and> cpu_upto True (snd x) (snd y))
    (run env ms s) (run env (map (zeroTest patched) ms) s)"
  using zeroTest_run [OF _ assms, of True s s "[[FLAGS]]" env patched]
  by (simp add: ends_alike_def [abs_def] liveOut_def)

theorem zeroTest_correct_witness:
  "\<forall>env s. rel_option (\<lambda>x y. fst x = fst y \<and> cpu_upto True (snd x) (snd y))
    (run env [BuildMI CPI [addReg A, addImm 0], BuildMI (Jcc COND_Z) [addMBB 1]] s)
    (run env (map (zeroTest (\<lambda>_. False)) [BuildMI CPI [addReg A, addImm 0], BuildMI (Jcc COND_Z) [addMBB 1]]) s)"
  by (intro allI zeroTest_correct) (simp_all add: noAC_def cpiShape_def BuildMI_def)

section \<open>Redundant tests of A\<close>

text \<open>Sign, zero and parity are those of A.\<close>

definition reflectsA :: "cpu \<Rightarrow> bool" where
  "reflectsA s \<longleftrightarrow> fS (fl s) = bit (r8 s A) 7 \<and> fZ (fl s) = (r8 s A = 0) \<and> fP (fl s) = parity8 (r8 s A)"

text \<open>
  The register operands come first, a test of A has three of them and A is no pair; CMA, IN and COPY, which write A
  behind the back of the pass, do not occur.
\<close>

definition flagShape :: "machine_instr \<Rightarrow> bool" where
  "flagShape m \<longleftrightarrow> opcode m \<notin> {CMA, IN, COPY} \<and>
    (\<forall>i < length (ex_regs (operands m)). opReg m i = Some (ex_regs (operands m) ! i)) \<and>
    (isOraA m \<or> isAnaA m \<longrightarrow> length (ex_regs (operands m)) = 3) \<and>
    (opcode m \<in> {LHLD, LXI, POP, INX, DCX} \<longrightarrow> A \<notin> set (ex_regs (operands m)))"

fun noTriple :: "machine_instr list \<Rightarrow> bool" where
  "noTriple (m # n # ms) \<longleftrightarrow> \<not> (isXraA m \<and> opcode n = CMPr) \<and> noTriple (n # ms)"
| "noTriple _ \<longleftrightarrow> True"

fun carry_after :: "preg list list \<Rightarrow> machine_instr list \<Rightarrow> bool" where
  "carry_after succs [] \<longleftrightarrow> True"
| "carry_after succs (m # ms) \<longleftrightarrow> (isOraA m \<or> isAnaA m \<longrightarrow> carry_dead succs ms) \<and> carry_after succs ms"

lemma noTriple_tl: "noTriple (m # ms) \<Longrightarrow> noTriple ms"
  by (cases ms) simp_all

lemma alu_reflects: "op \<noteq> CMP \<Longrightarrow> reflectsA (aluA op b s)"
  by (cases op) (simp_all add: reflectsA_def aluA_def alu_add_def alu_sub_def Let_def)

lemma inr_reflects:
  "reflectsA (setR A (a + 1) (s\<lparr>fl := snd (alu_inr a f)\<rparr>))"
  "reflectsA (setR A (a - 1) (s\<lparr>fl := snd (alu_dcr a f)\<rparr>))"
  by (simp_all add: reflectsA_def setR_def alu_inr_def alu_dcr_def Let_def)

lemma reflectsA_cong:
  "r8 t A = r8 s A \<Longrightarrow> fl t = fl s \<Longrightarrow> reflectsA t = reflectsA s"
  by (simp add: reflectsA_def)

lemma alu_writer_reflects:
  assumes "exec env m s = cont s'" "flagShape m" "isAluWritesAAndFlags m"
  shows "reflectsA s'"
  using assms
  by (cases "opcode m")
    (auto simp: exec_def step_def flagShape_def isAluWritesAAndFlags_def alu_reflects inr_reflects
      split: list.splits if_splits)

lemma setP_A: "p \<noteq> PSW \<Longrightarrow> p \<noteq> A \<Longrightarrow> r8 (setP p w s) A = r8 s A \<and> fl (setP p w s) = fl s"
  by (cases p) simp_all

lemma step_keepsA:
  assumes "step env opc rs vs bs s = cont s'" "opc \<notin> {CMA, IN, COPY, DAA}" "rs \<noteq> [] \<longrightarrow> r = Some (rs ! 0)"
    "\<not> isAluWritesAAndFlags_opc opc r" "\<not> isWritesANoFlags_opc opc r" "\<not> isWritesFlagsNoA_opc opc r"
    "PSW \<in> set rs \<longrightarrow> opc = POP" "opc \<in> {LHLD, LXI, POP, INX, DCX} \<longrightarrow> A \<notin> set rs"
  shows "r8 s' A = r8 s A \<and> fl s' = fl s"
  using assms
  by (cases opc; auto simp: step_def setP_A setR_def store8_def store16_def push16_def
    simp del: setP.simps getP.simps split: list.splits if_splits)

lemma flagShape_first: "flagShape m \<Longrightarrow> ex_regs (operands m) \<noteq> [] \<longrightarrow> opReg m 0 = Some (ex_regs (operands m) ! 0)"
  by (auto simp: flagShape_def)

lemma keeps_reflects:
  assumes "exec env m s = cont s'" "flagShape m" "noAC m" "reflectsA s"
    "\<not> isAluWritesAAndFlags m" "\<not> isWritesANoFlags m" "\<not> isWritesFlagsNoA m"
  shows "reflectsA s'"
  using step_keepsA [of env "opcode m" "ex_regs (operands m)" _ _ s s' "opReg m 0"] assms flagShape_first [of m]
  by (auto simp: exec_def flagShape_def noAC_def isAluWritesAAndFlags_def isWritesANoFlags_def
      isWritesFlagsNoA_def intro: reflectsA_cong [THEN iffD2])

lemma updateState_sound:
  assumes "exec env m s = cont s'" "flagShape m" "noAC m" "ZFlagValid st \<longrightarrow> reflectsA s"
  shows "ZFlagValid (updateState patched n m st) \<longrightarrow> reflectsA s'"
proof (cases "isAluWritesAAndFlags m")
  case True
  then show ?thesis using alu_writer_reflects [OF assms(1,2)] by simp
next
  case False
  have "getMOVrADest patched m = Some d \<Longrightarrow> \<not> isWritesANoFlags m \<and> \<not> isWritesFlagsNoA m" for d
    by (auto simp: getMOVrADest_def isWritesANoFlags_def isWritesFlagsNoA_def split: option.splits if_splits)
  then show ?thesis
    using False assms(4) keeps_reflects [OF assms(1-3)]
    by (auto simp: updateState_def resetState_def Let_def split: option.splits)
qed

lemma redundant_test:
  assumes "cpu_upto cy s t" "isOraA m \<or> isAnaA m" "flagShape m" "reflectsA s"
  obtains s' where "exec env m s = cont s'" "cpu_upto False s' t" "reflectsA s'"
proof -
  obtain d a r where rs: "ex_regs (operands m) = [d, a, r]"
    using assms(2,3) by (auto simp: flagShape_def numeral_3_eq_3 length_Suc_conv)
  moreover have "opReg m 2 = Some (ex_regs (operands m) ! 2)"
    using assms(3) rs by (simp add: flagShape_def)
  ultimately have "r = A" using assms(2) by (auto simp: isOraA_def isAnaA_def)
  then have "\<exists>op \<in> {ORA, ANA}. exec env m s = cont (aluA op (r8 s A) s)"
    using assms(2) rs by (auto simp: exec_def step_def isOraA_def isAnaA_def)
  then obtain op where op: "op \<in> {ORA, ANA}" "exec env m s = cont (aluA op (r8 s A) s)" ..
  have "cpu_upto False (aluA op (r8 s A) s) t"
    using op(1) assms(1,4) unfolding cpu_upto_def reflectsA_def
    by (cases s; cases t) (auto simp: aluA_def flags_upto_def Let_def fun_eq_iff)
  then show ?thesis using op alu_reflects by (intro that) auto
qed

fun elimTests :: "(machine_instr \<Rightarrow> bool) \<Rightarrow> elim_state \<Rightarrow> (nat \<times> machine_instr) list \<Rightarrow> machine_instr list" where
  "elimTests patched st [] = []"
| "elimTests patched st ((n, m) # rest) =
    (if ZFlagValid st \<and> (isOraA m \<or> isAnaA m) then elimTests patched st rest
     else m # elimTests patched (updateState patched n m st) rest)"

lemma elimLoop_tests:
  "noTriple (map snd rest) \<Longrightarrow>
    snd (elimLoop patched label succs st Changed out rest) = map snd out @ elimTests patched st rest"
proof (induction patched label succs st Changed out rest rule: elimLoop.induct)
  case (2 patched label succs st Changed out n MI rest)
  show ?case
  proof (cases "ZFlagValid st \<and> (isOraA MI \<or> isAnaA MI)")
    case True
    then show ?thesis using 2 noTriple_tl by simp
  next
    case False
    have "noTriple (map snd rest)" using 2(4) noTriple_tl by simp
    moreover have "\<not> (ZFlagValid st \<and> isXraA MI \<and> opcode (snd (hd rest)) = CMPr)" if "rest \<noteq> []"
      using 2(4) that by (cases rest) auto
    then have none: "(case rest of [] \<Rightarrow> None
       | (_, NextMI) # aft \<Rightarrow>
         if ZFlagValid st \<and> isXraA MI \<and> opcode NextMI = CMPr then
           (case opReg NextMI 1 of
             None \<Rightarrow> None
           | Some R \<Rightarrow>
             if R \<in> AValueRegs st \<and> (AValueSrc st R = None \<or> isBridgeDead R (map snd aft) succs) \<and>
               \<not> label MI \<and> \<not> label NextMI
             then Some (R, aft) else None)
         else None) = None"
      by (cases rest) auto
    have "elimTests patched st ((n, MI) # rest) = MI # elimTests patched (updateState patched n MI st) rest"
      using False by auto
    ultimately show ?thesis using 2(2) [OF False none]
      by (subst elimLoop.simps(2), simp only: none if_not_P [OF False] option.case) simp
  qed
qed simp

lemma elimTests_run:
  assumes "cpu_upto cy s t" "list_all noAC (map snd ms)" "list_all flagShape (map snd ms)"
    "carry_after succs (map snd ms)" "cy \<or> carry_dead succs (map snd ms)" "ZFlagValid st \<longrightarrow> reflectsA s"
  shows "rel_option (upto_exit succs) (run env (map snd ms) s) (run env (elimTests patched st ms) t)"
  using assms
proof (induction ms arbitrary: cy s t st)
  case Nil
  then show ?case by (auto simp: ends_alike_def elim: cpu_upto_mono)
next
  case (Cons x ms)
  obtain n m where x: "x = (n, m)" by force
  have rest: "list_all noAC (map snd ms)" "list_all flagShape (map snd ms)" "carry_after succs (map snd ms)"
    and m: "noAC m" "flagShape m" using Cons.prems x by simp_all
  show ?case
  proof (cases "ZFlagValid st \<and> (isOraA m \<or> isAnaA m)")
    case True
    from True have "isOraA m \<or> isAnaA m" "reflectsA s" using Cons.prems(6) by simp_all
    from redundant_test [OF Cons.prems(1) this(1) m(2) this(2)] obtain s'
      where "exec env m s = cont s'" "cpu_upto False s' t" "reflectsA s'" .
    then show ?thesis using Cons.IH [OF _ rest, of False s' t st] Cons.prems(4) True x by simp
  next
    case False
    have "rel_option (upto_exit succs) (run env (m # map snd ms) s)
      (run env (m # elimTests patched (updateState patched n m st) ms) t)"
      by (rule cy.run_Cons [OF Cons.prems(1) m(1)])
        (use Cons.prems(5) x m rest updateState_sound [OF _ m(2,1) Cons.prems(6)] in \<open>auto intro!: Cons.IH\<close>)
    moreover have "elimTests patched st (x # ms) = m # elimTests patched (updateState patched n m st) ms"
      using False x by auto
    ultimately show ?thesis using x by (simp del: elimTests.simps run.simps)
  qed
qed

text \<open>
  the redundant-flag pass (V6ClangRedundantFlagElim.cpp:253-358) removes an ORA A or ANA A only
  where sign, zero and parity already are those of A.  In a block with the operands of its
  instructions in order, without CMA, IN, DAA and PUSH PSW, in which no CMP follows an XRA A directly
  and nothing reads the carry after a test of A before it is set anew, the shortened block leaves to
  the same place with the same registers and memory, sign, zero and parity, and the same carry if a
  successor has the flags live in.
\<close>

theorem redundantFlagElim_correct:
  assumes "list_all noAC ms" "list_all flagShape ms" "noTriple ms" "carry_after succs ms"
  shows "rel_option (upto_exit succs) (run env ms s) (run env (snd (elimBlock patched label succs ms)) s)"
proof -
  have "map snd (enumerate 0 ms) = ms" by simp
  with elimTests_run [of True s s "enumerate 0 ms" succs _ env patched] elimLoop_tests [of "enumerate 0 ms"] assms
  show ?thesis by (simp add: elimBlock_def)
qed

theorem redundantFlagElim_correct_witness:
  "\<forall>env s. rel_option (upto_exit [[A]])
     (run env [ALU ADD B, BuildMI ORAr [addRegDef A, addReg A, addReg A], BuildMI (Jcc COND_Z) [addMBB 1]] s)
     (run env (snd (elimBlock (\<lambda>_. False) (\<lambda>_. False) [[A]]
       [ALU ADD B, BuildMI ORAr [addRegDef A, addReg A, addReg A], BuildMI (Jcc COND_Z) [addMBB 1]])) s)"
  by (intro allI redundantFlagElim_correct)
    (simp_all add: noAC_def flagShape_def isOraA_def isAnaA_def isXraA_def BuildMI_def ALU_def liveOut_def
      opReg_def isTerminator_def All_less_Suc numeral_3_eq_3)

section \<open>What the passes overlook\<close>

abbreviation "ORA_A \<equiv> ALU ORA A"
abbreviation "elim \<equiv> \<lambda>ms. snd (elimBlock (\<lambda>_. False) (\<lambda>_. False) [[B, C, D, E, H, L]] ms)"
abbreviation "CMAi \<equiv> BuildMI CMA [addRegDef A, addReg A]"
abbreviation "RARi \<equiv> BuildMI RAR [addRegDef A, addReg A]"
abbreviation "JZ b \<equiv> BuildMI (Jcc COND_Z) [addMBB b]"

lemma elim_test: "enumerate k (m # ms) = (k, m) # enumerate (Suc k) ms"
  by (rule enumerate_simps(2))

lemmas elim_eval = elimBlock_def elim_test updateState_def resetState_def isAluWritesAAndFlags_def isWritesANoFlags_def
  isWritesFlagsNoA_def isControlFlow_def isOraA_def isAnaA_def isXraA_def getMOVrADest_def opReg_def defRegs_def
  List.map_filter_def readsRegister_def definesRegister_def BuildMI_def implicit_operands_def

text \<open>CMA changes A and keeps the flags, yet \<open>isWritesANoFlags\<close> does not list it: the test after it goes.\<close>

lemma elim_after_CMA: "elim [ALU ANA B, CMAi, ORA_A, JZ 2] = [ALU ANA B, CMAi, JZ 2]"
  by (simp add: elim_eval ALU_def)

text \<open>
  in ANA B; CMA; ORA A; JZ the pass removes ORA A, so the branch tests the flags of ANA instead of
  those of the complement: with A and B 255 the block branched and now falls through.
\<close>

theorem redundantFlagElim_CMA_unsound:
  "map_option fst (run env [ALU ANA B, CMAi, ORA_A, JZ 2] (s\<lparr>r8 := \<lambda>_. 255\<rparr>)) = Some (Goto 2) \<and>
   map_option fst (run env (elim [ALU ANA B, CMAi, ORA_A, JZ 2]) (s\<lparr>r8 := \<lambda>_. 255\<rparr>)) = Some Next"
  by (simp add: elim_after_CMA exec_simps aluA_def)

text \<open>ORA A clears the carry, ADD does not: RAR after them rotates another bit in.\<close>

lemma elim_keeps_ADD: "elim [ALU ADD B, ORA_A, RARi] = [ALU ADD B, RARi]"
  by (simp add: elim_eval ALU_def)

lemma redundantFlagElim_carry_unsound:
  "map_option (\<lambda>(c, t). r8 t A) (run env [ALU ADD B, ORA_A, RARi] (s\<lparr>r8 := \<lambda>_. 128\<rparr>)) = Some 0 \<and>
   map_option (\<lambda>(c, t). r8 t A) (run env (elim [ALU ADD B, ORA_A, RARi]) (s\<lparr>r8 := \<lambda>_. 128\<rparr>)) = Some 128"
  by (simp add: elim_keeps_ADD exec_simps aluA_def alu_add_def rar_def setCY_def)

text \<open>The copy MOV B,A goes although MOV D,B reads it before the comparison.\<close>

abbreviation "copied \<equiv> [ALU ADD C, MOV B A, MOV D B, ALU XRA A, BuildMI CMPr [addReg A, addReg B],
  MVI B 0]"

lemma elim_copied: "elim copied = [ALU ADD C, MOV D B, MVI B 0]"
  by (simp add: elim_eval ALU_def MOV_def MVI_def)

lemma redundantFlagElim_copy_unsound:
  "map_option (\<lambda>(c, t). r8 t D) (run env copied (s\<lparr>r8 := (\<lambda>_. 0)(C := 1)\<rparr>)) = Some 1 \<and>
   map_option (\<lambda>(c, t). r8 t D) (run env (elim copied) (s\<lparr>r8 := (\<lambda>_. 0)(C := 1)\<rparr>)) = Some 0"
  by (simp add: elim_copied exec_simps aluA_def alu_add_def)

end
