(* ===== verification/MCFixup.thy ===== *)
theory MCFixup
  imports Prelude
begin

text \<open>
  Patching of addresses into code.  The assembler applies the fixups whose value it knows
  (V6ClangAsmBackend.cpp) and turns the others into ELF relocations, which the linker applies
  (lld/ELF/Arch/V6Clang.cpp).  Both keep their own table of relocation numbers.  The theorems say that
  they patch alike and when a patched field can be read back.
\<close>

type_synonym u64 = "64 word"

section \<open>Fixups of the assembler (V6ClangAsmBackend.cpp)\<close>

text \<open>Kinds of other targets, and generic ones that this target has no use for, are \<open>FK_Other\<close>.\<close>

datatype (plugins only: code size) MCFixupKind =
    FK_Data_1 | FK_Data_2 | FK_Data_4
  | fixup_v6clang_8 | fixup_v6clang_16 | fixup_v6clang_lo8 | fixup_v6clang_hi8
  | FK_Other nat

record MCFixupKindInfo =
  kindName :: string
  TargetOffset :: nat
  TargetSize :: nat
  infoFlags :: nat

definition getFixupKind :: "string \<Rightarrow> MCFixupKind option" where
  "getFixupKind Name =
    (if Name = ''R_V6CLANG_8'' then Some FK_Data_1
     else if Name = ''R_V6CLANG_16'' then Some FK_Data_2
     else if Name = ''R_V6CLANG_32'' then Some FK_Data_4
     else if Name = ''R_V6CLANG_LO8'' then Some fixup_v6clang_lo8
     else if Name = ''R_V6CLANG_HI8'' then Some fixup_v6clang_hi8
     else None)"

text \<open>The kinds of the target; those of \<open>MCAsmBackend\<close> are not ours.\<close>

fun getFixupKindInfo :: "MCFixupKind \<Rightarrow> MCFixupKindInfo option" where
  "getFixupKindInfo fixup_v6clang_8 = Some \<lparr>kindName = ''fixup_v6clang_8'', TargetOffset = 0, TargetSize = 8, infoFlags = 0\<rparr>"
| "getFixupKindInfo fixup_v6clang_16 = Some \<lparr>kindName = ''fixup_v6clang_16'', TargetOffset = 0, TargetSize = 16, infoFlags = 0\<rparr>"
| "getFixupKindInfo fixup_v6clang_lo8 = Some \<lparr>kindName = ''fixup_v6clang_lo8'', TargetOffset = 0, TargetSize = 8, infoFlags = 0\<rparr>"
| "getFixupKindInfo fixup_v6clang_hi8 = Some \<lparr>kindName = ''fixup_v6clang_hi8'', TargetOffset = 0, TargetSize = 8, infoFlags = 0\<rparr>"
| "getFixupKindInfo _ = None"

text \<open>A failed assertion, or a kind the code does not know, is \<open>None\<close>.\<close>

definition applyFixup :: "MCFixupKind \<Rightarrow> nat \<Rightarrow> byte list \<Rightarrow> u64 \<Rightarrow> byte list option" where
  "applyFixup Kind Offset Data Value =
    (if Kind = FK_Data_1 \<or> Kind = fixup_v6clang_8 then
       (if Offset < length Data then Some (Data[Offset := ucast (Value AND 0xFF)]) else None)
     else if Kind = fixup_v6clang_lo8 then
       (if Offset < length Data then Some (Data[Offset := ucast (Value AND 0xFF)]) else None)
     else if Kind = fixup_v6clang_hi8 then
       (if Offset < length Data then Some (Data[Offset := ucast (drop_bit 8 Value AND 0xFF)]) else None)
     else if Kind = FK_Data_2 \<or> Kind = fixup_v6clang_16 then
       (if Offset + 1 < length Data
        then Some (Data[Offset := ucast (Value AND 0xFF), Offset + 1 := ucast (drop_bit 8 Value AND 0xFF)])
        else None)
     else if Kind = FK_Data_4 then
       (if Offset + 3 < length Data
        then Some (Data[Offset := ucast (Value AND 0xFF), Offset + 1 := ucast (drop_bit 8 Value AND 0xFF),
          Offset + 2 := ucast (drop_bit 16 Value AND 0xFF), Offset + 3 := ucast (drop_bit 24 Value AND 0xFF)])
        else None)
     else None)"

definition fixupNeedsRelaxation :: "MCFixupKind \<Rightarrow> u64 \<Rightarrow> bool" where
  "fixupNeedsRelaxation Kind Value = False"

definition writeNopData :: "byte list \<Rightarrow> nat \<Rightarrow> byte list" where
  "writeNopData OS Count = OS @ replicate Count 0"

section \<open>Relocation numbers (V6ClangFixupKinds.h, lld/ELF/Arch/V6Clang.cpp)\<close>

definition RelocType :: "(string \<times> nat) list" where
  "RelocType = [(''R_V6CLANG_NONE'', 0), (''R_V6CLANG_8'', 1), (''R_V6CLANG_16'', 2), (''R_V6CLANG_LO8'', 3),
    (''R_V6CLANG_HI8'', 4), (''R_V6CLANG_32'', 5)]"

definition lld_RelocType :: "(string \<times> nat) list" where
  "lld_RelocType = [(''R_V6CLANG_NONE'', 0), (''R_V6CLANG_8'', 1), (''R_V6CLANG_16'', 2), (''R_V6CLANG_LO8'', 3),
    (''R_V6CLANG_HI8'', 4), (''R_V6CLANG_32'', 5)]"

definition MC :: "string \<Rightarrow> nat" where
  "MC n = the (map_of RelocType n)"

definition LLD :: "string \<Rightarrow> nat" where
  "LLD n = the (map_of lld_RelocType n)"

text \<open>The number that the object writer gives a fixup which it turns into a relocation.\<close>

fun getRelocType :: "MCFixupKind \<Rightarrow> nat" where
  "getRelocType FK_Data_1 = MC ''R_V6CLANG_8''"
| "getRelocType fixup_v6clang_8 = MC ''R_V6CLANG_8''"
| "getRelocType FK_Data_2 = MC ''R_V6CLANG_16''"
| "getRelocType fixup_v6clang_16 = MC ''R_V6CLANG_16''"
| "getRelocType FK_Data_4 = MC ''R_V6CLANG_32''"
| "getRelocType fixup_v6clang_lo8 = MC ''R_V6CLANG_LO8''"
| "getRelocType fixup_v6clang_hi8 = MC ''R_V6CLANG_HI8''"
| "getRelocType (FK_Other _) = MC ''R_V6CLANG_NONE''"

section \<open>Relocations of the linker (lld/ELF/Arch/V6Clang.cpp, Target.h)\<close>

datatype (plugins only: code size) RelExpr = R_ABS | R_NONE

text \<open>\<open>getRelExpr\<close> returns the expression and whether it reported an error.\<close>

definition getRelExpr :: "nat \<Rightarrow> RelExpr \<times> bool" where
  "getRelExpr type =
    (if type \<in> {LLD ''R_V6CLANG_8'', LLD ''R_V6CLANG_16'', LLD ''R_V6CLANG_32'', LLD ''R_V6CLANG_LO8'',
         LLD ''R_V6CLANG_HI8''}
     then (R_ABS, False) else (R_NONE, True))"

text \<open>The range check: true when it reports an error.\<close>

definition checkIntUInt :: "u64 \<Rightarrow> nat \<Rightarrow> bool" where
  "checkIntUInt v n = (v \<noteq> signed_take_bit (n - 1) v \<and> drop_bit n v \<noteq> 0)"

text \<open>The bytes that \<open>loc\<close> points to, from the start of the section, and whether an error is reported.\<close>

definition write16le :: "nat \<Rightarrow> u16 \<Rightarrow> byte list \<Rightarrow> byte list" where
  "write16le loc v Data = Data[loc := ucast v, loc + 1 := ucast (drop_bit 8 v)]"

definition write32le :: "nat \<Rightarrow> 32 word \<Rightarrow> byte list \<Rightarrow> byte list" where
  "write32le loc v Data = Data[loc := ucast v, loc + 1 := ucast (drop_bit 8 v), loc + 2 := ucast (drop_bit 16 v),
     loc + 3 := ucast (drop_bit 24 v)]"

definition relocate :: "nat \<Rightarrow> nat \<Rightarrow> byte list \<Rightarrow> u64 \<Rightarrow> byte list \<times> bool" where
  "relocate type loc Data val =
    (if type = LLD ''R_V6CLANG_8'' then (Data[loc := ucast (val AND 0xFF)], checkIntUInt val 8)
     else if type = LLD ''R_V6CLANG_16'' then (write16le loc (ucast (val AND 0xFFFF)) Data, checkIntUInt val 16)
     else if type = LLD ''R_V6CLANG_32'' then (write32le loc (ucast val) Data, checkIntUInt val 32)
     else if type = LLD ''R_V6CLANG_LO8'' then (Data[loc := ucast (val AND 0xFF)], False)
     else if type = LLD ''R_V6CLANG_HI8'' then (Data[loc := ucast (drop_bit 8 val AND 0xFF)], False)
     else (Data, True))"

section \<open>Both patch alike\<close>

lemma reloc_numbers [simp]:
  "MC ''R_V6CLANG_NONE'' = 0" "MC ''R_V6CLANG_8'' = 1" "MC ''R_V6CLANG_16'' = 2" "MC ''R_V6CLANG_LO8'' = 3"
  "MC ''R_V6CLANG_HI8'' = 4" "MC ''R_V6CLANG_32'' = 5"
  "LLD ''R_V6CLANG_NONE'' = 0" "LLD ''R_V6CLANG_8'' = 1" "LLD ''R_V6CLANG_16'' = 2" "LLD ''R_V6CLANG_LO8'' = 3"
  "LLD ''R_V6CLANG_HI8'' = 4" "LLD ''R_V6CLANG_32'' = 5"
  by (simp_all add: MC_def LLD_def RelocType_def lld_RelocType_def)

text \<open>Bytes in a patched field.\<close>

fun fieldSize :: "MCFixupKind \<Rightarrow> nat" where
  "fieldSize FK_Data_2 = 2" | "fieldSize fixup_v6clang_16 = 2" | "fieldSize FK_Data_4 = 4"
| "fieldSize (FK_Other _) = 0" | "fieldSize _ = 1"

lemma byte_of [simp]:
  "(ucast (v AND 0xFF) :: byte) = ucast (v :: u64)"
  "(ucast (ucast (v AND 0xFFFF) :: u16) :: byte) = ucast v"
  "(ucast (drop_bit 8 (ucast (v AND 0xFFFF) :: u16)) :: byte) = ucast (drop_bit 8 v)"
  "(ucast (ucast v :: 32 word) :: byte) = ucast v"
  "(ucast (drop_bit 8 (ucast v :: 32 word)) :: byte) = ucast (drop_bit 8 v)"
  "(ucast (drop_bit 16 (ucast v :: 32 word)) :: byte) = ucast (drop_bit 16 v)"
  "(ucast (drop_bit 24 (ucast v :: 32 word)) :: byte) = ucast (drop_bit 24 v)"
proof -
  have [simp]: "(0xFF :: u64) = mask 8" "(0xFFFF :: u64) = mask 16" by (simp_all add: mask_eq_exp_minus_1)
  show
    "(ucast (v AND 0xFF) :: byte) = ucast (v :: u64)"
    "(ucast (ucast (v AND 0xFFFF) :: u16) :: byte) = ucast v"
    "(ucast (drop_bit 8 (ucast (v AND 0xFFFF) :: u16)) :: byte) = ucast (drop_bit 8 v)"
    "(ucast (ucast v :: 32 word) :: byte) = ucast v"
    "(ucast (drop_bit 8 (ucast v :: 32 word)) :: byte) = ucast (drop_bit 8 v)"
    "(ucast (drop_bit 16 (ucast v :: 32 word)) :: byte) = ucast (drop_bit 16 v)"
    "(ucast (drop_bit 24 (ucast v :: 32 word)) :: byte) = ucast (drop_bit 24 v)"
    by (rule bit_word_eqI; auto simp: bit_simps)+
qed

text \<open>
  C24.  A fixup that the assembler resolves itself and one that it leaves to the linker as a relocation
  patch the same bytes: for every kind of this target whose field lies in the data, \<open>applyFixup\<close>
  with a value gives what \<open>relocate\<close> gives with the relocation number of the kind, the linker
  recognises that number as an absolute relocation, and only the bytes of the field change.  The
  assembler does no range check; the linker reports values that fit the field neither signed nor
  unsigned, except for lo8 and hi8.
\<close>

theorem applyFixup_relocate:
  assumes "fieldSize Kind \<noteq> 0" "Offset + fieldSize Kind \<le> length Data"
  shows "applyFixup Kind Offset Data Value = Some (fst (relocate (getRelocType Kind) Offset Data Value)) \<and>
    getRelExpr (getRelocType Kind) = (R_ABS, False) \<and>
    snd (relocate (getRelocType Kind) Offset Data Value) =
      (Kind \<notin> {fixup_v6clang_lo8, fixup_v6clang_hi8} \<and> checkIntUInt Value (8 * fieldSize Kind)) \<and>
    length (fst (relocate (getRelocType Kind) Offset Data Value)) = length Data \<and>
    take Offset (fst (relocate (getRelocType Kind) Offset Data Value)) = take Offset Data \<and>
    drop (Offset + fieldSize Kind) (fst (relocate (getRelocType Kind) Offset Data Value))
      = drop (Offset + fieldSize Kind) Data"
  using assms
  by (cases Kind) (simp_all add: applyFixup_def relocate_def getRelExpr_def write16le_def write32le_def)

theorem applyFixup_relocate_witness:
  "applyFixup fixup_v6clang_16 1 [195, 0, 0] 0x1234 = Some [195, 0x34, 0x12] \<and>
   fst (relocate (getRelocType fixup_v6clang_16) 1 [195, 0, 0] 0x1234) = [195, 0x34, 0x12]"
  using applyFixup_relocate [of fixup_v6clang_16 1 "[195, 0, 0]" "0x1234"]
  by (simp add: relocate_def write16le_def)

text \<open>The word that the bytes of a field hold, lowest byte first.\<close>

definition fieldValue :: "byte list \<Rightarrow> u64" where
  "fieldValue bs = foldr (\<lambda>b w. ucast b OR push_bit 8 w) bs 0"

lemma take_bit_drop_bit: "drop_bit n v = 0 \<longleftrightarrow> take_bit n v = (v :: u64)"
  by (metis take_bit_eq_self_iff_drop_bit_eq_0)

lemma fieldValue_bytes:
  "fieldValue [ucast v] = take_bit 8 v"
  "fieldValue [ucast v, ucast (drop_bit 8 v)] = take_bit 16 v"
  "fieldValue [ucast v, ucast (drop_bit 8 v), ucast (drop_bit 16 v), ucast (drop_bit 24 v)] = take_bit 32 v"
proof -
  have [simp]: "n < 32 \<Longrightarrow> 24 \<le> n \<Longrightarrow> 24 + (n - 24) = n" for n :: nat by simp
  show "fieldValue [ucast v] = take_bit 8 v"
    by (rule bit_word_eqI) (auto simp: fieldValue_def bit_simps)
  show "fieldValue [ucast v, ucast (drop_bit 8 v)] = take_bit 16 v"
    by (rule bit_word_eqI) (auto simp: fieldValue_def bit_simps not_less)
  show "fieldValue [ucast v, ucast (drop_bit 8 v), ucast (drop_bit 16 v), ucast (drop_bit 24 v)] = take_bit 32 v"
    by (rule bit_word_eqI, clarsimp simp: fieldValue_def bit_simps not_less, rename_tac n,
      case_tac "n < 8"; case_tac "n < 16"; case_tac "n < 24") (auto simp: not_less)
qed

lemma patched_field:
  "loc < length Data \<Longrightarrow> take (Suc 0) (drop loc (Data[loc := a])) = [a]"
  "loc + 1 < length Data \<Longrightarrow> take 2 (drop loc (Data[loc := a, Suc loc := b])) = [a, b]"
  "loc + 3 < length Data \<Longrightarrow> take 4 (drop loc (Data[loc := a, Suc loc := b, Suc (Suc loc) := c, loc + 3 := d])) = [a, b, c, d]"
  by (rule nth_equalityI; auto simp: less_Suc_eq numeral_eq_Suc nth_list_update)+

lemma checkIntUInt_iff:
  assumes "0 < k"
  shows "\<not> checkIntUInt v k \<longleftrightarrow> v = take_bit k v \<or> v = signed_take_bit (k - 1) (take_bit k v)"
  using assms take_bit_drop_bit [of k v] by (auto simp: checkIntUInt_def signed_take_bit_take_bit)

text \<open>
  C25.  The linker accepts a value for a field of 8, 16 or 32 bits exactly when the field still tells the
  value: it is the unsigned or the two's complement reading of the bytes written.  Otherwise it
  reports a range error.
\<close>

theorem relocate_reads_back:
  assumes "(type, n) \<in> {(LLD ''R_V6CLANG_8'', 1), (LLD ''R_V6CLANG_16'', 2), (LLD ''R_V6CLANG_32'', 4)}"
    "loc + n \<le> length Data" "relocate type loc Data val = (Data', err)"
  shows "\<not> err \<longleftrightarrow> val = fieldValue (take n (drop loc Data'))
    \<or> val = signed_take_bit (8 * n - 1) (fieldValue (take n (drop loc Data')))"
  using assms checkIntUInt_iff [of 8 val] checkIntUInt_iff [of 16 val] checkIntUInt_iff [of 32 val]
  by (elim insertE; simp add: relocate_def write16le_def write32le_def fieldValue_bytes patched_field
    split: if_splits; clarsimp simp: fieldValue_bytes patched_field)

theorem relocate_reads_back_witness:
  "\<not> snd (relocate 2 1 [195, 0, 0] 0x1234) \<and> fieldValue (take 2 (drop 1 (fst (relocate 2 1 [195, 0, 0] 0x1234)))) = 0x1234"
  using relocate_reads_back [of 2 2 1 "[195, 0, 0]" "0x1234" "[195, 0x34, 0x12]" False]
  by (simp add: relocate_def write16le_def fieldValue_def checkIntUInt_def)

end
