(* ===== verification/MCEncode.thy ===== *)
theory MCEncode
  imports Exec MCFixup
begin

text \<open>
  From machine instructions to bytes.  V6ClangMCInstLower.cpp turns a machine instruction into an MC
  instruction, V6ClangMCCodeEmitter.cpp encodes it and records a fixup for an operand that is an
  expression, V6ClangMCExpr.cpp folds the low and high byte of constants.  The operands and the bit
  layout of every instruction are those of V6ClangInstrInfo.td and V6ClangInstrFormats.td.
\<close>

section \<open>MC expressions and instructions\<close>

datatype (plugins only: code size) VariantKind = VK_V6CLANG_LO8 | VK_V6CLANG_HI8

datatype (plugins only: code size) mc_expr =
    MCSymbolRefExpr string
  | MCConstantExpr int
  | MCAddExpr mc_expr mc_expr
  | V6ClangMCExpr VariantKind mc_expr

datatype (plugins only: code size) mc_operand = MCReg preg | MCImm int | MCExpr mc_expr

record mc_inst =
  mcOpcode :: opcode
  mcOperands :: "mc_operand list"

text \<open>The value of a relocatable expression: a symbol, if any, and a constant.\<close>

record mc_value =
  SymA :: "string option"
  Cst :: int

text \<open>
  V6ClangMCExpr.cpp:28-48.  \<open>Inner\<close> is what the expression inside evaluates to; only a constant is
  folded.
\<close>

definition evaluateAsRelocatableImpl :: "VariantKind \<Rightarrow> mc_value option \<Rightarrow> mc_value option" where
  "evaluateAsRelocatableImpl Kind Inner = (case Inner of
     None \<Rightarrow> None
   | Some Value \<Rightarrow>
     if SymA Value = None then
       Some \<lparr>SymA = None, Cst = (if Kind = VK_V6CLANG_LO8 then Cst Value AND 0xFF else drop_bit 8 (Cst Value) AND 0xFF)\<rparr>
     else Some Value)"

section \<open>Lowering (V6ClangMCInstLower.cpp)\<close>

definition lowerSymbolOperand :: "target_flag \<Rightarrow> int \<Rightarrow> string \<Rightarrow> mc_operand" where
  "lowerSymbolOperand TF Offset Sym =
    (let Expr = MCSymbolRefExpr Sym;
         Expr = (if Offset \<noteq> 0 then MCAddExpr Expr (MCConstantExpr Offset) else Expr);
         Expr = (if TF = MO_LO8 then V6ClangMCExpr VK_V6CLANG_LO8 Expr
                 else if TF = MO_HI8 then V6ClangMCExpr VK_V6CLANG_HI8 Expr else Expr)
     in MCExpr Expr)"

text \<open>
  One operand: \<open>None\<close> for a type the code does not know, an empty list for an operand it skips.
  \<open>blockSym\<close> is the label of a block.
\<close>

fun lowerOperand :: "(nat \<Rightarrow> string) \<Rightarrow> machine_operand \<Rightarrow> mc_operand list option" where
  "lowerOperand blockSym (MO_Register r _ imp _ _ _) = Some (if imp then [] else [MCReg r])"
| "lowerOperand blockSym (MO_Immediate i) = Some [MCImm i]"
| "lowerOperand blockSym (MO_GlobalAddress g off f) = Some [lowerSymbolOperand f off g]"
| "lowerOperand blockSym (MO_ExternalSymbol g f) = Some [lowerSymbolOperand f 0 g]"
| "lowerOperand blockSym (MO_MachineBasicBlock b) = Some [MCExpr (MCSymbolRefExpr (blockSym b))]"
| "lowerOperand blockSym (MO_RegisterMask _) = Some []"
| "lowerOperand blockSym (MO_MCSymbol g f) = Some [MCExpr
     (if f = MO_PATCH_IMM then MCAddExpr (MCSymbolRefExpr g) (MCConstantExpr 1) else MCSymbolRefExpr g)]"
| "lowerOperand blockSym (MO_FrameIndex _) = None"

fun lowerOperands :: "(nat \<Rightarrow> string) \<Rightarrow> machine_operand list \<Rightarrow> mc_operand list option" where
  "lowerOperands blockSym [] = Some []"
| "lowerOperands blockSym (MO # MOs) =
    (case (lowerOperand blockSym MO, lowerOperands blockSym MOs) of
       (Some xs, Some ys) \<Rightarrow> Some (xs @ ys) | _ \<Rightarrow> None)"

definition lowerInstruction :: "(nat \<Rightarrow> string) \<Rightarrow> machine_instr \<Rightarrow> mc_inst option" where
  "lowerInstruction blockSym MI =
    map_option (\<lambda>ops. \<lparr>mcOpcode = opcode MI, mcOperands = ops\<rparr>) (lowerOperands blockSym (operands MI))"

section \<open>Instruction formats (V6ClangInstrFormats.td)\<close>

definition V6ClangInstImplied :: "u64 \<Rightarrow> u64" where
  "V6ClangInstImplied op = take_bit 8 op"

definition V6ClangInstRegDstSrc :: "u64 \<Rightarrow> u64 \<Rightarrow> u64" where
  "V6ClangInstRegDstSrc rd rs = push_bit 6 0b01 OR push_bit 3 (take_bit 3 rd) OR take_bit 3 rs"

definition V6ClangInstRegDst :: "u64 \<Rightarrow> u64 \<Rightarrow> u64" where
  "V6ClangInstRegDst opc_lo rd = push_bit 6 0b00 OR push_bit 3 (take_bit 3 rd) OR take_bit 3 opc_lo"

definition V6ClangInstRegSrc :: "u64 \<Rightarrow> u64 \<Rightarrow> u64" where
  "V6ClangInstRegSrc opc rs = push_bit 6 0b10 OR push_bit 3 (take_bit 3 opc) OR take_bit 3 rs"

definition V6ClangInstRegPair :: "u64 \<Rightarrow> u64 \<Rightarrow> u64 \<Rightarrow> u64" where
  "V6ClangInstRegPair hi lo rp = push_bit 6 (take_bit 2 hi) OR push_bit 4 (take_bit 2 rp) OR take_bit 4 lo"

definition V6ClangInstImm8Dst :: "u64 \<Rightarrow> u64 \<Rightarrow> u64" where
  "V6ClangInstImm8Dst rd imm =
    push_bit 14 0b00 OR push_bit 11 (take_bit 3 rd) OR push_bit 8 0b110 OR take_bit 8 imm"

definition V6ClangInstImm8Opc :: "u64 \<Rightarrow> u64 \<Rightarrow> u64" where
  "V6ClangInstImm8Opc opc imm =
    push_bit 14 0b11 OR push_bit 11 (take_bit 3 opc) OR push_bit 8 0b110 OR take_bit 8 imm"

definition V6ClangInstImm16Pair :: "u64 \<Rightarrow> u64 \<Rightarrow> u64" where
  "V6ClangInstImm16Pair rp imm = push_bit 22 0b00 OR push_bit 20 (take_bit 2 rp) OR push_bit 16 0b0001
     OR push_bit 8 (take_bit 8 imm) OR take_bit 8 (drop_bit 8 imm)"

definition V6ClangInstImm16Opc :: "u64 \<Rightarrow> u64 \<Rightarrow> u64" where
  "V6ClangInstImm16Opc op addr = push_bit 16 (take_bit 8 op) OR push_bit 8 (take_bit 8 addr) OR take_bit 8 (drop_bit 8 addr)"

definition V6ClangInstRST :: "u64 \<Rightarrow> u64" where
  "V6ClangInstRST n = push_bit 6 0b11 OR push_bit 3 (take_bit 3 n) OR 0b111"

definition V6ClangInstIO :: "u64 \<Rightarrow> u64 \<Rightarrow> u64" where
  "V6ClangInstIO op port = push_bit 8 (take_bit 8 op) OR take_bit 8 port"

section \<open>Instructions (V6ClangInstrInfo.td)\<close>

text \<open>
  The operands of an instruction, outputs before inputs: a register of a class, the register of an
  earlier operand (a tied pair), or an immediate or address.
\<close>

datatype (plugins only: code size) td_operand = Cls "preg list" | Tied nat | Imm | Target

abbreviation "GR8s \<equiv> Cls [A, L, H, E, D, C, B]"
abbreviation "Accs \<equiv> Cls [A]"
abbreviation "Alls \<equiv> Cls [HL, DE, BC, SP]"
abbreviation "Idxs \<equiv> Cls [BC, DE]"
abbreviation "Stacks \<equiv> Cls [HL, DE, BC, PSW]"
abbreviation "Ptrs \<equiv> Cls [HL]"

fun td_operands :: "opcode \<Rightarrow> td_operand list option" where
  "td_operands MOVrr = Some [GR8s, GR8s]"
| "td_operands MOVrM = Some [GR8s]"
| "td_operands MOVMr = Some [GR8s]"
| "td_operands MVIr = Some [GR8s, Imm]"
| "td_operands MVIM = Some [Imm]"
| "td_operands LDA = Some [Accs, Imm]" | "td_operands STA = Some [Accs, Imm]"
| "td_operands LDAX = Some [Accs, Idxs]" | "td_operands STAX = Some [Accs, Idxs]"
| "td_operands LHLD = Some [Ptrs, Imm]" | "td_operands SHLD = Some [Ptrs, Imm]"
| "td_operands LXI = Some [Alls, Imm]"
| "td_operands PUSH = Some [Stacks]" | "td_operands POP = Some [Stacks]"
| "td_operands (ALUr op) = Some (if op = CMP then [Accs, GR8s] else [Accs, Tied 0, GR8s])"
| "td_operands (ALUM op) = Some (if op = CMP then [Accs] else [Accs, Tied 0])"
| "td_operands (ALUI op) = Some (if op = CMP then [Accs, Imm] else [Accs, Tied 0, Imm])"
| "td_operands DAD = Some [Alls]"
| "td_operands INX = Some [Alls, Tied 0]" | "td_operands DCX = Some [Alls, Tied 0]"
| "td_operands INRr = Some [GR8s, Tied 0]" | "td_operands DCRr = Some [GR8s, Tied 0]"
| "td_operands RLC = Some [Accs, Tied 0]" | "td_operands RRC = Some [Accs, Tied 0]"
| "td_operands RAL = Some [Accs, Tied 0]" | "td_operands RAR = Some [Accs, Tied 0]"
| "td_operands CMA = Some [Accs, Tied 0]" | "td_operands DAA = Some [Accs, Tied 0]"
| "td_operands JMP = Some [Target]" | "td_operands (Jcc _) = Some [Target]"
| "td_operands CALL = Some [Target]" | "td_operands (Ccc _) = Some [Target]"
| "td_operands V6CLANG_TAILJMP = Some [Target]"
| "td_operands IN = Some [Accs, Imm]" | "td_operands OUT = Some [Accs, Imm]"
| "td_operands COPY = None" | "td_operands DBG_VALUE = None" | "td_operands INLINEASM = None"
| "td_operands (PSEUDO _) = None"
| "td_operands _ = Some []"

fun getSize :: "opcode \<Rightarrow> nat" where
  "getSize MVIr = 2" | "getSize MVIM = 2" | "getSize (ALUI _) = 2" | "getSize IN = 2" | "getSize OUT = 2"
| "getSize LDA = 3" | "getSize STA = 3" | "getSize LHLD = 3" | "getSize SHLD = 3" | "getSize LXI = 3"
| "getSize JMP = 3" | "getSize (Jcc _) = 3" | "getSize CALL = 3" | "getSize (Ccc _) = 3"
| "getSize V6CLANG_TAILJMP = 3"
| "getSize opc = (if td_operands opc = None then 0 else 1)"

fun alu_code :: "aluop \<Rightarrow> u64" where
  "alu_code ADD = 0b000" | "alu_code ADC = 0b001" | "alu_code SUB = 0b010" | "alu_code SBB = 0b011"
| "alu_code ANA = 0b100" | "alu_code XRA = 0b101" | "alu_code ORA = 0b110" | "alu_code CMP = 0b111"

fun ALUM_op :: "aluop \<Rightarrow> u64" where
  "ALUM_op ADD = 0x86" | "ALUM_op ADC = 0x8E" | "ALUM_op SUB = 0x96" | "ALUM_op SBB = 0x9E"
| "ALUM_op ANA = 0xA6" | "ALUM_op XRA = 0xAE" | "ALUM_op ORA = 0xB6" | "ALUM_op CMP = 0xBE"

fun Jcc_op :: "cond \<Rightarrow> u64" where
  "Jcc_op COND_NZ = 0xC2" | "Jcc_op COND_Z = 0xCA" | "Jcc_op COND_NC = 0xD2" | "Jcc_op COND_C = 0xDA"
| "Jcc_op COND_PO = 0xE2" | "Jcc_op COND_PE = 0xEA" | "Jcc_op COND_P = 0xF2" | "Jcc_op COND_M = 0xFA"

fun Ccc_op :: "cond \<Rightarrow> u64" where
  "Ccc_op COND_NZ = 0xC4" | "Ccc_op COND_Z = 0xCC" | "Ccc_op COND_NC = 0xD4" | "Ccc_op COND_C = 0xDC"
| "Ccc_op COND_PO = 0xE4" | "Ccc_op COND_PE = 0xEC" | "Ccc_op COND_P = 0xF4" | "Ccc_op COND_M = 0xFC"

fun Rcc_op :: "cond \<Rightarrow> u64" where
  "Rcc_op COND_NZ = 0xC0" | "Rcc_op COND_Z = 0xC8" | "Rcc_op COND_NC = 0xD0" | "Rcc_op COND_C = 0xD8"
| "Rcc_op COND_PO = 0xE0" | "Rcc_op COND_PE = 0xE8" | "Rcc_op COND_P = 0xF0" | "Rcc_op COND_M = 0xF8"

text \<open>
  The encoding of an instruction from the encodings of its operands, by operand number.  A class
  whose fixed bits an instruction overrides is written out.
\<close>

fun getBinaryCodeForInstr :: "opcode \<Rightarrow> (nat \<Rightarrow> u64) \<Rightarrow> u64" where
  "getBinaryCodeForInstr MOVrr f = V6ClangInstRegDstSrc (f 0) (f 1)"
| "getBinaryCodeForInstr MOVrM f = push_bit 6 0b01 OR push_bit 3 (take_bit 3 (f 0)) OR 0b110"
| "getBinaryCodeForInstr MOVMr f = push_bit 6 0b01 OR push_bit 3 0b110 OR take_bit 3 (f 0)"
| "getBinaryCodeForInstr MVIr f = V6ClangInstImm8Dst (f 0) (f 1)"
| "getBinaryCodeForInstr MVIM f = push_bit 14 0b00 OR push_bit 11 0b110 OR push_bit 8 0b110 OR take_bit 8 (f 0)"
| "getBinaryCodeForInstr LDA f = V6ClangInstImm16Opc 0x3A (f 1)"
| "getBinaryCodeForInstr STA f = V6ClangInstImm16Opc 0x32 (f 1)"
| "getBinaryCodeForInstr LDAX f = V6ClangInstRegPair 0b00 0b1010 (f 1)"
| "getBinaryCodeForInstr STAX f = V6ClangInstRegPair 0b00 0b0010 (f 1)"
| "getBinaryCodeForInstr LHLD f = V6ClangInstImm16Opc 0x2A (f 1)"
| "getBinaryCodeForInstr SHLD f = V6ClangInstImm16Opc 0x22 (f 1)"
| "getBinaryCodeForInstr LXI f = V6ClangInstImm16Pair (f 0) (f 1)"
| "getBinaryCodeForInstr XCHG f = V6ClangInstImplied 0xEB"
| "getBinaryCodeForInstr PUSH f = V6ClangInstRegPair 0b11 0b0101 (f 0)"
| "getBinaryCodeForInstr POP f = V6ClangInstRegPair 0b11 0b0001 (f 0)"
| "getBinaryCodeForInstr SPHL f = V6ClangInstImplied 0xF9"
| "getBinaryCodeForInstr XTHL f = V6ClangInstImplied 0xE3"
| "getBinaryCodeForInstr (ALUr op) f = V6ClangInstRegSrc (alu_code op) (f (if op = CMP then 1 else 2))"
| "getBinaryCodeForInstr (ALUM op) f = V6ClangInstImplied (ALUM_op op)"
| "getBinaryCodeForInstr (ALUI op) f = V6ClangInstImm8Opc (alu_code op) (f (if op = CMP then 1 else 2))"
| "getBinaryCodeForInstr DAD f = V6ClangInstRegPair 0b00 0b1001 (f 0)"
| "getBinaryCodeForInstr INX f = V6ClangInstRegPair 0b00 0b0011 (f 0)"
| "getBinaryCodeForInstr DCX f = V6ClangInstRegPair 0b00 0b1011 (f 0)"
| "getBinaryCodeForInstr INRr f = V6ClangInstRegDst 0b100 (f 0)"
| "getBinaryCodeForInstr DCRr f = V6ClangInstRegDst 0b101 (f 0)"
| "getBinaryCodeForInstr INRM f = V6ClangInstImplied 0x34"
| "getBinaryCodeForInstr DCRM f = V6ClangInstImplied 0x35"
| "getBinaryCodeForInstr RLC f = V6ClangInstImplied 0x07"
| "getBinaryCodeForInstr RRC f = V6ClangInstImplied 0x0F"
| "getBinaryCodeForInstr RAL f = V6ClangInstImplied 0x17"
| "getBinaryCodeForInstr RAR f = V6ClangInstImplied 0x1F"
| "getBinaryCodeForInstr JMP f = V6ClangInstImm16Opc 0xC3 (f 0)"
| "getBinaryCodeForInstr (Jcc c) f = V6ClangInstImm16Opc (Jcc_op c) (f 0)"
| "getBinaryCodeForInstr PCHL f = V6ClangInstImplied 0xE9"
| "getBinaryCodeForInstr CALL f = V6ClangInstImm16Opc 0xCD (f 0)"
| "getBinaryCodeForInstr (Ccc c) f = V6ClangInstImm16Opc (Ccc_op c) (f 0)"
| "getBinaryCodeForInstr RET f = V6ClangInstImplied 0xC9"
| "getBinaryCodeForInstr (Rcc c) f = V6ClangInstImplied (Rcc_op c)"
| "getBinaryCodeForInstr V6CLANG_TAILJMP f = V6ClangInstImm16Opc 0xC3 (f 0)"
| "getBinaryCodeForInstr (RST n) f = V6ClangInstRST (of_nat n)"
| "getBinaryCodeForInstr NOP f = V6ClangInstImplied 0x00"
| "getBinaryCodeForInstr HLT f = V6ClangInstImplied 0x76"
| "getBinaryCodeForInstr CMA f = V6ClangInstImplied 0x2F"
| "getBinaryCodeForInstr STC f = V6ClangInstImplied 0x37"
| "getBinaryCodeForInstr CMC f = V6ClangInstImplied 0x3F"
| "getBinaryCodeForInstr DAA f = V6ClangInstImplied 0x27"
| "getBinaryCodeForInstr EI f = V6ClangInstImplied 0xFB"
| "getBinaryCodeForInstr DI f = V6ClangInstImplied 0xF3"
| "getBinaryCodeForInstr IN f = V6ClangInstIO 0xDB (f 1)"
| "getBinaryCodeForInstr OUT f = V6ClangInstIO 0xD3 (f 1)"
| "getBinaryCodeForInstr _ f = 0"

text \<open>The operands that appear in the encoding, in the order in which they are encoded.\<close>

fun encodedOperands :: "opcode \<Rightarrow> nat list" where
  "encodedOperands MOVrr = [0, 1]" | "encodedOperands MOVrM = [0]" | "encodedOperands MOVMr = [0]"
| "encodedOperands MVIr = [0, 1]" | "encodedOperands MVIM = [0]"
| "encodedOperands LDA = [1]" | "encodedOperands STA = [1]" | "encodedOperands LDAX = [1]"
| "encodedOperands STAX = [1]" | "encodedOperands LHLD = [1]" | "encodedOperands SHLD = [1]"
| "encodedOperands LXI = [0, 1]" | "encodedOperands PUSH = [0]" | "encodedOperands POP = [0]"
| "encodedOperands (ALUr op) = [if op = CMP then 1 else 2]"
| "encodedOperands (ALUI op) = [if op = CMP then 1 else 2]"
| "encodedOperands DAD = [0]" | "encodedOperands INX = [0]" | "encodedOperands DCX = [0]"
| "encodedOperands INRr = [0]" | "encodedOperands DCRr = [0]"
| "encodedOperands JMP = [0]" | "encodedOperands (Jcc _) = [0]" | "encodedOperands CALL = [0]"
| "encodedOperands (Ccc _) = [0]" | "encodedOperands V6CLANG_TAILJMP = [0]"
| "encodedOperands IN = [1]" | "encodedOperands OUT = [1]"
| "encodedOperands _ = []"

section \<open>The code emitter (V6ClangMCCodeEmitter.cpp)\<close>

record MCFixup =
  fixOffset :: nat
  fixValue :: mc_expr
  fixKind :: MCFixupKind

text \<open>\<open>HWEncoding\<close> of V6ClangRegisterInfo.td.\<close>

fun getEncodingValue :: "preg \<Rightarrow> u64" where
  "getEncodingValue B = 0" | "getEncodingValue C = 1" | "getEncodingValue D = 2" | "getEncodingValue E = 3"
| "getEncodingValue H = 4" | "getEncodingValue L = 5" | "getEncodingValue A = 7" | "getEncodingValue FLAGS = 6"
| "getEncodingValue BC = 0" | "getEncodingValue DE = 1" | "getEncodingValue HL = 2" | "getEncodingValue PSW = 3"
| "getEncodingValue SP = 3" | "getEncodingValue PC = 0"

text \<open>The value of an operand and the fixups it adds; \<open>None\<close> for a failed assertion.\<close>

fun getMachineOpValue :: "opcode \<Rightarrow> mc_operand \<Rightarrow> (u64 \<times> MCFixup list) option" where
  "getMachineOpValue opc (MCReg r) = Some (getEncodingValue r, [])"
| "getMachineOpValue opc (MCImm i) = Some (word_of_int i, [])"
| "getMachineOpValue opc (MCExpr Expr) =
    (case Expr of
       V6ClangMCExpr Kind _ \<Rightarrow>
         if getSize opc = 2 then Some (0, [\<lparr>fixOffset = 1, fixValue = Expr,
           fixKind = (if Kind = VK_V6CLANG_LO8 then fixup_v6clang_lo8 else fixup_v6clang_hi8)\<rparr>])
         else None
     | _ \<Rightarrow>
         if getSize opc = 3 then Some (0, [\<lparr>fixOffset = 1, fixValue = Expr, fixKind = FK_Data_2\<rparr>])
         else if getSize opc = 2 then Some (0, [\<lparr>fixOffset = 1, fixValue = Expr, fixKind = FK_Data_1\<rparr>])
         else None)"

definition opValues :: "mc_inst \<Rightarrow> (u64 \<times> MCFixup list) option list" where
  "opValues MI = map (\<lambda>i. getMachineOpValue (mcOpcode MI) (mcOperands MI ! i)) (encodedOperands (mcOpcode MI))"

definition opValue :: "mc_inst \<Rightarrow> nat \<Rightarrow> u64" where
  "opValue MI i = (case getMachineOpValue (mcOpcode MI) (mcOperands MI ! i) of Some (v, _) \<Rightarrow> v | None \<Rightarrow> 0)"

definition encodeInstruction :: "mc_inst \<Rightarrow> (byte list \<times> MCFixup list) option" where
  "encodeInstruction MI =
    (let Size = getSize (mcOpcode MI) in
     if td_operands (mcOpcode MI) = None then None
     else if None \<in> set (opValues MI) then None
     else let Binary = getBinaryCodeForInstr (mcOpcode MI) (opValue MI) in
       Some (map (\<lambda>i. ucast (drop_bit ((Size - 1 - i) * 8) Binary AND 0xFF)) [0..<Size],
         concat (map (snd \<circ> the) (opValues MI))))"

section \<open>The high byte of a constant\<close>

text \<open>
  \<open>evaluateAsRelocatableImpl\<close> already takes the high byte of a constant, and the fixup kind of the
  expression makes \<open>applyFixup\<close> take it again: whatever the constant, the byte written is zero.
\<close>

lemma hi8_of_byte: "drop_bit 8 (word_of_int (k AND 255) :: u64) AND 255 = 0"
proof -
  have m: "(255 :: int) = mask 8" by (simp add: mask_eq_exp_minus_1)
  have "drop_bit 8 (word_of_int (take_bit 8 k) :: u64) = 0"
    by (rule bit_word_eqI) (auto simp: bit_simps)
  then show ?thesis unfolding m by (simp add: take_bit_eq_mask)
qed

theorem hi8_constant_lost:
  assumes "Offset < length Data"
  shows "\<exists>r. evaluateAsRelocatableImpl VK_V6CLANG_HI8 (Some \<lparr>SymA = None, Cst = c\<rparr>) = Some r \<and>
    applyFixup fixup_v6clang_hi8 Offset Data (word_of_int (Cst r)) = Some (Data[Offset := 0])"
  using assms hi8_of_byte [of "drop_bit 8 c"]
  by (simp add: evaluateAsRelocatableImpl_def applyFixup_def del: byte_of)

end
