(* ===== verification/MachineCode.thy ===== *)
theory MachineCode
  imports MCEncode
begin

text \<open>
  The bytes of an instruction, linked, and the processor that fetches them.  The processor decodes an
  instruction by the opcode table of the Intel 8080 and executes it; the theorems say that it does
  with the bytes what \<open>exec\<close> says of the machine instruction, and with the bytes of a block what
  \<open>run\<close> says of the block.
\<close>

section \<open>Linking an instruction\<close>

text \<open>A relocation has the value S + A, the address of its symbol and its addend.\<close>

fun relocValue :: "senv \<Rightarrow> mc_expr \<Rightarrow> u64" where
  "relocValue env (MCSymbolRefExpr s) = ucast (symaddr env s)"
| "relocValue env (MCConstantExpr c) = word_of_int c"
| "relocValue env (MCAddExpr a b) = relocValue env a + relocValue env b"
| "relocValue env (V6ClangMCExpr _ e) = relocValue env e"

definition applyRelocation :: "senv \<Rightarrow> MCFixup \<Rightarrow> byte list \<Rightarrow> byte list" where
  "applyRelocation env F Data =
    fst (relocate (getRelocType (fixKind F)) (fixOffset F) Data (relocValue env (fixValue F)))"

definition linkInstruction :: "(nat \<Rightarrow> string) \<Rightarrow> senv \<Rightarrow> machine_instr \<Rightarrow> byte list option" where
  "linkInstruction blockSym env MI =
    Option.bind (lowerInstruction blockSym MI) (\<lambda>mi.
      map_option (\<lambda>(Data, Fixups). fold (applyRelocation env) Fixups Data) (encodeInstruction mi))"

section \<open>The processor\<close>

definition reg_of :: "nat \<Rightarrow> preg" where
  "reg_of n = [B, C, D, E, H, L, FLAGS, A] ! n"

definition pair_of :: "preg \<Rightarrow> nat \<Rightarrow> preg" where
  "pair_of hi3 p = [BC, DE, HL, hi3] ! p"

definition alu_of :: "nat \<Rightarrow> aluop" where
  "alu_of n = [ADD, ADC, SUB, SBB, ANA, XRA, ORA, CMP] ! n"

definition cond_nr :: "nat \<Rightarrow> cond" where
  "cond_nr n = [COND_NZ, COND_Z, COND_NC, COND_C, COND_PO, COND_PE, COND_P, COND_M] ! n"

text \<open>
  The opcode table, by the two high bits, the middle three and the low three: the operation, its
  registers and the number of bytes that follow.
\<close>

definition decode0 :: "nat \<Rightarrow> nat \<Rightarrow> (opcode \<times> preg list \<times> nat) option" where
  "decode0 y z = (let rp = pair_of SP (y div 2) in
    if z = 0 then (if y = 0 then Some (NOP, [], 0) else None)
    else if z = 1 then Some (if even y then (LXI, [rp], 2) else (DAD, [rp], 0))
    else if z = 2 then Some ([(STAX, [A, BC], 0), (LDAX, [A, BC], 0), (STAX, [A, DE], 0), (LDAX, [A, DE], 0),
      (SHLD, [HL], 2), (LHLD, [HL], 2), (STA, [A], 2), (LDA, [A], 2)] ! y)
    else if z = 3 then Some (if even y then (INX, [rp, rp], 0) else (DCX, [rp, rp], 0))
    else if z = 4 then Some (if y = 6 then (INRM, [], 0) else (INRr, [reg_of y, reg_of y], 0))
    else if z = 5 then Some (if y = 6 then (DCRM, [], 0) else (DCRr, [reg_of y, reg_of y], 0))
    else if z = 6 then Some (if y = 6 then (MVIM, [], 1) else (MVIr, [reg_of y], 1))
    else Some ([RLC, RRC, RAL, RAR, DAA, CMA, STC, CMC] ! y, [], 0))"

definition decode3 :: "nat \<Rightarrow> nat \<Rightarrow> (opcode \<times> preg list \<times> nat) option" where
  "decode3 y z = (let rp = pair_of PSW (y div 2) in
    if z = 0 then Some (Rcc (cond_nr y), [], 0)
    else if z = 1 then (if even y then Some (POP, [rp], 0)
      else if y = 1 then Some (RET, [], 0) else if y = 5 then Some (PCHL, [], 0)
      else if y = 7 then Some (SPHL, [], 0) else None)
    else if z = 2 then Some (Jcc (cond_nr y), [], 2)
    else if z = 3 then (if y = 1 then None else Some ([(JMP, [], 2), (NOP, [], 0), (OUT, [A], 1), (IN, [A], 1),
      (XTHL, [], 0), (XCHG, [], 0), (DI, [], 0), (EI, [], 0)] ! y))
    else if z = 4 then Some (Ccc (cond_nr y), [], 2)
    else if z = 5 then (if even y then Some (PUSH, [rp], 0) else if y = 1 then Some (CALL, [], 2) else None)
    else if z = 6 then Some (ALUI (alu_of y), [], 1)
    else Some (RST y, [], 0))"

definition decode :: "byte \<Rightarrow> (opcode \<times> preg list \<times> nat) option" where
  "decode b = (let n = unat b; x = n div 64; y = n div 8 mod 8; z = n mod 8 in
    if x = 0 then decode0 y z
    else if x = 1 then Some (if y = 6 \<and> z = 6 then (HLT, [], 0) else if y = 6 then (MOVMr, [reg_of z], 0)
      else if z = 6 then (MOVrM, [reg_of y], 0) else (MOVrr, [reg_of y, reg_of z], 0))
    else if x = 2 then Some (if z = 6 then (ALUM (alu_of y), [], 0)
      else (ALUr (alu_of y), (if alu_of y = CMP then [A] else [A, A]) @ [reg_of z], 0))
    else decode3 y z)"

text \<open>
  One instruction of the processor: program counter and state, before and after.  HLT stops it; DAA and
  the other operations that are not jumps are those of \<open>step\<close>.
\<close>

definition cpu_step :: "senv \<Rightarrow> u16 \<times> cpu \<Rightarrow> (u16 \<times> cpu) option" where
  "cpu_step env ps = (let (pc, s) = ps; lo = mem s (pc + 1); hi = mem s (pc + 2); w = mk16 hi lo in
    case decode (mem s pc) of
      None \<Rightarrow> None
    | Some (opc, rs, n) \<Rightarrow>
      let nxt = pc + 1 + of_nat n in
      (case opc of
        JMP \<Rightarrow> Some (w, s)
      | Jcc c \<Rightarrow> Some (if cond_holds c (fl s) then w else nxt, s)
      | CALL \<Rightarrow> Some (w, push16 nxt s)
      | Ccc c \<Rightarrow> Some (if cond_holds c (fl s) then (w, push16 nxt s) else (nxt, s))
      | RST k \<Rightarrow> Some (of_nat (8 * k), push16 nxt s)
      | RET \<Rightarrow> Some (pop16 s, s\<lparr>sp := sp s + 2\<rparr>)
      | Rcc c \<Rightarrow> Some (if cond_holds c (fl s) then (pop16 s, s\<lparr>sp := sp s + 2\<rparr>) else (nxt, s))
      | PCHL \<Rightarrow> Some (getP HL s, s)
      | HLT \<Rightarrow> None
      | _ \<Rightarrow> map_option (\<lambda>(c, t). (nxt, t))
          (step env opc rs (if n = 0 then [] else if n = 1 then [ucast lo] else [w]) [] s)))"

section \<open>Well-formed operands\<close>

text \<open>
  The explicit operands of an instruction are those of its description, and a symbol carries only
  the flags that the lowering looks at.
\<close>

fun encoded_operand :: "machine_operand \<Rightarrow> bool" where
  "encoded_operand (MO_Register _ _ imp _ _ _) = (\<not> imp)"
| "encoded_operand (MO_RegisterMask _) = False"
| "encoded_operand _ = True"

fun imm_operand :: "machine_operand \<Rightarrow> bool" where
  "imm_operand (MO_Immediate _) = True"
| "imm_operand (MO_GlobalAddress _ _ f) = (f \<noteq> MO_PATCH_IMM)"
| "imm_operand (MO_ExternalSymbol _ f) = (f \<noteq> MO_PATCH_IMM)"
| "imm_operand (MO_MCSymbol _ f) = (f = MO_NO_FLAG \<or> f = MO_PATCH_IMM)"
| "imm_operand _ = False"

fun target_operand :: "machine_operand \<Rightarrow> bool" where
  "target_operand (MO_MachineBasicBlock _) = True"
| "target_operand x = imm_operand x"

fun td_match :: "machine_operand list \<Rightarrow> td_operand \<Rightarrow> machine_operand \<Rightarrow> bool" where
  "td_match ops (Cls rs) x = (\<exists>r \<in> set rs. getReg x = Some r)"
| "td_match ops (Tied i) x = (isReg x \<and> getReg x = getReg (ops ! i))"
| "td_match ops Imm x = imm_operand x"
| "td_match ops Target x = target_operand x"

definition wf_td :: "machine_instr \<Rightarrow> bool" where
  "wf_td m = (case td_operands (opcode m) of
     None \<Rightarrow> False
   | Some ts \<Rightarrow> let ops = filter encoded_operand (operands m) in list_all2 (td_match ops) ts ops)"

section \<open>Lowering keeps the explicit operands\<close>

fun lower1 :: "(nat \<Rightarrow> string) \<Rightarrow> machine_operand \<Rightarrow> mc_operand" where
  "lower1 blockSym x = (case lowerOperand blockSym x of Some (y # _) \<Rightarrow> y | _ \<Rightarrow> MCImm 0)"

lemma lowerOperands_explicit:
  "lowerOperands blockSym ops = Some mcs \<Longrightarrow> mcs = map (lower1 blockSym) (filter encoded_operand ops)"
proof (induction ops arbitrary: mcs)
  case (Cons x ops)
  then show ?case by (cases x) (auto split: option.splits)
qed simp

lemma ex_explicit:
  "ex_regs (filter encoded_operand ops) = ex_regs ops"
  "ex_vals env (filter encoded_operand ops) = ex_vals env ops"
  "ex_mbbs (filter encoded_operand ops) = ex_mbbs ops"
  by (induction ops; auto split: machine_operand.splits elim!: encoded_operand.elims)+

section \<open>Operand fields\<close>

lemma ucast_word_of_int [simp]:
  "(ucast (word_of_int k :: u64) :: byte) = word_of_int k" "(ucast (word_of_int k :: u16) :: byte) = word_of_int k"
  "(ucast (word_of_int k :: u64) :: u16) = word_of_int k"
  by (transfer, simp add: min_def)+

lemma ucast_u64 [simp]: "(ucast (ucast (v :: u64) :: u16) :: byte) = ucast v"
  by (rule bit_word_eqI) (auto simp: bit_simps)

lemma ucast_mask16 [simp]: "(ucast ((v :: u64) AND 65535) :: byte) = ucast v"
  using byte_of(2) [of v] by simp

lemma lo8_byte [simp]: "lo8 (ucast (b :: byte)) = b"
  by (rule bit_word_eqI) (auto simp: lo8_def bit_simps)

lemma low16: "lo8 (ucast (v :: u64)) = ucast v" "hi8 (ucast (v :: u64)) = ucast (drop_bit 8 v)"
  by (rule bit_word_eqI; auto simp: lo8_def hi8_def bit_simps)+

lemma addend: "a + word_of_int k = (ucast (ucast (a :: u16) + word_of_int k :: u64) :: u16)"
proof -
  have "a = word_of_int (uint a)" "(ucast a :: u64) = word_of_int (uint a)" by simp_all
  then show ?thesis by (metis of_int_add ucast_word_of_int(3))
qed

lemma addend_0: "a = (ucast (ucast (a :: u16) :: u64) :: u16)"
  by (rule bit_word_eqI) (auto simp: bit_simps)

lemma flag_part_no: "f \<noteq> MO_LO8 \<Longrightarrow> f \<noteq> MO_HI8 \<Longrightarrow> f \<noteq> MO_PATCH_IMM \<Longrightarrow> flag_part f v = v"
  by (cases f) auto

text \<open>The 16-bit value of an immediate or a target is that of its expression, or of the byte taken of it.\<close>

definition fieldval :: "senv \<Rightarrow> (nat \<Rightarrow> string) \<Rightarrow> machine_operand \<Rightarrow> u16 option" where
  "fieldval env blockSym x = (case x of
     MO_MachineBasicBlock b \<Rightarrow> Some (symaddr env (blockSym b)) | _ \<Rightarrow> opval env x)"

lemma field_lowered:
  assumes "target_operand x" "fieldval env blockSym x = Some v"
  shows "(\<exists>i. lower1 blockSym x = MCImm i \<and> v = word_of_int i) \<or>
    (\<exists>e. lower1 blockSym x = MCExpr e \<and> (\<nexists>K e'. e = V6ClangMCExpr K e') \<and> v = ucast (relocValue env e)) \<or>
    (\<exists>e. lower1 blockSym x = MCExpr (V6ClangMCExpr VK_V6CLANG_LO8 e) \<and> v = ucast (lo8 (ucast (relocValue env e)))) \<or>
    (\<exists>e. lower1 blockSym x = MCExpr (V6ClangMCExpr VK_V6CLANG_HI8 e) \<and> v = ucast (hi8 (ucast (relocValue env e))))"
  using assms
  by (cases x) (auto simp: fieldval_def lowerSymbolOperand_def Let_def addend addend [of _ 1, simplified]
    addend_0 [symmetric] flag_part_no split: if_splits)

lemma reloc_bytes:
  "applyRelocation env \<lparr>fixOffset = 1, fixValue = e, fixKind = FK_Data_2\<rparr> [b, x, y]
    = [b, ucast (relocValue env e), ucast (drop_bit 8 (relocValue env e))]"
  "applyRelocation env \<lparr>fixOffset = 1, fixValue = e, fixKind = FK_Data_1\<rparr> [b, x] = [b, ucast (relocValue env e)]"
  "applyRelocation env \<lparr>fixOffset = 1, fixValue = e, fixKind = fixup_v6clang_lo8\<rparr> [b, x] = [b, ucast (relocValue env e)]"
  "applyRelocation env \<lparr>fixOffset = 1, fixValue = e, fixKind = fixup_v6clang_hi8\<rparr> [b, x]
    = [b, ucast (drop_bit 8 (relocValue env e))]"
  by (simp_all add: applyRelocation_def relocate_def write16le_def)

lemma field3:
  assumes "target_operand x" "fieldval env blockSym x = Some v" "getSize opc = 3"
    "getMachineOpValue opc (lower1 blockSym x) = Some (w, fs)"
  shows "fold (applyRelocation env) fs [b, ucast w, ucast (drop_bit 8 w)] = [b, lo8 v, hi8 v]"
  using field_lowered [OF assms(1,2)] assms(3,4)
  by (auto simp: reloc_bytes low16 simp flip: ucast_word_of_int(3) split: mc_expr.splits simp del: lower1.simps One_nat_def)

lemma field2:
  assumes "target_operand x" "fieldval env blockSym x = Some v" "getSize opc = 2"
    "getMachineOpValue opc (lower1 blockSym x) = Some (w, fs)"
  shows "fold (applyRelocation env) fs [b, ucast w] = [b, lo8 v]"
  using field_lowered [OF assms(1,2)] assms(3,4)
  by (auto simp: reloc_bytes low16 simp flip: ucast_word_of_int(3) split: mc_expr.splits simp del: lower1.simps One_nat_def)

section \<open>Bytes of the formats\<close>

definition bytesOf :: "nat \<Rightarrow> u64 \<Rightarrow> byte list" where
  "bytesOf Size Binary = map (\<lambda>i. ucast (drop_bit ((Size - 1 - i) * 8) Binary)) [0..<Size]"

lemma bytes1: "bytesOf (Suc 0) v = [ucast v]"
  by (simp add: bytesOf_def)

lemma bytes2: "bytesOf 2 (push_bit 8 a OR take_bit 8 w) = [ucast a, ucast w]"
  by (auto simp: bytesOf_def numeral_2_eq_2 upt_rec intro!: bit_word_eqI) (auto simp: bit_simps)

lemma bytes3: "bytesOf 3 (push_bit 16 a OR (push_bit 8 (take_bit 8 w) OR take_bit 8 (drop_bit 8 w)))
    = [ucast a, ucast w, ucast (drop_bit 8 w)]"
  by (auto simp: bytesOf_def numeral_3_eq_3 upt_rec intro!: bit_word_eqI) (auto simp: bit_simps)

lemma format2:
  "V6ClangInstImm8Dst rd imm = push_bit 8 (push_bit 3 (take_bit 3 rd) OR 0b110) OR take_bit 8 imm"
  "V6ClangInstImm8Opc opc imm = push_bit 8 (push_bit 6 3 OR push_bit 3 (take_bit 3 opc) OR 0b110) OR take_bit 8 imm"
  "V6ClangInstIO op imm = push_bit 8 (take_bit 8 op) OR take_bit 8 imm"
  by (simp_all add: V6ClangInstImm8Dst_def V6ClangInstImm8Opc_def V6ClangInstIO_def push_bit_or or.assoc)

lemma format3:
  "V6ClangInstImm16Pair rp imm = push_bit 16 (push_bit 4 (take_bit 2 rp) OR 1)
     OR (push_bit 8 (take_bit 8 imm) OR take_bit 8 (drop_bit 8 imm))"
  "V6ClangInstImm16Opc op imm = push_bit 16 (take_bit 8 op) OR (push_bit 8 (take_bit 8 imm) OR take_bit 8 (drop_bit 8 imm))"
  by (simp_all add: V6ClangInstImm16Pair_def V6ClangInstImm16Opc_def push_bit_or or.assoc)

section \<open>Encoding and decoding\<close>

lemma encode_bytes:
  "encodeInstruction mi = Some (Data, fs) \<Longrightarrow>
    Data = bytesOf (getSize (mcOpcode mi)) (getBinaryCodeForInstr (mcOpcode mi) (opValue mi)) \<and>
    None \<notin> set (opValues mi) \<and> fs = concat (map (snd \<circ> the) (opValues mi))"
  by (auto simp: encodeInstruction_def Let_def bytesOf_def split: if_splits)

lemma td_match_iff:
  "td_match ops GR8s x \<longleftrightarrow> (\<exists>r. getReg x = Some r \<and> GR8 r)"
  "td_match ops Accs x \<longleftrightarrow> getReg x = Some A"
  "td_match ops Alls x \<longleftrightarrow> (\<exists>r. getReg x = Some r \<and> GR16All r)"
  "td_match ops Idxs x \<longleftrightarrow> (\<exists>r. getReg x = Some r \<and> GR16Idx r)"
  "td_match ops Stacks x \<longleftrightarrow> (\<exists>r. getReg x = Some r \<and> GR16Stack r)"
  "td_match ops Ptrs x \<longleftrightarrow> getReg x = Some HL"
  by (auto elim!: GR8.elims GR16All.elims GR16.elims GR16Idx.elims GR16Stack.elims)

lemma reg_operand:
  assumes "getReg x = Some r" "encoded_operand x"
  shows "lower1 blockSym x = MCReg r" "ex_regs (x # xs) = r # ex_regs xs"
  using assms by (cases x; simp)+

lemma decode_regs:
  "GR8 r \<Longrightarrow> GR8 q \<Longrightarrow>
    decode (ucast (V6ClangInstRegDstSrc (getEncodingValue r) (getEncodingValue q))) = Some (MOVrr, [r, q], 0)"
  "GR8 r \<Longrightarrow>
    decode (ucast (V6ClangInstRegSrc (alu_code op) (getEncodingValue r)))
      = Some (ALUr op, (if op = CMP then [A] else [A, A]) @ [r], 0)"
  "GR8 r \<Longrightarrow> decode (ucast (V6ClangInstRegDst 4 (getEncodingValue r))) = Some (INRr, [r, r], 0)"
  "GR8 r \<Longrightarrow> decode (ucast (V6ClangInstRegDst 5 (getEncodingValue r))) = Some (DCRr, [r, r], 0)"
  by (auto elim!: GR8_cases simp: V6ClangInstRegDstSrc_def decode_def reg_of_def V6ClangInstRegSrc_def V6ClangInstRegDst_def decode0_def alu_of_def;
      cases op; simp)+

lemma decode_pairs:
  "GR16All r \<Longrightarrow> decode (ucast (V6ClangInstRegPair 0 9 (getEncodingValue r))) = Some (DAD, [r], 0)"
  "GR16All r \<Longrightarrow> decode (ucast (V6ClangInstRegPair 0 3 (getEncodingValue r))) = Some (INX, [r, r], 0)"
  "GR16All r \<Longrightarrow> decode (ucast (V6ClangInstRegPair 0 11 (getEncodingValue r))) = Some (DCX, [r, r], 0)"
  "GR16Idx r \<Longrightarrow> decode (ucast (V6ClangInstRegPair 0 10 (getEncodingValue r))) = Some (LDAX, [A, r], 0)"
  "GR16Idx r \<Longrightarrow> decode (ucast (V6ClangInstRegPair 0 2 (getEncodingValue r))) = Some (STAX, [A, r], 0)"
  "GR16Stack r \<Longrightarrow> decode (ucast (V6ClangInstRegPair 3 5 (getEncodingValue r))) = Some (PUSH, [r], 0)"
  "GR16Stack r \<Longrightarrow> decode (ucast (V6ClangInstRegPair 3 1 (getEncodingValue r))) = Some (POP, [r], 0)"
  by (auto elim!: GR16All.elims GR16.elims GR16Idx.elims GR16Stack.elims simp: V6ClangInstRegPair_def decode_def decode0_def decode3_def pair_of_def)

text \<open>The registers that the processor sees.\<close>

fun decodedRegs :: "opcode \<Rightarrow> preg list \<Rightarrow> preg list" where
  "decodedRegs (ALUM _) rs = []" | "decodedRegs (ALUI _) rs = []" | "decodedRegs RLC rs = []" | "decodedRegs RRC rs = []"
| "decodedRegs RAL rs = []" | "decodedRegs RAR rs = []" | "decodedRegs CMA rs = []" | "decodedRegs DAA rs = []"
| "decodedRegs _ rs = rs"

lemma decode_M:
  "GR8 r \<Longrightarrow> decode (ucast (64 OR push_bit 3 (take_bit 3 (getEncodingValue r)) OR 6 :: u64)) = Some (MOVrM, [r], 0)"
  "GR8 r \<Longrightarrow> decode (ucast (64 OR 48 OR take_bit 3 (getEncodingValue r) :: u64)) = Some (MOVMr, [r], 0)"
  by (auto elim!: GR8_cases simp: decode_def reg_of_def)

lemma decode_RST: "k < 8 \<Longrightarrow> decode (ucast (V6ClangInstRST (of_nat k))) = Some (RST k, [], 0)"
proof -
  assume "k < 8"
  then have "k \<in> {0, 1, 2, 3, 4, 5, 6, 7}" by auto
  then show ?thesis by (elim insertE; simp add: V6ClangInstRST_def decode_def decode3_def)
qed

lemma decode_implied:
  "decode (ucast (V6ClangInstImplied (ALUM_op op))) = Some (ALUM op, [], 0)"
  "decode (ucast (V6ClangInstImplied (Rcc_op cc))) = Some (Rcc cc, [], 0)"
  by (cases op; simp add: V6ClangInstImplied_def decode_def alu_of_def)
    (cases cc; simp add: V6ClangInstImplied_def decode_def decode3_def cond_nr_def)

lemma decode_size1:
  assumes "td_operands opc = Some ts" "list_all2 (td_match ops) ts ops" "list_all encoded_operand ops"
    "encodeInstruction \<lparr>mcOpcode = opc, mcOperands = map (lower1 blockSym) ops\<rparr> = Some (Data, fs)"
    "getSize opc = Suc 0" "\<forall>k. opc = RST k \<longrightarrow> k < 8"
  shows "fs = [] \<and> (\<exists>b. Data = [b] \<and> decode b = Some (opc, decodedRegs opc (ex_regs ops), 0))"
proof -
  note enc = encode_bytes [OF assms(4)]
  show ?thesis
    using assms(1-3,5,6) enc
    by (cases opc; clarsimp simp: list_all2_Cons1 td_match_iff opValues_def opValue_def bytes1 bytes1 [unfolded One_nat_def [symmetric]]
      reg_operand decode_implied decode_regs decode_regs(2) [of _ CMP, simplified] decode_pairs decode_M decode_RST split: if_splits simp del: td_match.simps(1) lower1.simps ex_regs.simps(2))
      (simp_all add: td_match_iff reg_operand V6ClangInstImplied_def decode_def decode3_def decode0_def
      del: td_match.simps(1) lower1.simps ex_regs.simps(2))
qed

lemma encoded_None:
  "None = getMachineOpValue opc x \<longleftrightarrow> \<not> (\<exists>w gs. getMachineOpValue opc x = Some (w, gs))"
  by (cases "getMachineOpValue opc x") auto

lemma operand_ex:
  "target_operand x \<Longrightarrow> ex_regs (x # xs) = ex_regs xs"
  "imm_operand x \<Longrightarrow> ex_regs (x # xs) = ex_regs xs"
  "imm_operand x \<Longrightarrow> ex_mbbs (x # xs) = ex_mbbs xs"
  "imm_operand x \<Longrightarrow> ex_vals env (x # xs) = the (opval env x) # ex_vals env xs"
  "getReg x = Some r \<Longrightarrow> ex_vals env (x # xs) = ex_vals env xs"
  "getReg x = Some r \<Longrightarrow> ex_mbbs (x # xs) = ex_mbbs xs"
  by (cases x; simp)+

lemma imm_target: "imm_operand x \<Longrightarrow> target_operand x"
  by (cases x) simp_all

lemma imm_fieldval: "imm_operand x \<Longrightarrow> fieldval env blockSym x = Some (the (opval env x))"
  by (cases x) (simp_all add: fieldval_def)

lemma decode2:
  "GR8 r \<Longrightarrow> decode (ucast (push_bit 3 (take_bit 3 (getEncodingValue r)) OR 6 :: u64)) = Some (MVIr, [r], 1)"
  "decode (ucast (192 OR push_bit 3 (take_bit 3 (alu_code op)) OR 6 :: u64)) = Some (ALUI op, [], 1)"
  by (auto elim!: GR8_cases simp: decode_def decode0_def reg_of_def) (cases op; simp add: decode_def decode3_def alu_of_def)

lemma bytes_format2:
  "bytesOf 2 (V6ClangInstImm8Dst rd w) = [ucast (push_bit 3 (take_bit 3 rd) OR 6), ucast w]"
  "bytesOf 2 (V6ClangInstImm8Opc opc w) = [ucast (192 OR push_bit 3 (take_bit 3 opc) OR 6), ucast w]"
  "bytesOf 2 (V6ClangInstIO op w) = [ucast (take_bit 8 op), ucast w]"
  "bytesOf 2 (12288 OR (1536 OR take_bit 8 w)) = [0x36, ucast w]"
proof -
  have "12288 OR (1536 OR take_bit 8 w) = push_bit 8 0x36 OR take_bit 8 w" by (simp flip: or.assoc)
  then show "bytesOf 2 (12288 OR (1536 OR take_bit 8 w)) = [0x36, ucast w]"
    using bytes2 [of "0x36" w] by (simp only:) simp
qed (simp_all only: format2 bytes2 or.assoc, simp_all)

lemma decode_size2:
  assumes "td_operands opc = Some ts" "list_all2 (td_match ops) ts ops" "list_all encoded_operand ops"
    "encodeInstruction \<lparr>mcOpcode = opc, mcOperands = map (lower1 blockSym) ops\<rparr> = Some (Data, fs)"
    "getSize opc = 2"
  shows "\<exists>b v. ex_vals env ops = [v] \<and> fold (applyRelocation env) fs Data = [b, lo8 v]
    \<and> decode b = Some (opc, decodedRegs opc (ex_regs ops), 1)"
proof -
  note enc = encode_bytes [OF assms(4)]
  have f: "fold (applyRelocation env) gs [b, ucast w] = [b, lo8 (the (opval env x))]"
    if "getMachineOpValue opc (lower1 blockSym x) = Some (w, gs)" "imm_operand x" for x w gs b
    using that assms(5) by (intro field2 [of x env blockSym]) (auto simp: imm_target imm_fieldval)
  show ?thesis
    using assms(1-3,5) enc f
    by (cases opc; clarsimp simp: list_all2_Cons1 td_match_iff opValues_def opValue_def bytes_format2 encoded_None
      reg_operand operand_ex decode2 decode2(2) [of CMP, simplified] split: if_splits
      simp del: td_match.simps(1) lower1.simps ex_regs.simps(2) ex_vals.simps(2))
      (simp_all add: decode_def decode0_def decode3_def)
qed

lemma decode3_bytes:
  "GR16All r \<Longrightarrow> decode (ucast (push_bit 4 (take_bit 2 (getEncodingValue r)) OR 1 :: u64)) = Some (LXI, [r], 2)"
  "decode (ucast (take_bit 8 (Jcc_op c))) = Some (Jcc c, [], 2)"
  by (auto elim!: GR16All.elims GR16.elims simp: decode_def decode0_def pair_of_def)
    (cases c; simp add: decode_def decode3_def cond_nr_def)

lemma bytes_format3:
  "bytesOf 3 (V6ClangInstImm16Pair rp w) = [ucast (push_bit 4 (take_bit 2 rp) OR 1), ucast w, ucast (drop_bit 8 w)]"
  "bytesOf 3 (V6ClangInstImm16Opc op w) = [ucast (take_bit 8 op), ucast w, ucast (drop_bit 8 w)]"
  by (simp_all only: format3 bytes3)

lemma target_ex:
  "target_operand x \<Longrightarrow> ex_mbbs [x] = [b] \<Longrightarrow> fieldval env blockSym x = Some (symaddr env (blockSym b))"
  by (cases x) (auto simp: fieldval_def)

fun isJump :: "opcode \<Rightarrow> bool" where
  "isJump JMP = True" | "isJump (Jcc _) = True" | "isJump _ = False"

fun isFar :: "opcode \<Rightarrow> bool" where
  "isFar CALL = True" | "isFar (Ccc _) = True" | "isFar V6CLANG_TAILJMP = True" | "isFar _ = False"

lemma decode_size3:
  assumes "td_operands opc = Some ts" "list_all2 (td_match ops) ts ops" "list_all encoded_operand ops"
    "encodeInstruction \<lparr>mcOpcode = opc, mcOperands = map (lower1 blockSym) ops\<rparr> = Some (Data, fs)"
    "getSize opc = 3" "isJump opc \<longrightarrow> ex_mbbs ops = [t]" "\<not> isFar opc"
  shows "\<exists>b v. (if isJump opc then v = symaddr env (blockSym t) else ex_vals env ops = [v]) \<and>
    fold (applyRelocation env) fs Data = [b, lo8 v, hi8 v] \<and> decode b = Some (opc, decodedRegs opc (ex_regs ops), 2)"
proof -
  note enc = encode_bytes [OF assms(4)]
  have f: "fold (applyRelocation env) gs [b, ucast w, ucast (drop_bit 8 w)] = [b, lo8 (the (opval env x)), hi8 (the (opval env x))]"
    if "getMachineOpValue opc (lower1 blockSym x) = Some (w, gs)" "imm_operand x" for x w gs b
    using that assms(5) by (intro field3 [of x env blockSym]) (auto simp: imm_target imm_fieldval)
  have g: "fold (applyRelocation env) gs [b, ucast w, ucast (drop_bit 8 w)] = [b, lo8 v, hi8 v]"
    if "getMachineOpValue opc (lower1 blockSym x) = Some (w, gs)" "target_operand x" "ex_mbbs [x] = [t]"
      "v = symaddr env (blockSym t)" for x w gs b v
    using that assms(5) target_ex [OF that(2,3)] by (intro field3 [of x env blockSym]) auto
  show ?thesis
    using assms(1-3,5-7) enc f g
    by (cases opc; clarsimp simp: list_all2_Cons1 td_match_iff opValues_def opValue_def bytes_format3 encoded_None
      reg_operand operand_ex decode3_bytes split: if_splits
      simp del: td_match.simps(1) lower1.simps ex_regs.simps(2) ex_vals.simps(2) ex_mbbs.simps(2))
      (simp_all add: decode_def decode0_def decode3_def)
qed

section \<open>The processor executes what was emitted\<close>

text \<open>The program counter after code of \<open>n\<close> bytes that leaves by \<open>c\<close> in state \<open>t\<close>.\<close>

definition exitPC :: "(nat \<Rightarrow> string) \<Rightarrow> senv \<Rightarrow> nat \<Rightarrow> u16 \<Rightarrow> ctl \<Rightarrow> cpu \<Rightarrow> u16" where
  "exitPC blockSym env n pc c t = (case c of
     Next \<Rightarrow> pc + of_nat n | Goto b \<Rightarrow> symaddr env (blockSym b) | Return \<Rightarrow> load16 (sp t - 2) t)"

lemma cpu_step1:
  assumes "decode (mem s pc) = Some (opc, decodedRegs opc rs, 0)" "getSize opc = Suc 0" "step env opc rs vs bs s = Some (c, t)"
  shows "cpu_step env (pc, s) = Some (exitPC blockSym env 1 pc c t, t)"
  using assms
  by (cases opc; auto simp: cpu_step_def step_def exitPC_def pop16_def load16_def add.commute [of _ 1] split: list.splits if_splits)

lemma cpu_step2:
  assumes "decode (mem s pc) = Some (opc, decodedRegs opc rs, 1)" "getSize opc = 2" "step env opc rs [v] bs s = Some (c, t)"
    "mem s (pc + 1) = lo8 v"
  shows "cpu_step env (pc, s) = Some (exitPC blockSym env 2 pc c t, t)"
  using assms
  by (cases opc; auto simp: cpu_step_def step_def exitPC_def pop16_def load16_def split: list.splits if_splits)

lemma cpu_step3:
  assumes "decode (mem s pc) = Some (opc, decodedRegs opc rs, 2)" "getSize opc = 3" "step env opc rs vs bs s = Some (c, t)"
    "mem s (pc + 1) = lo8 v" "mem s (pc + 2) = hi8 v"
    "if isJump opc then bs = [b] \<and> v = symaddr env (blockSym b) else vs = [v]"
  shows "cpu_step env (pc, s) = Some (exitPC blockSym env 3 pc c t, t)"
  using assms
  by (cases opc; auto simp: cpu_step_def step_def exitPC_def pop16_def load16_def split: list.splits if_splits)

lemma td_size: "td_operands opc = Some ts \<Longrightarrow> getSize opc \<in> {1, 2, 3}"
  by (cases opc) auto

lemma far_stops: "isFar opc \<Longrightarrow> step env opc rs vs bs s = None"
  by (cases opc) (simp_all add: step_def)

lemma jump_target: "isJump opc \<Longrightarrow> step env opc rs vs bs s = Some r \<Longrightarrow> \<exists>b. bs = [b]"
  by (cases opc) (auto simp: step_def split: list.splits)

lemma machine_step_run:
  assumes "wf_td m" "linkInstruction blockSym env m = Some Data" "exec env m s = Some (c, t)"
    "\<forall>i < length Data. mem s (pc + of_nat i) = Data ! i"
  shows "cpu_step env (pc, s) = Some (exitPC blockSym env (length Data) pc c t, t)"
proof -
  let ?ops = "filter encoded_operand (operands m)" let ?opc = "opcode m"
  obtain ts where ts: "td_operands ?opc = Some ts" "list_all2 (td_match ?ops) ts ?ops"
    using assms(1) by (auto simp: wf_td_def Let_def split: option.splits)
  have ops: "list_all encoded_operand ?ops" by (simp add: list_all_iff)
  obtain Data0 fs where enc: "encodeInstruction \<lparr>mcOpcode = ?opc, mcOperands = map (lower1 blockSym) ?ops\<rparr> = Some (Data0, fs)"
    and Data: "Data = fold (applyRelocation env) fs Data0"
    using assms(2) by (auto simp: linkInstruction_def lowerInstruction_def bind_eq_Some_conv dest!: lowerOperands_explicit)
  have step: "step env ?opc (ex_regs ?ops) (ex_vals env ?ops) (ex_mbbs ?ops) s = Some (c, t)"
    using assms(3) by (simp add: exec_def ex_explicit)
  then have far: "\<not> isFar ?opc" and jump: "isJump ?opc \<longrightarrow> (\<exists>b. ex_mbbs ?ops = [b])"
    using far_stops jump_target by fastforce+
  note mem = assms(4)
  consider "getSize ?opc = Suc 0" | "getSize ?opc = 2" | "getSize ?opc = 3" using td_size [OF ts(1)] by auto
  then show ?thesis
  proof cases
    case 1
    have "\<forall>k. ?opc = RST k \<longrightarrow> k < 8" using step by (auto simp: step_def)
    from decode_size1 [OF ts ops enc 1 this] obtain b
      where b: "Data = [b]" "decode b = Some (?opc, decodedRegs ?opc (ex_regs ?ops), 0)" using Data by auto
    moreover have "mem s pc = b" using mem b(1) by auto
    ultimately show ?thesis using cpu_step1 [OF _ 1 step] by simp
  next
    case 2
    from decode_size2 [OF ts ops enc 2, of env] obtain b v
      where b: "Data = [b, lo8 v]" "decode b = Some (?opc, decodedRegs ?opc (ex_regs ?ops), 1)" "ex_vals env ?ops = [v]"
      using Data by blast
    moreover have "mem s pc = b" "mem s (pc + 1) = lo8 v" using mem b(1) by (auto simp: less_Suc_eq All_less_Suc)
    ultimately show ?thesis using cpu_step2 [OF _ 2 step [unfolded b(3)]] by (simp add: numeral_2_eq_2)
  next
    case 3
    obtain b0 where b0: "isJump ?opc \<longrightarrow> ex_mbbs ?ops = [b0]" using jump by auto
    from decode_size3 [OF ts ops enc 3 b0 far, of env] obtain b v
      where b: "Data = [b, lo8 v, hi8 v]" "decode b = Some (?opc, decodedRegs ?opc (ex_regs ?ops), 2)"
        "if isJump ?opc then v = symaddr env (blockSym b0) else ex_vals env ?ops = [v]"
      using Data by blast
    moreover have "mem s pc = b" "mem s (pc + 1) = lo8 v" "mem s (pc + 2) = hi8 v"
      using mem b(1) by (auto simp: All_less_Suc numeral_2_eq_2)
    ultimately show ?thesis using cpu_step3 [OF _ 3 step, where b = b0] b0 by (auto simp: numeral_3_eq_3)
  qed
qed

text \<open>
  The code of a block lies in memory at an address and is not overwritten before it is executed.
\<close>

fun intact :: "(nat \<Rightarrow> string) \<Rightarrow> senv \<Rightarrow> machine_instr list \<Rightarrow> u16 \<Rightarrow> cpu \<Rightarrow> bool" where
  "intact blockSym env [] pc s = True"
| "intact blockSym env (m # ms) pc s = (case linkInstruction blockSym env m of
     None \<Rightarrow> False
   | Some Data \<Rightarrow> list_all (\<lambda>i. mem s (pc + of_nat i) = Data ! i) [0..<length Data] \<and>
       (case exec env m s of
          Some (c, t) \<Rightarrow> c = Next \<longrightarrow> intact blockSym env ms (pc + of_nat (length Data)) t
        | None \<Rightarrow> True))"

definition codeSize :: "(nat \<Rightarrow> string) \<Rightarrow> senv \<Rightarrow> machine_instr list \<Rightarrow> nat" where
  "codeSize blockSym env ms =
    sum_list (map (\<lambda>m. case linkInstruction blockSym env m of Some Data \<Rightarrow> length Data | None \<Rightarrow> 0) ms)"

fun cpu_steps :: "senv \<Rightarrow> nat \<Rightarrow> u16 \<times> cpu \<Rightarrow> (u16 \<times> cpu) option" where
  "cpu_steps env 0 ps = Some ps"
| "cpu_steps env (Suc n) ps = Option.bind (cpu_step env ps) (cpu_steps env n)"

text \<open>
  C4.  The processor does with the bytes of a block what the model says of its instructions: if the
  operands of the instructions are those of their descriptions and the linked code of the block lies
  at the program counter and is not overwritten before it is executed, then after at most as many
  steps as the block has instructions the processor is in the state that \<open>run\<close> computes, at the
  instruction behind the block, at the block that the branch names, or at the return address.
\<close>

theorem machine_code_correct:
  assumes "list_all wf_td ms" "intact blockSym env ms pc s" "run env ms s = Some (c, t)"
  shows "\<exists>n \<le> length ms. cpu_steps env n (pc, s) = Some (exitPC blockSym env (codeSize blockSym env ms) pc c t, t)"
  using assms
proof (induction ms arbitrary: pc s)
  case Nil
  then show ?case by (simp add: exitPC_def codeSize_def)
next
  case (Cons m ms)
  obtain Data where Data: "linkInstruction blockSym env m = Some Data" "\<forall>i < length Data. mem s (pc + of_nat i) = Data ! i"
    using Cons.prems(2) by (auto simp: list_all_iff split: option.splits)
  obtain d u where du: "exec env m s = Some (d, u)" using Cons.prems(3) by (auto split: option.splits)
  have step: "cpu_step env (pc, s) = Some (exitPC blockSym env (length Data) pc d u, u)"
    using Cons.prems(1) by (intro machine_step_run [OF _ Data(1) du Data(2)]) simp
  show ?case
  proof (cases "d = Next")
    case True
    have "intact blockSym env ms (pc + of_nat (length Data)) u" using Cons.prems(2) du True Data(1) by simp
    from Cons.IH [OF _ this] obtain n where "n \<le> length ms" "cpu_steps env n (pc + of_nat (length Data), u)
        = Some (exitPC blockSym env (codeSize blockSym env ms) (pc + of_nat (length Data)) c t, t)"
      using Cons.prems(1,3) du True by auto
    then show ?thesis using step True Data(1)
      by (intro exI [of _ "Suc n"]) (auto simp: exitPC_def codeSize_def split: ctl.splits)
  next
    case False
    then show ?thesis using step du Cons.prems(3)
      by (intro exI [of _ "Suc 0"]) (auto simp: exitPC_def split: ctl.splits)
  qed
qed

abbreviation "demo_env \<equiv> \<lparr>symaddr = \<lambda>_. 0x200, portin = \<lambda>_ _. 0\<rparr>"
abbreviation "demo_code \<equiv> [BuildMI MVIr [addRegDef A, addImm 5], BuildMI JMP [addMBB 7]]"
abbreviation "demo_mem s \<equiv> s\<lparr>mem := (\<lambda>_. 0)(256 := 0x3E, 257 := 5, 258 := 0xC3, 259 := 0, 260 := 2)\<rparr>"

lemma encodeInstruction_bytes:
  "td_operands (mcOpcode mi) \<noteq> None \<Longrightarrow> None \<notin> set (opValues mi) \<Longrightarrow> encodeInstruction mi =
    Some (bytesOf (getSize (mcOpcode mi)) (getBinaryCodeForInstr (mcOpcode mi) (opValue mi)), concat (map (snd \<circ> the) (opValues mi)))"
  by (simp add: encodeInstruction_def bytesOf_def Let_def)

lemma demo_encode:
  "encodeInstruction \<lparr>mcOpcode = MVIr, mcOperands = [MCReg A, MCImm 5]\<rparr> = Some ([0x3E, 5], [])"
  "encodeInstruction \<lparr>mcOpcode = JMP, mcOperands = [MCExpr (MCSymbolRefExpr l)]\<rparr>
    = Some ([0xC3, 0, 0], [\<lparr>fixOffset = 1, fixValue = MCSymbolRefExpr l, fixKind = FK_Data_2\<rparr>])"
  by (simp_all add: encodeInstruction_bytes opValues_def opValue_def bytes_format2 bytes_format3)

lemma demo_link:
  "linkInstruction b demo_env (BuildMI MVIr [addRegDef A, addImm 5]) = Some [0x3E, 5]"
  "linkInstruction b demo_env (BuildMI JMP [addMBB 7]) = Some [0xC3, 0, 2]"
  by (simp_all add: linkInstruction_def lowerInstruction_def BuildMI_def implicit_operands_def demo_encode
    demo_encode [unfolded One_nat_def] reloc_bytes [unfolded One_nat_def])

theorem machine_code_correct_witness:
  "\<forall>s. \<exists>n \<le> 2. cpu_steps demo_env n (256, demo_mem s) = Some (0x200, setR A 5 (demo_mem s))"
proof
  fix s
  have wf: "list_all wf_td demo_code" by (simp add: wf_td_def BuildMI_def implicit_operands_def)
  have intact: "intact (\<lambda>_. []) demo_env demo_code 256 (demo_mem s)"
    by (simp add: demo_link exec_simps setR_def upt_rec)
  have run: "run demo_env demo_code (demo_mem s) = Some (Goto 7, setR A 5 (demo_mem s))"
    by (simp add: exec_simps lo8_def)
  show "\<exists>n \<le> 2. cpu_steps demo_env n (256, demo_mem s) = Some (0x200, setR A 5 (demo_mem s))"
    using machine_code_correct [OF wf intact run] by (simp add: exitPC_def numeral_2_eq_2)
qed

end
