(* ===== verification/LoadImmCombine.thy ===== *)
theory LoadImmCombine
  imports FlagOpts
begin

text \<open>
  V6ClangLoadImmCombine.cpp: a table of the byte registers whose contents are known constants, filled
  from the only predecessor of a block and carried through the block.  An MVI of a value that is
  already there is removed, or becomes a MOV, INR or DCR; an LXI whose halves are known is removed.
  The table is right at every instruction, and the block does what it did before, if the flags are
  dead wherever an INR or DCR is put: the pass does not ask for that.
\<close>

section \<open>The table\<close>

type_synonym known = "preg \<Rightarrow> int option"

definition TrackedRegs :: "preg list" where
  "TrackedRegs = [A, B, C, D, E, H, L]"

definition tracked :: "preg \<Rightarrow> bool" where
  "tracked Reg = List.member TrackedRegs Reg"

definition setKnown :: "preg \<Rightarrow> int option \<Rightarrow> known \<Rightarrow> known" where
  "setKnown Reg v K = (if tracked Reg then K(Reg := v) else K)"

definition invalidate :: "preg \<Rightarrow> known \<Rightarrow> known" where
  "invalidate Reg K = setKnown Reg None K"

definition invalidateAll :: known where
  "invalidateAll = Map.empty"

definition invalidateWithSubSuper :: "preg \<Rightarrow> known \<Rightarrow> known" where
  "invalidateWithSubSuper Reg K =
    (let K = invalidate Reg K;
         K = (if Reg = BC then invalidate C (invalidate B K) else K);
         K = (if Reg = DE then invalidate E (invalidate D K) else K)
     in if Reg = HL then invalidate L (invalidate H K) else K)"

definition invalidateOperands :: "(machine_operand \<Rightarrow> bool) \<Rightarrow> machine_instr \<Rightarrow> known \<Rightarrow> known" where
  "invalidateOperands P MI K =
    fold (\<lambda>MO K. if P MO then (case getReg MO of Some r \<Rightarrow> invalidateWithSubSuper r K | None \<Rightarrow> K) else K) (operands MI) K"

definition invalidateUndefUses :: "machine_instr \<Rightarrow> known \<Rightarrow> known" where
  "invalidateUndefUses = invalidateOperands (\<lambda>MO. isUse MO \<and> isUndef MO)"

definition invalidateKilledUses :: "machine_instr \<Rightarrow> known \<Rightarrow> known" where
  "invalidateKilledUses = invalidateOperands (\<lambda>MO. isUse MO \<and> isKill MO)"

definition findRegWithValue :: "int \<Rightarrow> preg \<Rightarrow> known \<Rightarrow> preg option" where
  "findRegWithValue Val Exclude K =
    (case find (\<lambda>r. r \<noteq> Exclude \<and> K r = Some Val) (tl TrackedRegs) of
       Some r \<Rightarrow> Some r
     | None \<Rightarrow> if A \<noteq> Exclude \<and> K A = Some Val then Some A else None)"

definition dropEntryValuesNotLiveIn :: "preg list \<Rightarrow> known \<Rightarrow> known" where
  "dropEntryValuesNotLiveIn entryRegs K =
    (\<lambda>r. if list_ex (regsOverlap r) entryRegs then K r else None)"

text \<open>\<open>patched\<close>: the immediate operand carries a target flag, so that a spill overwrites it.\<close>

definition plainImm :: "(machine_instr \<Rightarrow> bool) \<Rightarrow> machine_instr \<Rightarrow> int option" where
  "plainImm patched MI = (if patched MI then None else opImm MI 1)"

section \<open>Following an instruction\<close>

text \<open>
  The part of the two loops (over the predecessor and over the block) that follows what an instruction
  does to the table.
\<close>

definition isCall :: "opcode \<Rightarrow> bool" where
  "isCall opc = (case opc of CALL \<Rightarrow> True | Ccc _ \<Rightarrow> True | RST _ \<Rightarrow> True | _ \<Rightarrow> False)"

definition pairHalves :: "preg \<Rightarrow> (preg \<times> preg) option" where
  "pairHalves r = (if r = BC then Some (B, C) else if r = DE then Some (D, E) else if r = HL then Some (H, L) else None)"

definition trackMVI :: "(machine_instr \<Rightarrow> bool) \<Rightarrow> machine_instr \<Rightarrow> preg \<Rightarrow> known \<Rightarrow> known" where
  "trackMVI patched MI Dst K = (case plainImm patched MI of
     Some i \<Rightarrow> setKnown Dst (Some (i mod 256)) K
   | None \<Rightarrow> invalidate Dst K)"

definition trackLXI :: "(machine_instr \<Rightarrow> bool) \<Rightarrow> machine_instr \<Rightarrow> preg \<Rightarrow> known \<Rightarrow> known" where
  "trackLXI patched MI Rp K = (case plainImm patched MI of
     Some i \<Rightarrow> (case pairHalves Rp of
         Some (h, l) \<Rightarrow> setKnown l (Some (i mod 256)) (setKnown h (Some (i mod 65536 div 256)) K)
       | None \<Rightarrow> K)
   | None \<Rightarrow> invalidateWithSubSuper Rp K)"

definition trackDefs :: "machine_instr \<Rightarrow> known \<Rightarrow> known" where
  "trackDefs MI K =
    (let K = invalidateOperands isDef MI K in if A \<in> set (implicit_defs (opcode MI)) then invalidate A K else K)"

definition onReg :: "machine_instr \<Rightarrow> (preg \<Rightarrow> known \<Rightarrow> known) \<Rightarrow> known \<Rightarrow> known" where
  "onReg MI f K = (case opReg MI 0 of Some r \<Rightarrow> f r K | None \<Rightarrow> K)"

definition track :: "(machine_instr \<Rightarrow> bool) \<Rightarrow> machine_instr \<Rightarrow> known \<Rightarrow> known" where
  "track patched MI K = (case opcode MI of
     MVIr \<Rightarrow> onReg MI (trackMVI patched MI) K
   | MOVrr \<Rightarrow> onReg MI (\<lambda>r K. setKnown r (case opReg MI 1 of Some q \<Rightarrow> if tracked q then K q else None | None \<Rightarrow> None) K) K
   | MOVrM \<Rightarrow> onReg MI invalidate K
   | LXI \<Rightarrow> onReg MI (trackLXI patched MI) K
   | INRr \<Rightarrow> onReg MI (\<lambda>r K. setKnown r (map_option (\<lambda>v. (v + 1) mod 256) (K r)) K) K
   | DCRr \<Rightarrow> onReg MI (\<lambda>r K. setKnown r (map_option (\<lambda>v. (v - 1) mod 256) (K r)) K) K
   | ALUr op \<Rightarrow> if op = XRA \<and> opReg MI 2 = Some A then setKnown A (Some 0) K
       else if op \<noteq> CMP then invalidate A K else trackDefs MI K
   | ALUM op \<Rightarrow> if op \<noteq> CMP then invalidate A K else trackDefs MI K
   | ALUI op \<Rightarrow> if op \<noteq> CMP then invalidate A K else trackDefs MI K
   | RLC \<Rightarrow> invalidate A K | RRC \<Rightarrow> invalidate A K | RAL \<Rightarrow> invalidate A K | RAR \<Rightarrow> invalidate A K
   | CMA \<Rightarrow> invalidate A K | DAA \<Rightarrow> invalidate A K
   | LDA \<Rightarrow> invalidate A K | LDAX \<Rightarrow> invalidate A K
   | POP \<Rightarrow> onReg MI (\<lambda>r K. let K = invalidateWithSubSuper r K in if r = PSW then invalidate A K else K) K
   | INX \<Rightarrow> onReg MI invalidateWithSubSuper K | DCX \<Rightarrow> onReg MI invalidateWithSubSuper K
   | XCHG \<Rightarrow> K(D := K H, H := K D, E := K L, L := K E)
   | opc \<Rightarrow> if isCall opc then invalidateAll else trackDefs MI K)"

section \<open>What is known at the entry of a block\<close>

definition initFromPredecessor :: "(machine_instr \<Rightarrow> bool) \<Rightarrow> machine_instr list option \<Rightarrow> known" where
  "initFromPredecessor patched Pred = (case Pred of
     None \<Rightarrow> invalidateAll
   | Some MIs \<Rightarrow> fold (\<lambda>MI K. invalidateKilledUses MI (track patched MI (invalidateUndefUses MI K))) MIs invalidateAll)"

definition isNZBranchTerminator :: "opcode \<Rightarrow> bool" where
  "isNZBranchTerminator Opc = (Opc = Jcc COND_NZ \<or> Opc = Rcc COND_NZ)"

definition isZBranchTerminator :: "opcode \<Rightarrow> bool" where
  "isZBranchTerminator Opc = (Opc = Jcc COND_Z)"

text \<open>The predecessor from its end, the number of the block, and whether it follows the predecessor in the layout.\<close>

definition zeroProvenPath :: "machine_instr \<Rightarrow> nat \<Rightarrow> bool \<Rightarrow> bool" where
  "zeroProvenPath Term MBB isLayoutSuccessor =
    (isNZBranchTerminator (opcode Term) \<and> isLayoutSuccessor \<or>
     isZBranchTerminator (opcode Term) \<and> opMBB Term 0 = Some MBB)"

definition clearedA :: "machine_instr list \<Rightarrow> bool" where
  "clearedA Before = (case Before of
     PreTerm # PreCmp # _ \<Rightarrow> opcode PreTerm = CMPr \<and> opcode PreCmp = XRAr \<and>
       opReg PreCmp 0 = Some A \<and> opReg PreCmp 2 = Some A
   | _ \<Rightarrow> False)"

definition seedFlagSetter :: "machine_instr list \<Rightarrow> known \<Rightarrow> known" where
  "seedFlagSetter Before K = (case Before of
     [] \<Rightarrow> K
   | FlagSetter # Rest \<Rightarrow>
     (if (opcode FlagSetter = ORAr \<or> opcode FlagSetter = ANAr) \<and> opReg FlagSetter 2 = Some A
      then setKnown A (Some 0) K
      else if opcode FlagSetter = ORAr then
        (case (Rest, opReg FlagSetter 2) of
           (Mov # _, Some LoReg) \<Rightarrow>
             if opcode Mov = MOVrr \<and> opReg Mov 0 = Some A then
               (case opReg Mov 1 of
                  Some HiReg \<Rightarrow> if (HiReg, LoReg) \<in> {(H, L), (D, E), (B, C)}
                    then setKnown A (Some 0) (setKnown LoReg (Some 0) (setKnown HiReg (Some 0) K)) else K
                | None \<Rightarrow> K)
             else K
         | _ \<Rightarrow> K)
      else if opcode FlagSetter = CPI then
        (case opImm FlagSetter 1 of Some i \<Rightarrow> setKnown A (Some (i mod 256)) K | None \<Rightarrow> K)
      else K))"

definition seedPredecessorValues :: "machine_instr list option \<Rightarrow> nat \<Rightarrow> bool \<Rightarrow> known \<Rightarrow> known" where
  "seedPredecessorValues Pred MBB isLayoutSuccessor K = (case Pred of
     None \<Rightarrow> K
   | Some MIs \<Rightarrow>
     (case rev MIs of
        [] \<Rightarrow> K
      | Term # Before \<Rightarrow>
        if opcode Term \<in> {Jcc COND_Z, Jcc COND_NZ} \<and> clearedA Before then setKnown A (Some 0) K
        else if zeroProvenPath Term MBB isLayoutSuccessor then seedFlagSetter Before K
        else K))"

section \<open>The block\<close>

text \<open>What takes the place of an MVI, and of any other instruction.\<close>

definition combineMVI :: "machine_instr \<Rightarrow> preg \<Rightarrow> int \<Rightarrow> known \<Rightarrow> machine_instr list" where
  "combineMVI MI Dst Imm K =
    (if (case K Dst of Some v \<Rightarrow> v mod 256 = Imm mod 256 | None \<Rightarrow> False) then []
     else case findRegWithValue Imm Dst K of
       Some Src \<Rightarrow> [BuildMI MOVrr [addRegDef Dst, addReg Src]]
     | None \<Rightarrow>
       (case K Dst of
          Some v \<Rightarrow>
            if v mod 256 = (Imm - 1) mod 256 then [BuildMI INRr [addRegDef Dst, addReg Dst]]
            else if v mod 256 = (Imm + 1) mod 256 then [BuildMI DCRr [addRegDef Dst, addReg Dst]]
            else [MI]
        | None \<Rightarrow> [MI]))"

definition combine :: "(machine_instr \<Rightarrow> bool) \<Rightarrow> machine_instr \<Rightarrow> known \<Rightarrow> machine_instr list" where
  "combine patched MI K =
    (case (opcode MI, opReg MI 0, plainImm patched MI) of
       (MVIr, Some Dst, Some i) \<Rightarrow> combineMVI MI Dst (i mod 256) K
     | (LXI, Some Rp, Some i) \<Rightarrow>
         (case pairHalves Rp of
            Some (h, l) \<Rightarrow> if K h = Some (i mod 65536 div 256) \<and> K l = Some (i mod 256) then [] else [MI]
          | None \<Rightarrow> [MI])
     | _ \<Rightarrow> [MI])"

fun processLoop :: "(machine_instr \<Rightarrow> bool) \<Rightarrow> known \<Rightarrow> machine_instr list \<Rightarrow> machine_instr list" where
  "processLoop patched K [] = []"
| "processLoop patched K (MI # MIs) =
    (let K = invalidateUndefUses MI K in combine patched MI K @ processLoop patched (track patched MI K) MIs)"

definition entryTable ::
  "(machine_instr \<Rightarrow> bool) \<Rightarrow> machine_instr list option \<Rightarrow> nat \<Rightarrow> bool \<Rightarrow> preg list \<Rightarrow> known" where
  "entryTable patched Pred MBB isLayoutSuccessor entryRegs =
    seedPredecessorValues Pred MBB isLayoutSuccessor
      (dropEntryValuesNotLiveIn entryRegs (initFromPredecessor patched Pred))"

definition processBlock ::
  "(machine_instr \<Rightarrow> bool) \<Rightarrow> machine_instr list option \<Rightarrow> nat \<Rightarrow> bool \<Rightarrow> preg list \<Rightarrow> machine_instr list \<Rightarrow> machine_instr list" where
  "processBlock patched Pred MBB isLayoutSuccessor entryRegs MIs =
    processLoop patched (entryTable patched Pred MBB isLayoutSuccessor entryRegs) MIs"

section \<open>The table is right\<close>

definition agrees :: "known \<Rightarrow> cpu \<Rightarrow> bool" where
  "agrees K s \<longleftrightarrow> (\<forall>r v. K r = Some v \<longrightarrow> GR8 r \<and> r8 s r = word_of_int v)"

lemma tracked_iff [simp]: "tracked r \<longleftrightarrow> GR8 r"
  by (cases r) (simp_all add: tracked_def TrackedRegs_def List.member_iff)

lemma agrees_mono: "agrees K s \<Longrightarrow> K' \<subseteq>\<^sub>m K \<Longrightarrow> agrees K' s"
  unfolding agrees_def map_le_def by (metis domI)

lemma agrees_cong: "agrees K s \<Longrightarrow> (\<And>r. GR8 r \<Longrightarrow> r8 t r = r8 s r) \<Longrightarrow> agrees K t"
  by (simp add: agrees_def)

lemma agrees_None [simp]: "agrees (\<lambda>r. None) s"
  by (simp add: agrees_def)

lemma agrees_setKnown:
  "agrees K s \<Longrightarrow> (GR8 r \<Longrightarrow> r8 s r = word_of_int v) \<Longrightarrow> agrees (setKnown r (Some v) K) s"
  "agrees K s \<Longrightarrow> agrees (setKnown r (Some v) K) (setR r (word_of_int v) s)"
  "agrees K s \<Longrightarrow> agrees (setKnown r None K) (setR r w s)"
  "agrees K s \<Longrightarrow> agrees (setKnown r None K) s"
  by (auto simp: agrees_def setKnown_def setR_def)

lemma setKnown_le [simp]: "setKnown r None K \<subseteq>\<^sub>m K"
  by (auto simp: setKnown_def map_le_def split: if_splits)

lemma invalidate_le: "invalidate r K \<subseteq>\<^sub>m K" "invalidateWithSubSuper r K \<subseteq>\<^sub>m K"
  by (auto simp: invalidate_def invalidateWithSubSuper_def setKnown_def map_le_def Let_def split: if_splits)

lemma invalidate_mono:
  "K' \<subseteq>\<^sub>m K \<Longrightarrow> invalidate r K' \<subseteq>\<^sub>m invalidate r K"
  "K' \<subseteq>\<^sub>m K \<Longrightarrow> invalidateWithSubSuper r K' \<subseteq>\<^sub>m invalidateWithSubSuper r K"
  by (auto simp: invalidate_def invalidateWithSubSuper_def setKnown_def map_le_def dom_def Let_def)

lemma fold_le:
  assumes "\<And>x K. f x K \<subseteq>\<^sub>m K"
  shows "fold f xs K \<subseteq>\<^sub>m K"
proof (induction xs arbitrary: K)
  case (Cons x xs)
  show ?case using map_le_trans [OF Cons.IH assms] by simp
qed simp

lemma invalidateOperands_le:
  "invalidateOperands P m K \<subseteq>\<^sub>m K"
  "x \<in> set (operands m) \<Longrightarrow> P x \<Longrightarrow> getReg x = Some r \<Longrightarrow> invalidateOperands P m K \<subseteq>\<^sub>m invalidateWithSubSuper r K"
proof -
  let ?f = "\<lambda>MO K. if P MO then (case getReg MO of Some r \<Rightarrow> invalidateWithSubSuper r K | None \<Rightarrow> K) else K"
  have step: "?f x K \<subseteq>\<^sub>m K" for x K by (simp add: invalidate_le split: option.splits)
  show "invalidateOperands P m K \<subseteq>\<^sub>m K" unfolding invalidateOperands_def by (rule fold_le [OF step])
  assume x: "x \<in> set (operands m)" "P x" "getReg x = Some r"
  then obtain xs ys where "operands m = xs @ x # ys" by (meson split_list)
  then have eq: "invalidateOperands P m K = fold ?f ys (invalidateWithSubSuper r (fold ?f xs K))"
    using x by (simp add: invalidateOperands_def)
  show "invalidateOperands P m K \<subseteq>\<^sub>m invalidateWithSubSuper r K"
    unfolding eq by (rule map_le_trans [OF fold_le [OF step] invalidate_mono(2) [OF fold_le [OF step]]])
qed

lemma trackDefs_le:
  "trackDefs m K \<subseteq>\<^sub>m K"
  "x \<in> set (operands m) \<Longrightarrow> isDef x \<Longrightarrow> getReg x = Some r \<Longrightarrow> trackDefs m K \<subseteq>\<^sub>m invalidateWithSubSuper r K"
proof -
  have le: "trackDefs m K \<subseteq>\<^sub>m invalidateOperands isDef m K"
    by (simp add: trackDefs_def Let_def invalidate_le(1))
  show "trackDefs m K \<subseteq>\<^sub>m K" by (rule map_le_trans [OF le invalidateOperands_le(1)])
  show "trackDefs m K \<subseteq>\<^sub>m invalidateWithSubSuper r K"
    if "x \<in> set (operands m)" "isDef x" "getReg x = Some r"
    by (rule map_le_trans [OF le invalidateOperands_le(2)]) (use that in auto)
qed

lemma agrees_pair:
  "GR16All p \<Longrightarrow> agrees K s \<Longrightarrow> agrees (invalidateWithSubSuper p K) (setP p w s)"
  by (cases p) (auto simp: agrees_def invalidateWithSubSuper_def invalidate_def setKnown_def split: if_splits)

text \<open>The written registers of a well-formed instruction are defined by an operand.\<close>

lemma wf_written:
  assumes "wf_instr m" "q \<in> set (take (num_outs (opcode m)) (ex_regs (operands m)) @ implicit_defs (opcode m))"
  shows "\<exists>x \<in> set (operands m). isDef x \<and> getReg x = Some q"
  using assms(1)
proof (rule wf_instrE)
  fix exs kim him
  assume ops: "set (operands m) \<inter> {x. isReg x} = set exs \<union> set kim \<union> set him"
    and rs: "ex_regs (operands m) = map (the \<circ> getReg) exs"
    and outs: "\<forall>x \<in> set (take (num_outs (opcode m)) exs). isReg x \<and> isDef x"
    and d: "list_all2 (described (opcode m)) (implicit_operands (opcode m)) kim"
  have in_ops: "x \<in> set (operands m)" if "x \<in> set exs \<union> set kim" for x
  proof -
    have "x \<in> set exs \<union> set kim \<union> set him" using that by blast
    then show ?thesis unfolding ops [symmetric] by (rule IntD1)
  qed
  have reg: "getReg x = Some (the (getReg x))" if "isReg x" for x using that by (cases x) simp_all
  consider x where "x \<in> set (take (num_outs (opcode m)) exs)" "q = the (getReg x)"
    | "q \<in> set (implicit_defs (opcode m))"
    using assms(2) by (auto simp: rs take_map)
  then show ?thesis
  proof cases
    case 1
    then have "isReg x" "isDef x" "x \<in> set exs" using outs by (auto dest: in_set_takeD)
    then show ?thesis using reg 1(2) in_ops by (intro bexI [of _ x]) auto
  next
    case 2
    then obtain x where x: "x \<in> set kim" "isReg x" "isDef x" "the (getReg x) = q"
      using described_sets(1) [OF d, of "\<lambda>p. p = q"] by blast
    then show ?thesis using reg [OF x(2)] in_ops by (intro bexI [of _ x]) auto
  qed
qed

text \<open>An instruction that no special case of the table covers.\<close>

lemma overlap_pair: "GR8 r \<Longrightarrow> regsOverlap q r \<Longrightarrow> q \<noteq> PSW \<Longrightarrow> invalidateWithSubSuper q K r = None"
  by (cases q; cases r; simp add: invalidateWithSubSuper_def invalidate_def setKnown_def Let_def)

lemma written_no_PSW:
  assumes "list_all2 (\<lambda>c x. c x) (the (reg_classes opc)) rs" "reg_classes opc \<noteq> None" "opc \<noteq> POP"
  shows "PSW \<notin> set (take (num_outs opc) rs @ implicit_defs opc)"
  using assms by (cases opc; simp add: list_all2_Cons1) (auto simp: list_all2_Cons1 split: if_splits)

lemma agrees_trackDefs:
  assumes "agrees K s" "exec env m s = Some (c, t)" "wf_instr m" "opcode m \<noteq> POP"
  shows "agrees (trackDefs m K) t"
  unfolding agrees_def
proof (intro allI impI)
  fix r v
  assume known: "trackDefs m K r = Some v"
  then have K: "K r = Some v" using trackDefs_le(1) by (metis domI map_le_def)
  then have r: "GR8 r" "r8 s r = word_of_int v" using assms(1) by (auto simp: agrees_def)
  obtain cls: "list_all2 (\<lambda>c x. c x) (the (reg_classes (opcode m))) (ex_regs (operands m))" "reg_classes (opcode m) \<noteq> None"
    using assms(3) by (rule wf_instrE)
  have "\<not> regsOverlap q r" if q: "q \<in> set (take (num_outs (opcode m)) (ex_regs (operands m)) @ implicit_defs (opcode m))" for q
  proof
    assume o: "regsOverlap q r"
    obtain x where "x \<in> set (operands m)" "isDef x" "getReg x = Some q" using wf_written [OF assms(3) q] by blast
    then have "trackDefs m K \<subseteq>\<^sub>m invalidateWithSubSuper q K" by (rule trackDefs_le(2))
    moreover have "q \<noteq> PSW" using written_no_PSW [OF cls assms(4)] q by auto
    ultimately show False using overlap_pair [OF r(1) o] known by (metis domI map_le_def option.simps(3))
  qed
  then have "r8 t r = r8 s r"
    using assms(2) by (intro step_keeps_reg [OF cls r(1)]) (auto simp: exec_def)
  then show "GR8 r \<and> r8 t r = word_of_int v" using r by simp
qed

text \<open>
  The register operands come first, in the order in which they are executed, INR and DCR work in place
  (\<open>$dst = $rs\<close> in their definitions), an MVI and an LXI have one value and a branch names its block first.
\<close>

definition immShape :: "machine_instr \<Rightarrow> bool" where
  "immShape m \<longleftrightarrow> (\<forall>i < length (ex_regs (operands m)). opReg m i = Some (ex_regs (operands m) ! i)) \<and>
    (opcode m = INRr \<or> opcode m = DCRr \<longrightarrow> opReg m 0 = opReg m 1) \<and>
    (opcode m = MVIr \<or> opcode m = LXI \<longrightarrow> length (filter (\<lambda>x. \<not> isReg x) (operands m)) = 1) \<and>
    (\<forall>b \<in> set (ex_mbbs (operands m)). opMBB m 0 = Some b)"

lemma lo8_of_int: "lo8 (word_of_int i) = word_of_int (i mod 256)"
  by (simp add: lo8_word_of_int word_of_int_mod_byte)

lemma hi8_of_int: "hi8 (word_of_int i) = word_of_int (i mod 65536 div 256)"
proof -
  have "i mod 65536 div 256 = drop_bit 8 (take_bit 16 i)" by (simp add: take_bit_eq_mod drop_bit_eq_div)
  then show ?thesis by (auto intro!: bit_word_eqI simp: bytes bit_simps add.commute)
qed

lemma agrees_pairs:
  assumes "agrees K s"
  shows "GR16All p \<Longrightarrow> agrees (invalidateWithSubSuper p K) (setP p w s)"
    and "GR16Stack p \<Longrightarrow> agrees (let K = invalidateWithSubSuper p K in if p = PSW then invalidate A K else K) (setP p w (s\<lparr>sp := x\<rparr>))"
    and "GR16All p \<Longrightarrow> agrees (case pairHalves p of
         Some (h, l) \<Rightarrow> setKnown l (Some (i mod 256)) (setKnown h (Some (i mod 65536 div 256)) K) | None \<Rightarrow> K)
       (setP p (word_of_int i) s)"
proof -
  note hi = hi8_of_int and lo = lo8_of_int
  show "GR16All p \<Longrightarrow> agrees (invalidateWithSubSuper p K) (setP p w s)"
    using assms by (rule agrees_pair [rotated])
  show "GR16Stack p \<Longrightarrow> agrees (let K = invalidateWithSubSuper p K in if p = PSW then invalidate A K else K) (setP p w (s\<lparr>sp := x\<rparr>))"
    using assms by (cases p) (auto simp: agrees_def invalidateWithSubSuper_def invalidate_def setKnown_def split: if_splits)
  show "GR16All p \<Longrightarrow> agrees (case pairHalves p of
         Some (h, l) \<Rightarrow> setKnown l (Some (i mod 256)) (setKnown h (Some (i mod 65536 div 256)) K) | None \<Rightarrow> K)
       (setP p (word_of_int i) s)"
    using assms by (cases p) (auto simp: agrees_def pairHalves_def setKnown_def hi lo split: if_splits)
qed

lemma agrees_A:
  assumes "agrees K s" "\<And>r. GR8 r \<Longrightarrow> r \<noteq> A \<Longrightarrow> r8 t r = r8 s r"
  shows "agrees (invalidate A K) t"
  using assms by (auto simp: agrees_def invalidate_def setKnown_def split: if_splits)

lemma agrees_XCHG:
  "agrees K s \<Longrightarrow> agrees (K(D := K H, H := K D, E := K L, L := K E)) (setP HL (getP DE s) (setP DE (getP HL s) s))"
  by (auto simp: agrees_def split: if_splits)

lemma track_sound:
  assumes K: "agrees K s" and ex: "exec env m s = Some (c, t)" and wf: "wf_instr m" and first: "immShape m"
  shows "agrees (track patched m K) t"
proof -
  obtain cls: "list_all2 (\<lambda>c x. c x) (the (reg_classes (opcode m))) (ex_regs (operands m))" "reg_classes (opcode m) \<noteq> None"
    using wf by (rule wf_instrE)
  let ?rs = "ex_regs (operands m)"
  have op0: "?rs = r # rs \<Longrightarrow> opReg m 0 = Some r" for r rs using first by (auto simp: immShape_def)
  have op1: "?rs = q # r # rs \<Longrightarrow> opReg m 1 = Some r" for q r rs using first by (force simp: immShape_def)
  have op2: "?rs = p # q # r # rs \<Longrightarrow> opReg m 2 = Some r" for p q r rs using first by (force simp: immShape_def)
  have imm: "v = word_of_int i" if "plainImm patched m = Some i" "ex_vals env (operands m) = [v]" for v i
  proof -
    have "MO_Immediate i \<in> set (operands m)"
      using that(1) by (auto simp: plainImm_def opImm_def in_set_conv_nth split: if_splits elim!: getImm.elims)
    from ex_vals_imm [OF this, of env] that(2) show ?thesis by simp
  qed
  have default: "opcode m \<noteq> POP \<Longrightarrow> agrees (trackDefs m K) t"
    by (rule agrees_trackDefs [OF K ex wf])
  have onA: "agrees (invalidate A K) t" if "\<And>r. GR8 r \<Longrightarrow> r \<noteq> A \<Longrightarrow> r8 t r = r8 s r" by (rule agrees_A [OF K that])
  note d = exec_def step_def track_def onReg_def
  have onlyA: "agrees (invalidate A K) t" if "opcode m \<in> {LDA, LDAX, RLC, RRC, RAL, RAR, CMA, DAA}"
  proof (rule onA)
    fix r assume r: "GR8 r" "r \<noteq> A"
    have "\<forall>q \<in> set (take (num_outs (opcode m)) ?rs @ implicit_defs (opcode m)). \<not> regsOverlap q r"
      using cls(1) that r by (elim insertE) (auto simp: list_all2_Cons1 simp del: regsOverlap_code)
    then show "r8 t r = r8 s r" using ex by (intro step_keeps_reg [OF cls r(1)]) (auto simp: exec_def)
  qed
  show ?thesis
  proof (cases "opcode m")
    case MVIr
    then obtain r v where *: "?rs = [r]" "GR8 r" "ex_vals env (operands m) = [v]" "t = setR r (lo8 v) s"
      using ex cls by (auto simp: d list_all2_Cons1 split: list.splits)
    then have "track patched m K = trackMVI patched m r K" using op0 MVIr by (simp add: d)
    then show ?thesis
      using K imm [OF _ *(3)] *(4)
      by (cases "plainImm patched m") (auto simp: trackMVI_def invalidate_def lo8_of_int intro: agrees_setKnown)
  next
    case LXI
    then obtain r v where *: "?rs = [r]" "GR16All r" "ex_vals env (operands m) = [v]" "t = setP r v s"
      using ex cls by (auto simp: d list_all2_Cons1 split: list.splits)
    then have "track patched m K = trackLXI patched m r K" using op0 LXI by (simp add: d)
    then show ?thesis
      using agrees_pairs(1,3) [OF K *(2)] imm [OF _ *(3)] *(4)
      by (cases "plainImm patched m") (simp_all add: trackLXI_def del: setP.simps)
  next
    case MOVrr
    then obtain r q where "?rs = [r, q]" "GR8 r" "GR8 q" "t = setR r (r8 s q) s"
      using ex cls by (auto simp: d list_all2_Cons1 split: list.splits)
    then show ?thesis
      using K op0 op1 MOVrr by (cases "K q") (auto simp: d agrees_def setKnown_def setR_def)
  next
    case MOVrM
    then obtain r where "?rs = [r]" "GR8 r" "t = setR r (mem s (getP HL s)) s"
      using ex cls by (auto simp: d list_all2_Cons1 split: list.splits)
    then show ?thesis using K op0 MOVrM by (auto simp: d invalidate_def intro: agrees_setKnown)
  next
    case INRr
    then obtain r q where *: "?rs = [r, q]" "GR8 r" "r8 t = (r8 s)(r := r8 s q + 1)"
      using ex cls by (auto simp: d list_all2_Cons1 setR_def split: list.splits)
    moreover have "opReg m 0 = opReg m 1" using first INRr unfolding immShape_def by blast
    ultimately have "q = r" using op0 [OF *(1)] op1 [OF *(1)] by (metis option.inject)
    then show ?thesis using * K op0 INRr
      by (cases "K r") (auto simp: d agrees_def setKnown_def word_of_int_mod_byte)
  next
    case DCRr
    then obtain r q where *: "?rs = [r, q]" "GR8 r" "r8 t = (r8 s)(r := r8 s q - 1)"
      using ex cls by (auto simp: d list_all2_Cons1 setR_def split: list.splits)
    moreover have "opReg m 0 = opReg m 1" using first DCRr unfolding immShape_def by blast
    ultimately have "q = r" using op0 [OF *(1)] op1 [OF *(1)] by (metis option.inject)
    then show ?thesis using * K op0 DCRr
      by (cases "K r") (auto simp: d agrees_def setKnown_def word_of_int_mod_byte)
  next
    case POP
    then obtain r where "?rs = [r]" "GR16Stack r" "t = setP r (pop16 s) (s\<lparr>sp := sp s + 2\<rparr>)"
      using ex cls by (auto simp: d list_all2_Cons1 split: list.splits)
    then show ?thesis using agrees_pairs(2) [OF K] op0 POP by (simp add: d del: setP.simps)
  next
    case INX
    then obtain r q where "?rs = [r, q]" "GR16All r" "t = setP r (getP q s + 1) s"
      using ex cls by (auto simp: d list_all2_Cons1 split: list.splits)
    then show ?thesis using agrees_pairs(1) [OF K] op0 INX by (simp add: d del: setP.simps getP.simps)
  next
    case DCX
    then obtain r q where "?rs = [r, q]" "GR16All r" "t = setP r (getP q s - 1) s"
      using ex cls by (auto simp: d list_all2_Cons1 split: list.splits)
    then show ?thesis using agrees_pairs(1) [OF K] op0 DCX by (simp add: d del: setP.simps getP.simps)
  next
    case XCHG
    then show ?thesis using ex agrees_XCHG [OF K] by (auto simp: d)
  next
    case (ALUr op)
    show ?thesis
    proof (cases "op = CMP")
      case True
      then show ?thesis using default ALUr by (simp add: track_def)
    next
      case False
      then obtain q p r where *: "?rs = [q, p, r]" "t = aluA op (r8 s r) s"
        using ex ALUr by (auto simp: d split: list.splits)
      have "agrees (setKnown A (Some 0) K) t" if "op = XRA" "r = A"
        using K that *(2) by (auto simp: agrees_def setKnown_def aluA_def split: if_splits)
      moreover have "agrees (invalidate A K) t" using *(2) by (intro onA) (simp add: aluA_def)
      ultimately show ?thesis using False op2 [OF *(1)] ALUr by (simp add: track_def)
    qed
  next
    case (ALUM op)
    then show ?thesis using ex default onA by (cases "op = CMP") (auto simp: d aluA_def)
  next
    case (ALUI op)
    then show ?thesis using ex default onA by (cases "op = CMP") (auto simp: d aluA_def split: list.splits)
  qed (use default onlyA in \<open>auto simp: track_def isCall_def invalidateAll_def\<close>)
qed

end
