(* ===== verification/LoadImmSound.thy ===== *)
theory LoadImmSound
  imports LoadImmCombine
begin

text \<open>
  Correctness of load-immediate combining: what the seeds claim at the entry of a block holds on the
  edge they are taken from, and the new block does what the old one did, provided the flags are dead
  wherever an INR or DCR is put.
\<close>

section \<open>States that agree but for flags other than the carry\<close>

definition cpu_cy :: "bool \<Rightarrow> cpu \<Rightarrow> cpu \<Rightarrow> bool" where
  "cpu_cy b s t \<longleftrightarrow> t = s\<lparr>fl := fl t\<rparr> \<and> fCY (fl t) = fCY (fl s) \<and> (b \<longrightarrow> fl t = fl s)"

fun readsSZP :: "opcode \<Rightarrow> bool" where
  "readsSZP DAA = True"
| "readsSZP (Jcc c) = (c \<noteq> COND_C \<and> c \<noteq> COND_NC)" | "readsSZP (Rcc c) = (c \<noteq> COND_C \<and> c \<noteq> COND_NC)"
| "readsSZP _ = False"

fun setsSZP :: "opcode \<Rightarrow> bool" where
  "setsSZP (ALUr _) = True" | "setsSZP (ALUM _) = True" | "setsSZP (ALUI _) = True"
| "setsSZP INRr = True" | "setsSZP DCRr = True" | "setsSZP INRM = True" | "setsSZP DCRM = True"
| "setsSZP _ = False"

definition looksAtSZP :: "machine_instr \<Rightarrow> bool" where
  "looksAtSZP m \<longleftrightarrow> readsSZP (opcode m) \<or> opcode m \<noteq> POP \<and> PSW \<in> set (ex_regs (operands m))"

abbreviation "flags_dead \<equiv> scan_dead looksAtSZP (\<lambda>m. setsSZP (opcode m))"

lemma alu_cy: "fCY g = fCY f \<Longrightarrow> alu op a b g = alu op a b f"
  by (cases op) simp_all

lemma cpu_cy_mono: "cpu_cy b s t \<Longrightarrow> (b' \<Longrightarrow> b) \<Longrightarrow> cpu_cy b' s t"
  by (auto simp: cpu_cy_def)

lemma cpu_cy_refl [simp]: "cpu_cy b s s"
  by (simp add: cpu_cy_def)

lemma cpu_cy_fl [simp]: "cpu_cy b (s\<lparr>fl := f\<rparr>) (s\<lparr>fl := g\<rparr>) \<longleftrightarrow> fCY g = fCY f \<and> (b \<longrightarrow> g = f)"
  by (simp add: cpu_cy_def)

lemma cpu_cy_setP:
  "fCY g = fCY f \<Longrightarrow> (b \<longrightarrow> g = f) \<Longrightarrow> cpu_cy b (setP p w (s\<lparr>fl := f\<rparr>)) (setP p w (s\<lparr>fl := g\<rparr>))"
  by (cases "p = PSW") (simp_all add: updates_fl del: setP.simps)

lemma inr_dcr_cy:
  "fCY (snd (alu_inr a f)) = fCY f" "fCY (snd (alu_dcr a f)) = fCY f"
  "fCY g = fCY f \<Longrightarrow> snd (alu_inr a g) = snd (alu_inr a f)" "fCY g = fCY f \<Longrightarrow> snd (alu_dcr a g) = snd (alu_dcr a f)"
  by (simp_all add: alu_inr_def alu_dcr_def Let_def)

lemma cond_cy: "fCY g = fCY f \<Longrightarrow> c = COND_C \<or> c = COND_NC \<Longrightarrow> cond_holds c g = cond_holds c f"
  by auto

lemma step_cy_fl:
  assumes "fCY g = fCY f" "PSW \<in> set rs \<longrightarrow> opc = POP" "\<not> readsSZP opc"
  shows "rel_option (rel_prod (=) (cpu_cy (setsSZP opc)))
    (step env opc rs vs bs (s\<lparr>fl := f\<rparr>)) (step env opc rs vs bs (s\<lparr>fl := g\<rparr>))"
proof -
  note simps = step_def updates_fl getP_fl setCY_fl r8_fl aluA_def dad_def alu_cy [OF assms(1)] inr_dcr_cy(1,2)
    inr_dcr_cy(3,4) [OF assms(1)]
    cond_cy [OF assms(1)]
  show ?thesis
    using cpu_cy_setP [of g f False] assms
    by (cases opc; auto simp: simps simp del: getP.simps setP.simps updates_setR split: list.splits)
qed

lemma exec_cy:
  assumes "cpu_cy b s t" "b \<or> \<not> looksAtSZP m"
  shows "rel_option (rel_prod (=) (cpu_cy (b \<or> setsSZP (opcode m)))) (exec env m s) (exec env m t)"
proof (cases b)
  case True
  then have "t = s" using assms(1) unfolding cpu_cy_def by (cases s; cases t) simp
  then show ?thesis by (auto intro!: option.rel_refl_strong simp: rel_prod_conv split_paired_all)
next
  case False
  have s: "s\<lparr>fl := fl s\<rparr> = s" and t: "s\<lparr>fl := fl t\<rparr> = t" and f: "fCY (fl t) = fCY (fl s)"
    using assms(1) unfolding cpu_cy_def by simp_all
  have "rel_option (rel_prod (=) (cpu_cy (setsSZP (opcode m))))
      (step env (opcode m) (ex_regs (operands m)) vs bs (s\<lparr>fl := fl s\<rparr>))
      (step env (opcode m) (ex_regs (operands m)) vs bs (s\<lparr>fl := fl t\<rparr>))" for vs bs
    by (rule step_cy_fl [OF f]) (use assms(2) False in \<open>auto simp: looksAtSZP_def\<close>)
  then show ?thesis using False unfolding s t exec_def by simp
qed

lemma setsSZP_goes_on: "setsSZP (opcode m) \<Longrightarrow> \<not> isTerminator m"
  by (cases "opcode m") (auto simp: isTerminator_def)

interpretation szp: flag_agreement cpu_cy "\<lambda>_. True" looksAtSZP "\<lambda>m. setsSZP (opcode m)"
  by unfold_locales (blast intro: cpu_cy_mono, rule exec_cy, auto simp: setsSZP_goes_on)

section \<open>The rewritten block\<close>

text \<open>Wherever an INR or DCR is put for an MVI, the flags are dead.\<close>

fun stepsAllowed :: "(machine_instr \<Rightarrow> bool) \<Rightarrow> preg list list \<Rightarrow> known \<Rightarrow> machine_instr list \<Rightarrow> bool" where
  "stepsAllowed patched succs K [] = True"
| "stepsAllowed patched succs K (MI # MIs) =
    (let K = invalidateUndefUses MI K in
     (combine patched MI K = [MI] \<or> list_all (\<lambda>m. \<not> setsSZP (opcode m)) (combine patched MI K) \<or> flags_dead succs MIs) \<and>
     stepsAllowed patched succs (track patched MI K) MIs)"

lemma findRegWithValue_Some: "findRegWithValue v x K = Some r \<Longrightarrow> K r = Some v"
  by (auto simp: findRegWithValue_def find_Some_iff split: option.splits if_splits)

lemma ex_vals_nonreg: "ex_vals env ops = ex_vals env (filter (\<lambda>x. \<not> isReg x) ops)"
  by (induction ops) (auto split: option.splits elim!: isReg.elims)

lemma plainImm_value:
  assumes "immShape m" "opcode m = MVIr \<or> opcode m = LXI" "plainImm patched m = Some i"
  shows "ex_vals env (operands m) = [word_of_int i]"
proof -
  obtain x where x: "filter (\<lambda>x. \<not> isReg x) (operands m) = [x]"
    using assms(1,2) by (auto simp: immShape_def length_Suc_conv)
  have "MO_Immediate i \<in> set (operands m)"
    using assms(3) by (auto simp: plainImm_def opImm_def in_set_conv_nth split: if_splits elim!: getImm.elims)
  then have "MO_Immediate i \<in> set (filter (\<lambda>x. \<not> isReg x) (operands m))" by simp
  then have "x = MO_Immediate i" unfolding x by simp
  then show ?thesis by (simp add: ex_vals_nonreg [of env "operands m"] x)
qed

lemma cpu_cy_setR: "cpu_cy b s t \<Longrightarrow> cpu_cy b (setR r v s) (setR r v t)"
  unfolding cpu_cy_def setR_def by (cases s; cases t) simp

lemma cpu_cy_newflags: "cpu_cy b s t \<Longrightarrow> fCY f = fCY (fl t) \<Longrightarrow> cpu_cy False s (t\<lparr>fl := f\<rparr>)"
  unfolding cpu_cy_def by (cases s; cases t) simp

lemma cpu_cy_r8: "cpu_cy b s t \<Longrightarrow> r8 t = r8 s"
  unfolding cpu_cy_def by (cases s; cases t) simp

text \<open>
  What stands in place of an instruction gives the same state, but for flags if one of them is set.
\<close>

lemma exec_combined:
  "exec env (BuildMI MOVrr [addRegDef r, addReg q]) t = cont (setR r (r8 t q) t)"
  "exec env (BuildMI INRr [addRegDef r, addReg q]) t = cont ((setR r (r8 t q + 1) t)\<lparr>fl := snd (alu_inr (r8 t q) (fl t))\<rparr>)"
  "exec env (BuildMI DCRr [addRegDef r, addReg q]) t = cont ((setR r (r8 t q - 1) t)\<lparr>fl := snd (alu_dcr (r8 t q) (fl t))\<rparr>)"
  "opcode (BuildMI opc ops) = opc"
  by (simp_all add: exec_simps) (simp add: BuildMI_def)

lemma combineMVI_run:
  assumes K: "agrees K s" and t: "cpu_cy b s t" and ne: "combineMVI m r i K \<noteq> [m]"
    and r: "GR8 r"
  shows "\<exists>t'. run env (combineMVI m r i K) t = cont t' \<and>
    cpu_cy (b \<and> list_all (\<lambda>m. \<not> setsSZP (opcode m)) (combineMVI m r i K)) (setR r (word_of_int i) s) t'"
proof -
  have r8: "r8 t q = word_of_int v" if "K q = Some v" for q v
    using K that cpu_cy_r8 [OF t] by (auto simp: agrees_def)
  have same: "(word_of_int v :: byte) = word_of_int w" if "v mod 256 = w mod 256" for v w
    using that word_of_int_mod_byte [of v] word_of_int_mod_byte [of w] by simp
  have t': "cpu_cy b (setR r (word_of_int i) s) (setR r (word_of_int i) t)" by (rule cpu_cy_setR [OF t])
  consider v where "K r = Some v" "v mod 256 = i mod 256" "combineMVI m r i K = []"
    | q where "K q = Some i" "combineMVI m r i K = [BuildMI MOVrr [addRegDef r, addReg q]]"
    | v where "K r = Some v" "v mod 256 = (i - 1) mod 256" "combineMVI m r i K = [BuildMI INRr [addRegDef r, addReg r]]"
    | v where "K r = Some v" "v mod 256 = (i + 1) mod 256" "combineMVI m r i K = [BuildMI DCRr [addRegDef r, addReg r]]"
    using ne unfolding combineMVI_def by (auto dest: findRegWithValue_Some split: option.splits if_splits)
  then show ?thesis
  proof cases
    case 1
    then have "setR r (word_of_int i) t = t" using r8 [OF 1(1)] same [OF 1(2)] by (simp add: setR_def fun_upd_idem)
    then show ?thesis using t' 1(3) by simp
  next
    case 2
    then show ?thesis using t' r8 [OF 2(1)] by (simp add: exec_combined)
  next
    case 3
    have "r8 t r + 1 = word_of_int i" using r8 [OF 3(1)] same [OF 3(2)] by simp
    then show ?thesis using cpu_cy_newflags [OF t'] 3(3) by (simp add: exec_combined inr_dcr_cy(1,2))
  next
    case 4
    have "r8 t r - 1 = word_of_int i" using r8 [OF 4(1)] same [OF 4(2)] by simp
    then show ?thesis using cpu_cy_newflags [OF t'] 4(3) by (simp add: exec_combined inr_dcr_cy(1,2))
  qed
qed

lemma combine_run:
  assumes K: "agrees K s" and wf: "wf_instr m" and first: "immShape m"
    and t: "cpu_cy b s t" and ne: "combine patched m K \<noteq> [m]"
  shows "opcode m \<in> {MVIr, LXI} \<and> \<not> looksAtSZP m \<and> (\<exists>s' t'. exec env m s = cont s' \<and>
    run env (combine patched m K) t = cont t' \<and>
    cpu_cy (b \<and> list_all (\<lambda>m. \<not> setsSZP (opcode m)) (combine patched m K)) s' t')"
proof -
  obtain cls: "list_all2 (\<lambda>c x. c x) (the (reg_classes (opcode m))) (ex_regs (operands m))" "reg_classes (opcode m) \<noteq> None"
    using wf by (rule wf_instrE)
  have op0: "ex_regs (operands m) = [r] \<Longrightarrow> opReg m 0 = Some r" for r using first by (simp add: immShape_def)
  obtain i where i: "plainImm patched m = Some i" "opcode m = MVIr \<or> opcode m = LXI"
    using ne by (cases "plainImm patched m") (auto simp: combine_def split: opcode.splits option.splits)
  note vals = plainImm_value [OF first i(2,1)]
  show ?thesis
  proof (cases "opcode m = MVIr")
    case True
    then obtain r where r: "ex_regs (operands m) = [r]" "GR8 r" using cls by (auto simp: list_all2_Cons1)
    then have c: "combine patched m K = combineMVI m r (i mod 256) K" using op0 i True by (simp add: combine_def)
    have "exec env m s = cont (setR r (word_of_int (i mod 256)) s)"
      using r vals True by (simp add: exec_def exec_simps lo8_of_int)
    then show ?thesis
      using combineMVI_run [OF K t _ r(2), of m "i mod 256"] ne True r unfolding c by (auto simp: looksAtSZP_def)
  next
    case False
    then have l: "opcode m = LXI" using i(2) by simp
    then obtain r where r: "ex_regs (operands m) = [r]" "GR16All r" using cls by (auto simp: list_all2_Cons1)
    then obtain h l' where p: "pairHalves r = Some (h, l')" "K h = Some (i mod 65536 div 256)" "K l' = Some (i mod 256)"
        "combine patched m K = []"
      using op0 i l ne by (auto simp: combine_def split: option.splits if_splits)
    have ex: "exec env m s = cont (setP r (word_of_int i) s)" using r vals l by (simp add: exec_def exec_simps)
    have "setP r (word_of_int i) s = s"
      using K p(1-3) r(2) by (cases r)
        (auto simp: pairHalves_def agrees_def setR_def hi8_of_int lo8_of_int fun_upd_idem split: if_splits)
    then show ?thesis using ex p(4) t l r by (auto simp: looksAtSZP_def)
  qed
qed

lemma processLoop_run:
  assumes "agrees K s" "cpu_cy b s t" "list_all wf_instr ms" "list_all immShape ms"
    and "b \<or> flags_dead succs ms" "stepsAllowed patched succs K ms"
  shows "rel_option (ends_alike cpu_cy succs) (run env ms s) (run env (processLoop patched K ms) t)"
  using assms
proof (induction ms arbitrary: K b s t)
  case Nil
  then show ?case by (simp add: szp.run_Nil [where env = env, simplified])
next
  case (Cons m ms)
  let ?K = "invalidateUndefUses m K" and ?c = "combine patched m (invalidateUndefUses m K)"
  have K: "agrees ?K s"
    using Cons.prems(1) by (rule agrees_mono) (simp add: invalidateUndefUses_def invalidateOperands_le(1))
  have m: "wf_instr m" "immShape m" using Cons.prems by simp_all
  have loop: "processLoop patched K (m # ms) = ?c @ processLoop patched (track patched m ?K) ms" by (simp add: Let_def)
  show ?case
  proof (cases "?c = [m]")
    case True
    have "rel_option (ends_alike cpu_cy succs) (run env (m # ms) s) (run env (m # processLoop patched (track patched m ?K) ms) t)"
    proof (rule szp.run_Cons [OF Cons.prems(2)])
      fix b' s' t'
      assume "exec env m s = cont s'" "cpu_cy b' s' t'" "b' \<or> flags_dead succs ms"
      then show "rel_option (ends_alike cpu_cy succs) (run env ms s') (run env (processLoop patched (track patched m ?K) ms) t')"
        using Cons.prems track_sound [OF K _ m] by (intro Cons.IH) (simp_all add: Let_def)
    qed (use Cons.prems in auto)
    then show ?thesis unfolding loop True by simp
  next
    case False
    from combine_run [OF K m Cons.prems(2) False]
    obtain s' t' where c: "opcode m \<in> {MVIr, LXI}" "\<not> looksAtSZP m" and ex: "exec env m s = cont s'"
      and run: "run env ?c t = cont t'"
      and t': "cpu_cy (b \<and> list_all (\<lambda>m. \<not> setsSZP (opcode m)) ?c) s' t'" by blast
    have "(b \<and> list_all (\<lambda>m. \<not> setsSZP (opcode m)) ?c) \<or> flags_dead succs ms"
      using Cons.prems(5,6) False c by (auto simp: Let_def)
    then have "rel_option (ends_alike cpu_cy succs) (run env ms s') (run env (processLoop patched (track patched m ?K) ms) t')"
      using Cons.prems track_sound [OF K ex m] t' by (intro Cons.IH) (simp_all add: Let_def)
    then show ?thesis unfolding loop run_append_Next [OF run] using ex by simp
  qed
qed

section \<open>The entry of a block\<close>

text \<open>The table carried through the predecessor is right wherever the predecessor is left.\<close>

lemma track_terminator: "isTerminator m \<Longrightarrow> track patched m K \<subseteq>\<^sub>m K"
  by (cases "opcode m") (auto simp: isTerminator_def track_def isCall_def trackDefs_le(1))

definition afterInstr :: "(machine_instr \<Rightarrow> bool) \<Rightarrow> machine_instr \<Rightarrow> known \<Rightarrow> known" where
  "afterInstr patched MI K = invalidateKilledUses MI (track patched MI (invalidateUndefUses MI K))"

lemma initFromPredecessor_fold:
  "initFromPredecessor patched (Some MIs) = fold (afterInstr patched) MIs invalidateAll"
  by (simp add: initFromPredecessor_def afterInstr_def [abs_def])

lemma undef_kill_le: "invalidateUndefUses m K \<subseteq>\<^sub>m K" "invalidateKilledUses m K \<subseteq>\<^sub>m K"
  by (simp_all add: invalidateUndefUses_def invalidateKilledUses_def invalidateOperands_le(1))

lemma afterInstr_terminator: "isTerminator m \<Longrightarrow> afterInstr patched m K \<subseteq>\<^sub>m K"
  unfolding afterInstr_def
  by (rule map_le_trans [OF undef_kill_le(2) map_le_trans [OF track_terminator undef_kill_le(1)]])

lemma fold_terminators: "list_all isTerminator ms \<Longrightarrow> fold (afterInstr patched) ms K \<subseteq>\<^sub>m K"
proof (induction ms arbitrary: K)
  case (Cons m ms)
  show ?case using map_le_trans [OF Cons.IH afterInstr_terminator] Cons.prems by simp
qed simp

lemma afterInstr_sound:
  assumes "agrees K s" "exec env m s = Some (c, t)" "wf_instr m" "immShape m"
  shows "agrees (afterInstr patched m K) t"
  unfolding afterInstr_def
  by (rule agrees_mono [OF track_sound undef_kill_le(2)]) (use assms undef_kill_le(1) agrees_mono in blast)+

lemma final_last_tail: "final_last isTerminator (m # ms) \<Longrightarrow> isTerminator m \<Longrightarrow> list_all isTerminator ms"
  by (induction ms arbitrary: m) auto

lemma fold_sound:
  assumes "agrees K s0" "run env ms s0 = Some (c, s)"
    "list_all wf_instr ms" "list_all immShape ms" "final_last isTerminator ms"
  shows "agrees (fold (afterInstr patched) ms K) s"
  using assms
proof (induction ms arbitrary: K s0)
  case (Cons m ms)
  obtain c' t where ex: "exec env m s0 = Some (c', t)" using Cons.prems(2) by (auto split: option.splits)
  have t: "agrees (afterInstr patched m K) t" using afterInstr_sound [OF Cons.prems(1) ex] Cons.prems by simp
  show ?case
  proof (cases "c' = Next")
    case True
    then show ?thesis using Cons.IH [OF t] Cons.prems ex by simp
  next
    case False
    then have "list_all isTerminator ms" using exec_leaves [OF ex] Cons.prems(5) by (blast intro: final_last_tail)
    then show ?thesis using False Cons.prems(2) ex agrees_mono [OF t fold_terminators] by simp
  qed
qed simp

text \<open>The last instructions of a predecessor, when none before them leaves it.\<close>

lemma run_straight:
  "list_all (\<lambda>m. \<not> isTerminator m) ms \<Longrightarrow> run env ms s = Some (c, t) \<Longrightarrow> c = Next"
proof (induction ms arbitrary: s)
  case (Cons m ms)
  obtain c' u where ex: "exec env m s = Some (c', u)" using Cons.prems(2) by (auto split: option.splits)
  then have "c' = Next" using exec_leaves Cons.prems(1) by fastforce
  then show ?case using Cons ex by simp
qed simp

lemma run_snoc:
  assumes "run env (ms @ [m]) s = Some (c, t)" "list_all (\<lambda>m. \<not> isTerminator m) ms"
  shows "\<exists>u. run env ms s = cont u \<and> exec env m u = Some (c, t)"
proof -
  obtain c' u where "run env ms s = Some (c', u)" using assms(1) by (auto simp: run_append split: option.splits)
  moreover from this have "c' = Next" using run_straight assms(2) by blast
  ultimately show ?thesis using assms(1) by (auto simp: run_append split: option.splits if_splits)
qed

lemma final_last_before:
  "final_last isTerminator (ms @ m # ns) \<Longrightarrow> \<not> isTerminator m \<Longrightarrow> list_all (\<lambda>m. \<not> isTerminator m) ms"
  by (induction ms) auto

text \<open>
  A conditional branch to the block that follows in the layout leads there in both cases: the seeds
  take the one for the other.
\<close>

definition bothWays :: "machine_instr list \<Rightarrow> nat \<Rightarrow> bool \<Rightarrow> bool" where
  "bothWays Pred MBB isLayoutSuccessor = (isLayoutSuccessor \<and>
    list_ex (\<lambda>m. (opcode m = Jcc COND_Z \<or> opcode m = Jcc COND_NZ) \<and> opMBB m 0 = Some MBB) Pred)"

lemma zero_path:
  assumes "zeroProvenPath Term MBB ls" "exec env Term u = Some (c, s)" "c = Goto MBB \<or> c = Next \<and> ls"
    "immShape Term" "\<not> bothWays [Term] MBB ls"
  shows "s = u \<and> fZ (fl u)"
proof -
  consider "opcode Term = Jcc COND_NZ" "ls" | "opcode Term = Rcc COND_NZ" "ls"
    | "opcode Term = Jcc COND_Z" "opMBB Term 0 = Some MBB"
    using assms(1) by (auto simp: zeroProvenPath_def isNZBranchTerminator_def isZBranchTerminator_def)
  then show ?thesis
    by cases (use assms(2-) in \<open>auto simp: exec_def step_def immShape_def bothWays_def split: list.splits if_splits\<close>)
qed

lemma clearedA_zero:
  assumes "clearedA Before" "run env (rev Before) s0 = cont u" "list_all immShape Before" "list_all wf_instr Before"
    and "list_all (\<lambda>m. \<not> isTerminator m) (rev Before)"
  shows "r8 u A = 0"
proof -
  obtain cmp xra rest where b: "Before = cmp # xra # rest" "opcode cmp = CMPr" "opcode xra = XRAr" "opReg xra 2 = Some A"
    using assms(1) by (auto simp: clearedA_def split: list.splits)
  obtain v where v: "run env (rev rest @ [xra]) s0 = cont v" "exec env cmp v = cont u"
    using run_snoc [of env "rev rest @ [xra]" cmp s0 Next u] assms(2,5) b(1) by auto
  obtain w where w: "exec env xra w = cont v" using run_snoc [OF v(1)] assms(5) b(1) by auto
  obtain q p r where "ex_regs (operands xra) = [q, p, r]" "v = aluA XRA (r8 w r) w"
    using w b(3) by (auto simp: exec_def step_def split: list.splits)
  moreover from this have "r = A" using assms(3) b by (force simp: immShape_def)
  ultimately have "r8 v A = 0" by (simp add: aluA_def)
  then show ?thesis using v(2) b(2) by (auto simp: exec_def step_def aluA_def split: list.splits)
qed

lemma immShape_op:
  "immShape m \<Longrightarrow> i < length (ex_regs (operands m)) \<Longrightarrow> opReg m i = Some (ex_regs (operands m) ! i)"
  by (simp add: immShape_def)

text \<open>What the flag setter left when the zero flag is set.\<close>

lemma agrees_setKnown0: "agrees K u \<Longrightarrow> GR8 r \<Longrightarrow> r8 u r = word_of_int v \<Longrightarrow> agrees (setKnown r (Some v) K) u"
  by (rule agrees_setKnown(1))

lemma exec_ALUr:
  assumes "exec env m v = cont u" "opcode m = ALUr op" "op \<noteq> CMP"
  obtains q p r where "ex_regs (operands m) = [q, p, r]" "u = aluA op (r8 v r) v"
  using assms by (auto simp: exec_def step_def split: list.splits)

lemma exec_Jcc_r8:
  assumes "exec env m v = Some (c, s)" "opcode m \<in> {Jcc COND_Z, Jcc COND_NZ}"
  shows "r8 s = r8 v"
  using assms by (elim insertE) (auto simp: exec_def step_def split: list.splits)

lemma or_zero: "(a::byte) OR b = 0 \<longleftrightarrow> a = 0 \<and> b = 0"
  by (metis or_eq_0_iff)

lemma seedFlagSetter_sound:
  assumes K: "agrees K u" and z: "fZ (fl u)" and run: "run env (rev Before) s0 = cont u"
    and shape: "list_all immShape Before" and straight: "list_all (\<lambda>m. \<not> isTerminator m) (rev Before)"
  shows "agrees (seedFlagSetter Before K) u"
proof (cases Before)
  case Nil
  then show ?thesis using K by (simp add: seedFlagSetter_def)
next
  case (Cons m rest)
  obtain v where v: "run env (rev rest) s0 = cont v" "exec env m v = cont u"
    using run_snoc [of env "rev rest" m s0 Next u] run straight Cons by auto
  have op2: "\<exists>r. opReg m 2 = Some r \<and> u = aluA op (r8 v r) v" if op: "opcode m = ALUr op" "op \<noteq> CMP" for op
  proof -
    obtain q p r where "ex_regs (operands m) = [q, p, r]" "u = aluA op (r8 v r) v"
      using exec_ALUr [OF v(2) op] .
    moreover from this have "opReg m 2 = Some r" using shape Cons immShape_op [of m 2] by simp
    ultimately show ?thesis by blast
  qed
  consider (test) "opcode m = ORAr \<or> opcode m = ANAr" "opReg m 2 = Some A"
    | (pair) mov rest' lo hi where "opcode m = ORAr" "opReg m 2 = Some lo" "rest = mov # rest'" "opcode mov = MOVrr"
      "opReg mov 0 = Some A" "opReg mov 1 = Some hi" "(hi, lo) \<in> {(H, L), (D, E), (B, C)}"
    | (cpi) i where "opcode m = CPI" "opImm m 1 = Some i"
    | (none) "seedFlagSetter Before K = K"
  proof -
    assume a: "opcode m = ORAr \<or> opcode m = ANAr \<Longrightarrow> opReg m 2 = Some A \<Longrightarrow> thesis"
      "\<And>lo mov rest' hi. opcode m = ORAr \<Longrightarrow> opReg m 2 = Some lo \<Longrightarrow> rest = mov # rest' \<Longrightarrow> opcode mov = MOVrr \<Longrightarrow>
        opReg mov 0 = Some A \<Longrightarrow> opReg mov 1 = Some hi \<Longrightarrow> (hi, lo) \<in> {(H, L), (D, E), (B, C)} \<Longrightarrow> thesis"
      "\<And>i. opcode m = CPI \<Longrightarrow> opImm m 1 = Some i \<Longrightarrow> thesis" "seedFlagSetter Before K = K \<Longrightarrow> thesis"
    have "seedFlagSetter Before K = K" if "\<not> thesis"
      unfolding seedFlagSetter_def Cons list.case using a(1-3) that by (simp split: list.split option.split) blast
    then show thesis using a(4) by blast
  qed
  then show ?thesis
  proof cases
    case test
    then obtain op where "opcode m = ALUr op" "op = ORA \<or> op = ANA" by blast
    then have "r8 u A = 0" using op2 [of op] test(2) z by (auto simp: aluA_def Let_def)
    moreover have "seedFlagSetter Before K = setKnown A (Some 0) K" using test Cons by (auto simp: seedFlagSetter_def)
    ultimately show ?thesis using K by (auto intro: agrees_setKnown0)
  next
    case pair
    have u: "u = aluA ORA (r8 v lo) v" using op2 [of ORA] pair(1,2) by auto
    obtain w where w: "exec env mov w = cont v"
      using run_snoc [of env "rev rest'" mov s0 Next v] v(1) straight Cons pair(3) by auto
    obtain d r where mv: "ex_regs (operands mov) = [d, r]" "v = setR d (r8 w r) w"
      using w pair(4) by (auto simp: exec_def step_def split: list.splits)
    then have "d = A" "r = hi"
      using shape Cons pair(3,5,6) immShape_op [of mov 0] immShape_op [of mov 1] by simp_all
    then have "r8 v A = r8 v hi" using mv(2) pair(7) by (auto simp: setR_def)
    moreover have "r8 v A OR r8 v lo = 0" using z u by (auto simp: aluA_def Let_def)
    ultimately have "r8 u A = 0" "r8 u lo = 0" "r8 u hi = 0" using u pair(7) by (auto simp: aluA_def Let_def or_zero)
    moreover have "seedFlagSetter Before K = setKnown A (Some 0) (setKnown lo (Some 0) (setKnown hi (Some 0) K))"
      using pair Cons by (auto simp: seedFlagSetter_def)
    ultimately show ?thesis using K pair(7) by (auto intro!: agrees_setKnown0)
  next
    case cpi
    obtain b where b: "ex_vals env (operands m) = [b]" "u = aluA CMP (lo8 b) v"
      using v(2) cpi(1) by (auto simp: exec_def step_def split: list.splits)
    have "MO_Immediate i \<in> set (operands m)"
      using cpi(2) by (auto simp: opImm_def in_set_conv_nth split: if_splits elim!: getImm.elims)
    from ex_vals_imm [OF this, of env] have "b = word_of_int i" unfolding b(1) by simp
    then have "r8 u A = word_of_int (i mod 256)"
      using z b(2) by (simp add: aluA_def alu_sub_def Let_def lo8_of_int)
    moreover have "seedFlagSetter Before K = setKnown A (Some (i mod 256)) K"
      using cpi Cons by (simp add: seedFlagSetter_def)
    ultimately show ?thesis using K by (auto intro: agrees_setKnown0)
  next
    case none
    then show ?thesis using K by simp
  qed
qed

lemma seedPredecessorValues_sound:
  assumes K: "agrees K s" and run: "run env Pred s0 = Some (c, s)" and edge: "c = Goto MBB \<or> c = Next \<and> ls"
    and one: "\<not> bothWays Pred MBB ls" and wf: "list_all wf_instr Pred" "list_all immShape Pred" "final_last isTerminator Pred"
  shows "agrees (seedPredecessorValues (Some Pred) MBB ls K) s"
proof (cases "rev Pred")
  case Nil
  then show ?thesis using K by (simp add: seedPredecessorValues_def)
next
  case (Cons Term Before)
  then have P: "Pred = rev Before @ [Term]" using rev_rev_ident [of Pred] by simp
  have b: "list_all immShape Before" "list_all wf_instr Before" using wf(1,2) unfolding P by simp_all
  have "?thesis" if "Before = m # ms" "\<not> isTerminator m" for m ms
  proof -
    have "list_all (\<lambda>m. \<not> isTerminator m) (rev ms)"
      using final_last_before [of "rev ms" m "[Term]"] wf(3) P that by simp
    then have straight: "list_all (\<lambda>m. \<not> isTerminator m) (rev Before)" using that by simp
    then obtain u where u: "run env (rev Before) s0 = cont u" "exec env Term u = Some (c, s)"
      using run_snoc run unfolding P by blast
    have "r8 s A = 0" if t: "opcode Term \<in> {Jcc COND_Z, Jcc COND_NZ}" "clearedA Before"
    proof -
      have "r8 s = r8 u" by (rule exec_Jcc_r8 [OF u(2) t(1)])
      then show ?thesis using clearedA_zero [OF t(2) u(1) b straight] by simp
    qed
    moreover have "agrees (seedFlagSetter Before K) s" if "zeroProvenPath Term MBB ls"
    proof -
      have "s = u \<and> fZ (fl u)"
        using that u(2) edge one wf(2) by (intro zero_path) (auto simp: P bothWays_def)
      then show ?thesis using seedFlagSetter_sound [OF _ _ u(1) b(1) straight] K by simp
    qed
    ultimately show ?thesis using K Cons by (auto simp: seedPredecessorValues_def intro: agrees_setKnown0)
  qed
  moreover have "?thesis" if "Before = [] \<or> isTerminator (hd Before)"
  proof -
    have "\<not> clearedA Before" "seedFlagSetter Before K = K"
      using that by (auto simp: clearedA_def seedFlagSetter_def isTerminator_def split: list.splits option.splits)
    then show ?thesis using K Cons by (auto simp: seedPredecessorValues_def)
  qed
  ultimately show ?thesis by (cases Before) auto
qed

section \<open>Immediates that spills overwrite\<close>

text \<open>
  A patched instruction runs with another immediate than the one the pass sees: a spill stores into
  its operand byte.
\<close>

definition runsAs :: "(machine_instr \<Rightarrow> bool) \<Rightarrow> machine_instr \<Rightarrow> machine_instr \<Rightarrow> bool" where
  "runsAs patched m m' \<longleftrightarrow> m' = m \<or> patched m \<and> patched m' \<and> opImm m 1 \<noteq> None \<and>
    (\<exists>j. m' = m\<lparr>operands := (operands m)[1 := MO_Immediate j]\<rparr>)"

abbreviation "codeRunsAs patched \<equiv> list_all2 (runsAs patched)"

lemma filter_update: "\<not> P (xs ! i) \<Longrightarrow> \<not> P y \<Longrightarrow> filter P (xs[i := y]) = filter P xs"
proof (induction xs arbitrary: i)
  case (Cons x xs)
  then show ?case by (cases i) auto
qed simp

lemma runsAs_same:
  assumes "runsAs patched m m'"
  shows "opcode m' = opcode m" "opReg m' k = opReg m k" "plainImm patched m' = plainImm patched m"
    and "filter isReg (operands m') = filter isReg (operands m)"
proof -
  consider "m' = m" | j i where "patched m" "patched m'" "1 < length (operands m)" "operands m ! 1 = MO_Immediate i"
      "m' = m\<lparr>operands := (operands m)[1 := MO_Immediate j]\<rparr>"
    using assms by (auto simp: runsAs_def opImm_def split: if_splits elim!: getImm.elims)
  note cases = this
  have "opcode m' = opcode m \<and> opReg m' k = opReg m k \<and> plainImm patched m' = plainImm patched m \<and>
    filter isReg (operands m') = filter isReg (operands m)"
    using cases
  proof cases
    case 2
    have "opReg m' k = opReg m k"
      using 2(3,4) unfolding 2(5) opReg_def by (auto simp: nth_list_update simp del: One_nat_def)
    moreover have "filter isReg (operands m') = filter isReg (operands m)"
      unfolding 2(5) using filter_update [of isReg "operands m" 1] 2(4) by (simp del: One_nat_def)
    moreover have "opcode m' = opcode m" unfolding 2(5) by simp
    ultimately show ?thesis using 2(1,2) by (simp add: plainImm_def)
  qed simp
  then show "opcode m' = opcode m" "opReg m' k = opReg m k" "plainImm patched m' = plainImm patched m"
    "filter isReg (operands m') = filter isReg (operands m)" by blast+
qed

lemma invalidateOperands_filter:
  "invalidateOperands P m K = fold (\<lambda>MO K. if P MO then (case getReg MO of Some r \<Rightarrow> invalidateWithSubSuper r K | None \<Rightarrow> K) else K)
    (filter isReg (operands m)) K"
proof -
  have "fold (\<lambda>MO K. if P MO then (case getReg MO of Some r \<Rightarrow> invalidateWithSubSuper r K | None \<Rightarrow> K) else K) xs K =
    fold (\<lambda>MO K. if P MO then (case getReg MO of Some r \<Rightarrow> invalidateWithSubSuper r K | None \<Rightarrow> K) else K) (filter isReg xs) K" for xs
    by (induction xs arbitrary: K) (auto elim!: isReg.elims)
  then show ?thesis by (simp add: invalidateOperands_def)
qed

lemma runsAs_table:
  assumes "runsAs patched m m'"
  shows "invalidateUndefUses m' = invalidateUndefUses m" "track patched m' = track patched m"
    "afterInstr patched m' = afterInstr patched m" "ex_regs (operands m') = ex_regs (operands m)"
proof -
  note same = runsAs_same [OF assms]
  have ops: "invalidateOperands P m' = invalidateOperands P m" for P
    by (simp add: fun_eq_iff invalidateOperands_filter same)
  show undef: "invalidateUndefUses m' = invalidateUndefUses m" by (simp add: invalidateUndefUses_def ops)
  have "trackDefs m' = trackDefs m" by (intro ext) (simp only: trackDefs_def ops same)
  moreover have "trackMVI patched m' = trackMVI patched m" "trackLXI patched m' = trackLXI patched m"
    by (intro ext; simp only: trackMVI_def trackLXI_def same)+
  ultimately show t: "track patched m' = track patched m" by (intro ext) (simp only: track_def onReg_def same)
  show "afterInstr patched m' = afterInstr patched m"
    by (simp add: fun_eq_iff afterInstr_def undef t invalidateKilledUses_def ops)
  have "filter (\<lambda>x. isReg x \<and> \<not> isImplicit x) ops = filter (\<lambda>x. \<not> isImplicit x) (filter isReg ops)" for ops :: "machine_operand list"
    by (induction ops) auto
  then show "ex_regs (operands m') = ex_regs (operands m)" by (simp only: ex_regs_explicit same)
qed

lemma runsAs_combine:
  assumes "runsAs patched m m'"
  shows "codeRunsAs patched (combine patched m K) (combine patched m' K)"
proof (cases "m' = m")
  case True
  have "runsAs patched x x" for x by (simp add: runsAs_def)
  then show ?thesis unfolding True by (simp add: list.rel_refl)
next
  case False
  then have "patched m" "patched m'" using assms by (auto simp: runsAs_def)
  then have "plainImm patched m = None" "plainImm patched m' = None" by (simp_all add: plainImm_def)
  then have "combine patched m K = [m]" "combine patched m' K = [m']"
    by (auto simp: combine_def split: opcode.splits option.splits)
  then show ?thesis using assms by simp
qed

lemma runsAs_processLoop:
  "codeRunsAs patched ms ms' \<Longrightarrow> codeRunsAs patched (processLoop patched K ms) (processLoop patched K ms')"
proof (induction ms ms' arbitrary: K rule: list_all2_induct)
  case (Cons m ms m' ms')
  then show ?case by (simp add: Let_def runsAs_table runsAs_combine list_all2_appendI)
qed simp

lemma runsAs_flags_dead:
  "codeRunsAs patched ms ms' \<Longrightarrow> flags_dead succs ms' = flags_dead succs ms"
proof (induction ms ms' rule: list_all2_induct)
  case (Cons m ms m' ms')
  then show ?case
    by (simp add: looksAtSZP_def isTerminator_def runsAs_table(4) [OF Cons.hyps(1)] runsAs_same(1) [OF Cons.hyps(1)])
qed simp

lemma runsAs_stepsAllowed:
  "codeRunsAs patched ms ms' \<Longrightarrow> stepsAllowed patched succs K ms \<Longrightarrow> stepsAllowed patched succs K ms'"
proof (induction ms ms' arbitrary: K rule: list_all2_induct)
  case (Cons m ms m' ms')
  let ?K = "invalidateUndefUses m K"
  have "combine patched m' ?K = [m'] \<or> m' = m"
  proof (cases "m' = m")
    case False
    then have "plainImm patched m' = None" using Cons.hyps(1) by (simp add: runsAs_def plainImm_def)
    then show ?thesis by (simp add: combine_def split: opcode.split option.split)
  qed simp
  moreover have "stepsAllowed patched succs (track patched m ?K) ms'"
    using Cons.IH Cons.prems by (simp add: Let_def)
  ultimately show ?case
    using Cons.prems runsAs_table(1,2) [OF Cons.hyps(1)] runsAs_flags_dead [OF Cons.hyps(2), of succs]
    by (auto simp: Let_def)
qed simp

section \<open>The pass\<close>

lemma entryTable_sound:
  assumes "run env Pred s0 = Some (c, s)" "c = Goto MBB \<or> c = Next \<and> ls" "\<not> bothWays Pred MBB ls"
    and "list_all wf_instr Pred" "list_all immShape Pred" "final_last isTerminator Pred"
  shows "agrees (entryTable patched (Some Pred) MBB ls entryRegs) s"
proof -
  have "agrees (initFromPredecessor patched (Some Pred)) s"
    unfolding initFromPredecessor_fold
    by (rule fold_sound [OF _ assms(1,4-6)]) (simp add: invalidateAll_def)
  then have "agrees (dropEntryValuesNotLiveIn entryRegs (initFromPredecessor patched (Some Pred))) s"
    by (rule agrees_mono) (auto simp: dropEntryValuesNotLiveIn_def map_le_def split: if_splits)
  then show ?thesis
    unfolding entryTable_def using assms by (intro seedPredecessorValues_sound) auto
qed

text \<open>No CPI of the predecessor is patched: the seeds take the immediate of a CPI as it stands.\<close>

definition cpiFixed :: "(machine_instr \<Rightarrow> bool) \<Rightarrow> machine_instr list \<Rightarrow> bool" where
  "cpiFixed patched = list_all (\<lambda>m. opcode m = CPI \<longrightarrow> \<not> patched m)"

lemma runsAs_CPI: "runsAs patched m m' \<Longrightarrow> opcode m = CPI \<Longrightarrow> \<not> patched m \<Longrightarrow> m' = m"
  by (auto simp: runsAs_def)

lemma opMBB_runsAs: "runsAs patched m m' \<Longrightarrow> opMBB m' 0 = opMBB m 0"
  by (auto simp: runsAs_def opMBB_def nth_list_update)

lemma runsAs_seedFlagSetter:
  assumes "codeRunsAs patched ms ms'" "cpiFixed patched ms"
  shows "seedFlagSetter ms' K = seedFlagSetter ms K"
proof (cases ms)
  case Nil
  then show ?thesis using assms(1) by simp
next
  case (Cons m rest)
  then obtain m' rest' where ms': "ms' = m' # rest'" "runsAs patched m m'" "codeRunsAs patched rest rest'"
    using assms(1) by (auto simp: list_all2_Cons1)
  note same = runsAs_same [OF ms'(2)]
  show ?thesis
  proof (cases "opcode m = CPI")
    case True
    then have "m' = m" using runsAs_CPI [OF ms'(2)] assms(2) Cons by (simp add: cpiFixed_def)
    then show ?thesis using True unfolding Cons ms'(1) seedFlagSetter_def by simp
  next
    case False
    show ?thesis
    proof (cases rest)
      case Nil
      then show ?thesis using False ms'(3) unfolding Cons ms'(1) seedFlagSetter_def by (simp add: same(1,2))
    next
      case (Cons x xs)
      then obtain x' xs' where x: "rest' = x' # xs'" "runsAs patched x x'" using ms'(3) by (auto simp: list_all2_Cons1)
      show ?thesis
        using False unfolding \<open>ms = m # rest\<close> Cons ms'(1) x(1) seedFlagSetter_def
        by (simp only: list.case prod.case same(1,2) runsAs_same(1,2) [OF x(2)] if_False)
    qed
  qed
qed

lemma runsAs_clearedA: "codeRunsAs patched ms ms' \<Longrightarrow> clearedA ms' = clearedA ms"
proof (cases "\<exists>x y zs. ms = x # y # zs")
  case True
  assume r: "codeRunsAs patched ms ms'"
  from True obtain x y zs where ms: "ms = x # y # zs" by blast
  with r obtain x' y' zs' where "ms' = x' # y' # zs'" "runsAs patched x x'" "runsAs patched y y'"
    by (auto simp: list_all2_Cons1)
  then show ?thesis by (simp add: ms clearedA_def runsAs_same(1,2))
next
  case False
  assume "codeRunsAs patched ms ms'"
  then have "length ms' = length ms" by (rule list_all2_lengthD [symmetric])
  with False show ?thesis by (cases ms; cases "tl ms"; cases ms'; cases "tl ms'") (auto simp: clearedA_def)
qed

lemma runsAs_entryTable:
  assumes "codeRunsAs patched P P'" "cpiFixed patched P"
  shows "entryTable patched (Some P') MBB ls entryRegs = entryTable patched (Some P) MBB ls entryRegs"
proof -
  have "fold (afterInstr patched) P' K = fold (afterInstr patched) P K" for K
    using assms(1) by (induction P P' arbitrary: K rule: list_all2_induct) (simp_all add: runsAs_table(3))
  then have init: "initFromPredecessor patched (Some P') = initFromPredecessor patched (Some P)"
    by (simp add: initFromPredecessor_fold)
  have "seedPredecessorValues (Some P') MBB ls K = seedPredecessorValues (Some P) MBB ls K" for K
  proof (cases "rev P")
    case Nil
    then show ?thesis using assms(1) by simp
  next
    case (Cons m ms)
    moreover from this obtain m' ms' where r: "rev P' = m' # ms'" "runsAs patched m m'" "codeRunsAs patched ms ms'"
      using assms(1) by (metis list_all2_Cons1 list_all2_rev)
    moreover have "cpiFixed patched ms"
      using assms(2) Cons unfolding cpiFixed_def by (metis list.pred_inject(2) list_all_rev)
    ultimately show ?thesis
      by (simp add: seedPredecessorValues_def zeroProvenPath_def runsAs_same(1) [OF r(2)] opMBB_runsAs [OF r(2)]
          runsAs_clearedA [OF r(3)] runsAs_seedFlagSetter [OF r(3)])
  qed
  then show ?thesis by (simp add: entryTable_def init)
qed

text \<open>
  load-immediate combining (V6ClangLoadImmCombine.cpp:448-672) keeps what a block does.  On
  entry by the edge from its only predecessor, whatever the spills have put into the patched immediates of
  both blocks, the new block leaves to the same place as the old one, with the same registers, memory
  and carry, and with the same flags where they are live out.  Wherever an INR or DCR is put, the flags have
  to be dead; no branch of the predecessor leads to the block in both cases; no CPI of it is patched.
\<close>

theorem processBlock_correct:
  assumes "codeRunsAs patched Pred Pred'" "cpiFixed patched Pred" "codeRunsAs patched MIs MIs'"
    and "run env Pred' s0 = Some (c, s)" "c = Goto MBB \<or> c = Next \<and> ls" "\<not> bothWays Pred' MBB ls"
    and "list_all wf_instr (Pred' @ MIs')" "list_all immShape (Pred' @ MIs')" "final_last isTerminator Pred'"
    and "stepsAllowed patched succs (entryTable patched (Some Pred) MBB ls entryRegs) MIs"
  shows "\<exists>out. codeRunsAs patched (processBlock patched (Some Pred) MBB ls entryRegs MIs) out \<and>
    rel_option (ends_alike cpu_cy succs) (run env MIs' s) (run env out s)"
proof -
  let ?K = "entryTable patched (Some Pred) MBB ls entryRegs"
  have "agrees (entryTable patched (Some Pred') MBB ls entryRegs) s"
    by (rule entryTable_sound [OF assms(4-6)]) (use assms(7-9) in auto)
  then have "agrees ?K s" by (simp add: runsAs_entryTable [OF assms(1,2)])
  then have "rel_option (ends_alike cpu_cy succs) (run env MIs' s) (run env (processLoop patched ?K MIs') s)"
    by (rule processLoop_run [where b = True])
      (use assms(7,8) runsAs_stepsAllowed [OF assms(3,10)] in auto)
  moreover have "codeRunsAs patched (processLoop patched ?K MIs) (processLoop patched ?K MIs')"
    by (rule runsAs_processLoop [OF assms(3)])
  ultimately show ?thesis by (auto simp: processBlock_def)
qed

abbreviation MVIi :: "preg \<Rightarrow> int \<Rightarrow> machine_instr" where
  "MVIi r i \<equiv> BuildMI MVIr [addRegDef r, addImm i]"
abbreviation CPIi :: "int \<Rightarrow> machine_instr" where
  "CPIi i \<equiv> BuildMI CPI [addReg A, addImm i]"
abbreviation JNZi :: "nat \<Rightarrow> machine_instr" where
  "JNZi b \<equiv> BuildMI (Jcc COND_NZ) [addMBB b]"

abbreviation intoD :: "machine_instr \<Rightarrow> bool" where
  "intoD m \<equiv> opcode m = MVIr \<and> opReg m 0 = Some D"

theorem processBlock_correct_witness:
  "\<forall>env s0. \<exists>out. codeRunsAs intoD (processBlock intoD (Some [MVIi D 0, CPIi 3, JNZi 2]) 4 True [A]
      [MVIi D 0, MVIi B 3, MVIi A 4, ALU ADD B]) out \<and>
    rel_option (ends_alike cpu_cy [[FLAGS]])
      (run env [MVIi D 9, MVIi B 3, MVIi A 4, ALU ADD B] (aluA CMP 3 (setR D 7 (setR A 3 s0))))
      (run env out (aluA CMP 3 (setR D 7 (setR A 3 s0))))"
proof (intro allI)
  fix env s0
  have 1: "codeRunsAs intoD [MVIi D 0, CPIi 3, JNZi 2] [MVIi D 7, CPIi 3, JNZi 2]"
    by (simp add: runsAs_def opImm_def opReg_def BuildMI_def)
  have 2: "cpiFixed intoD [MVIi D 0, CPIi 3, JNZi 2]"
    by (simp add: cpiFixed_def BuildMI_def)
  have 3: "codeRunsAs intoD [MVIi D 0, MVIi B 3, MVIi A 4, ALU ADD B] [MVIi D 9, MVIi B 3, MVIi A 4, ALU ADD B]"
    by (simp add: runsAs_def opImm_def opReg_def BuildMI_def)
  have 4: "run env [MVIi D 7, CPIi 3, JNZi 2] (setR A 3 s0) = Some (Next, aluA CMP 3 (setR D 7 (setR A 3 s0)))"
    by (simp add: exec_simps aluA_def alu_sub_def lo8_def setR_def fun_upd_twist)
  have 6: "\<not> bothWays [MVIi D 7, CPIi 3, JNZi 2] 4 True" by (simp add: bothWays_def opMBB_def BuildMI_def)
  have 7: "list_all wf_instr ([MVIi D 7, CPIi 3, JNZi 2] @ [MVIi D 9, MVIi B 3, MVIi A 4, ALU ADD B])"
    "list_all immShape ([MVIi D 7, CPIi 3, JNZi 2] @ [MVIi D 9, MVIi B 3, MVIi A 4, ALU ADD B])"
    "final_last isTerminator [MVIi D 7, CPIi 3, JNZi 2]"
    by code_simp+
  have 8: "stepsAllowed intoD [[FLAGS]] (entryTable intoD (Some [MVIi D 0, CPIi 3, JNZi 2]) 4 True [A])
      [MVIi D 0, MVIi B 3, MVIi A 4, ALU ADD B]"
    by code_simp
  show "\<exists>out. codeRunsAs intoD (processBlock intoD (Some [MVIi D 0, CPIi 3, JNZi 2]) 4 True [A]
      [MVIi D 0, MVIi B 3, MVIi A 4, ALU ADD B]) out \<and>
    rel_option (ends_alike cpu_cy [[FLAGS]])
      (run env [MVIi D 9, MVIi B 3, MVIi A 4, ALU ADD B] (aluA CMP 3 (setR D 7 (setR A 3 s0))))
      (run env out (aluA CMP 3 (setR D 7 (setR A 3 s0))))"
    by (rule processBlock_correct [OF 1 2 3 4 _ 6 7 8]) simp
qed

text \<open>The block of the witness: the load of B becomes a move, the load of A an increment.\<close>

lemma processBlock_example:
  "processBlock intoD (Some [MVIi D 0, CPIi 3, JNZi 2]) 4 True [A] [MVIi D 0, MVIi B 3, MVIi A 4, ALU ADD B] =
    [MVIi D 0, BuildMI MOVrr [addRegDef B, addReg A], BuildMI INRr [addRegDef A, addReg A], ALU ADD B]"
  by code_simp

text \<open>The flags that an INR destroys.\<close>

lemma loadImm_INR_flags_unsound:
  "processBlock (\<lambda>_. False) None 1 False [] [MVIi B 0, BuildMI CMPr [addReg A, addReg C], MVIi B 1, BuildMI (Jcc COND_Z) [addMBB 2]] =
     [MVIi B 0, BuildMI CMPr [addReg A, addReg C], BuildMI INRr [addRegDef B, addReg B], BuildMI (Jcc COND_Z) [addMBB 2]]"
  "map_option fst (run env [MVIi B 0, BuildMI CMPr [addReg A, addReg C], MVIi B 1, BuildMI (Jcc COND_Z) [addMBB 2]]
     (setR C 7 (setR A 7 s))) = Some (Goto 2)"
  "map_option fst (run env [MVIi B 0, BuildMI CMPr [addReg A, addReg C], BuildMI INRr [addRegDef B, addReg B],
     BuildMI (Jcc COND_Z) [addMBB 2]] (setR C 7 (setR A 7 s))) = Some Next"
  subgoal by code_simp
  subgoal by (simp add: exec_simps aluA_def alu_sub_def)
  subgoal by (simp add: exec_simps aluA_def alu_sub_def alu_inr_def)
  done

text \<open>
  The seed of a CPI takes the immediate that a spill overwrites: the MVI is erased although A holds what
  the spill stored.
\<close>

lemma loadImm_patched_CPI_unsound:
  "processBlock (\<lambda>m. opcode m = CPI) (Some [CPIi 0, JNZi 2]) 4 True [A] [MVIi A 0] = []"
  "codeRunsAs (\<lambda>m. opcode m = CPI) [CPIi 0, JNZi 2] [CPIi 5, JNZi 2]"
  "map_option (\<lambda>(c, s). (c, r8 s A)) (run env [CPIi 5, JNZi 2] (setR A 5 s)) = Some (Next, 5)"
  subgoal by code_simp
  subgoal by (simp add: runsAs_def opImm_def BuildMI_def)
  subgoal by (simp add: exec_simps aluA_def alu_sub_def lo8_def)
  done

end
