(* ===== verification/FuncSim.thy ===== *)
theory FuncSim
  imports Exits
begin

text \<open>
  From blocks to functions.  A function is the list of its blocks in layout order, a block number is a
  position in it.  The locale \<open>block_simulation\<close> turns a relation that every block of the old and the new
  function keeps into one between their runs.
\<close>

section \<open>All registers\<close>

text \<open>The registers can be enumerated, so that a condition on all of them computes.\<close>

instantiation preg :: enum
begin

definition enum_preg :: "preg list" where
  "enum_preg = [B, C, D, E, H, L, A, FLAGS, BC, DE, HL, PSW, SP, PC]"

definition enum_all_preg :: "(preg \<Rightarrow> bool) \<Rightarrow> bool" where
  "enum_all_preg P = list_all P enum_class.enum"

definition enum_ex_preg :: "(preg \<Rightarrow> bool) \<Rightarrow> bool" where
  "enum_ex_preg P = list_ex P enum_class.enum"

instance
proof
  have r: "r \<in> set enum_class.enum" for r :: preg by (cases r) (simp_all add: enum_preg_def)
  show "(UNIV :: preg set) = set enum_class.enum" using r by blast
  show "distinct (enum_class.enum :: preg list)" by (simp add: enum_preg_def)
  show "enum_class.enum_all P \<longleftrightarrow> Ball UNIV P" for P :: "preg \<Rightarrow> bool"
    using r by (auto simp: enum_all_preg_def list_all_iff)
  show "enum_class.enum_ex P \<longleftrightarrow> Bex UNIV P" for P :: "preg \<Rightarrow> bool"
    using r by (auto simp: enum_ex_preg_def list_ex_iff)
qed

end

section \<open>Runs of a function\<close>

type_synonym mfunction = "machine_instr list list"

definition goes :: "nat \<Rightarrow> nat \<Rightarrow> ctl \<Rightarrow> nat option" where
  "goes n k c = (case c of
     Next \<Rightarrow> if k + 1 < n then Some (k + 1) else None
   | Goto b \<Rightarrow> if b < n then Some b else None
   | Return \<Rightarrow> None)"

inductive reaches :: "senv \<Rightarrow> mfunction \<Rightarrow> nat \<Rightarrow> cpu \<Rightarrow> nat \<Rightarrow> cpu \<Rightarrow> bool" for env F where
  here: "reaches env F k s k s"
| block: "k < length F \<Longrightarrow> run env (F ! k) s = Some (c, t) \<Longrightarrow> goes (length F) k c = Some k' \<Longrightarrow>
    reaches env F k' t k'' u \<Longrightarrow> reaches env F k s k'' u"

text \<open>A function returns when the block it has reached does.\<close>

definition returns :: "senv \<Rightarrow> mfunction \<Rightarrow> nat \<Rightarrow> cpu \<Rightarrow> cpu \<Rightarrow> bool" where
  "returns env F k s t \<longleftrightarrow>
    (\<exists>k' u. reaches env F k s k' u \<and> k' < length F \<and> run env (F ! k') u = Some (Return, t))"

locale block_simulation =
  fixes env :: senv and old new :: mfunction
    and R :: "nat \<Rightarrow> cpu \<Rightarrow> cpu \<Rightarrow> bool" and E :: "cpu \<Rightarrow> cpu \<Rightarrow> bool"
  assumes same_length: "length new = length old"
    and square: "k < length old \<Longrightarrow> R k s t \<Longrightarrow> run env (old ! k) s = Some (c, s') \<Longrightarrow>
      \<exists>t'. run env (new ! k) t = Some (c, t') \<and> (c = Return \<longrightarrow> E s' t') \<and>
        (\<forall>k'. goes (length old) k c = Some k' \<longrightarrow> R k' s' t')"
begin

lemma reaches_sim:
  "reaches env old k s k' s' \<Longrightarrow> R k s t \<Longrightarrow> \<exists>t'. reaches env new k t k' t' \<and> R k' s' t'"
proof (induction arbitrary: t rule: reaches.induct)
  case (here k s)
  then show ?case using reaches.here by blast
next
  case (block k s c s' k' k'' u)
  obtain t' where t': "run env (new ! k) t = Some (c, t')" "R k' s' t'"
    using square [OF block.hyps(1) block.prems block.hyps(2)] block.hyps(3) by blast
  obtain t'' where "reaches env new k' t' k'' t''" "R k'' u t''" using block.IH [OF t'(2)] by blast
  then show ?case
    using reaches.block [of k new env t c t' k' k'' t''] t'(1) block.hyps(1,3) same_length by auto
qed

lemma returns_sim:
  assumes "returns env old k s s'" "R k s t"
  shows "\<exists>t'. returns env new k t t' \<and> E s' t'"
proof -
  obtain k' u where u: "reaches env old k s k' u" "k' < length old" "run env (old ! k') u = Some (Return, s')"
    using assms(1) by (auto simp: returns_def)
  obtain v where v: "reaches env new k t k' v" "R k' u v" using reaches_sim [OF u(1) assms(2)] by blast
  obtain t' where "run env (new ! k') v = Some (Return, t')" "E s' t'"
    using square [OF u(2) v(2) u(3)] by blast
  then show ?thesis using v(1) u(2) same_length by (auto simp: returns_def)
qed

end

section \<open>Where a block leads\<close>

text \<open>
  The blocks that a block can go to: the targets of its branches, and the next one unless it ends with
  a jump or a return.
\<close>

definition targets :: "machine_instr list \<Rightarrow> nat list" where
  "targets ms = concat (map (\<lambda>m. ex_mbbs (operands m)) ms)"

definition fallsThrough :: "machine_instr list \<Rightarrow> bool" where
  "fallsThrough ms = (ms = [] \<or> opcode (last ms) \<noteq> JMP \<and> opcode (last ms) \<noteq> RET)"

definition leadsTo :: "mfunction \<Rightarrow> nat \<Rightarrow> nat list" where
  "leadsTo F k = filter (\<lambda>b. b < length F) (targets (F ! k) @ (if fallsThrough (F ! k) then [k + 1] else []))"

lemma exec_Goto: "exec env m s = Some (Goto b, t) \<Longrightarrow> b \<in> set (ex_mbbs (operands m))"
  by (cases "opcode m") (auto simp: exec_def step_def split: list.splits if_splits)

lemma run_target: "run env ms s = Some (Goto b, t) \<Longrightarrow> b \<in> set (targets ms)"
proof (induction ms arbitrary: s)
  case (Cons m ms)
  obtain c u where "exec env m s = Some (c, u)" using Cons.prems by (auto split: option.splits)
  then show ?case
    using Cons exec_Goto [of env m s b t] by (cases "c = Next") (auto simp: targets_def)
qed simp

lemma exec_Next: "exec env m s = Some (Next, t) \<Longrightarrow> opcode m \<noteq> JMP \<and> opcode m \<noteq> RET"
  by (cases "opcode m") (auto simp: exec_def step_def split: list.splits)

lemma run_Next: "run env ms s = Some (Next, t) \<Longrightarrow> fallsThrough ms"
proof (induction ms arbitrary: s)
  case (Cons m ms)
  obtain c u where u: "exec env m s = Some (c, u)" using Cons.prems by (auto split: option.splits)
  show ?case
  proof (cases ms)
    case Nil
    then have "exec env m s = Some (Next, t)" using Cons.prems u by (auto split: if_splits)
    then show ?thesis using exec_Next Nil by (simp add: fallsThrough_def)
  next
    case (Cons m' ms')
    then have "fallsThrough ms" using Cons.prems Cons.IH u by (auto split: if_splits)
    then show ?thesis using Cons by (simp add: fallsThrough_def)
  qed
qed (simp add: fallsThrough_def)

lemma leadsTo_run:
  "run env (F ! k) s = Some (c, t) \<Longrightarrow> goes (length F) k c = Some k' \<Longrightarrow> k' \<in> set (leadsTo F k)"
  by (cases c) (auto simp: goes_def leadsTo_def dest: run_target run_Next split: if_splits)

end
