(* ===== verification/LoadImmFunc.thy ===== *)
theory LoadImmFunc
  imports LoadImmSound FuncSim
begin

text \<open>
  Load-immediate combining over a whole function: the blocks are rewritten in layout order, each with the
  table of what its only predecessor leaves, be that rewritten already or not.  Every run of the function that
  returns is matched by one of the new function that returns with the same registers and memory.
\<close>

section \<open>The function\<close>

record lic_block =
  licLiveIns :: "preg list"
  licPreds :: "nat list"
  licInstrs :: "machine_instr list"

definition predInstrs :: "lic_block list \<Rightarrow> nat \<Rightarrow> machine_instr list option" where
  "predInstrs MF k = (case licPreds (MF ! k) of [p] \<Rightarrow> Some (licInstrs (MF ! p)) | _ \<Rightarrow> None)"

definition isLayoutSuccessor :: "lic_block list \<Rightarrow> nat \<Rightarrow> bool" where
  "isLayoutSuccessor MF k = (case licPreds (MF ! k) of [p] \<Rightarrow> p + 1 = k | _ \<Rightarrow> False)"

definition blockTable :: "(machine_instr \<Rightarrow> bool) \<Rightarrow> lic_block list \<Rightarrow> nat \<Rightarrow> known" where
  "blockTable patched MF k =
    entryTable patched (predInstrs MF k) k (isLayoutSuccessor MF k) (licLiveIns (MF ! k))"

definition combineBlock :: "(machine_instr \<Rightarrow> bool) \<Rightarrow> nat \<Rightarrow> lic_block list \<Rightarrow> lic_block list" where
  "combineBlock patched k MF = MF[k := (MF ! k)\<lparr>licInstrs :=
     processBlock patched (predInstrs MF k) k (isLayoutSuccessor MF k) (licLiveIns (MF ! k)) (licInstrs (MF ! k))\<rparr>]"

definition loadImm_runOnMachineFunction :: "bool \<Rightarrow> (machine_instr \<Rightarrow> bool) \<Rightarrow> lic_block list \<Rightarrow> lic_block list" where
  "loadImm_runOnMachineFunction DisableLoadImmCombine patched MF =
    (if DisableLoadImmCombine then MF else fold (combineBlock patched) [0..<length MF] MF)"

section \<open>The blocks one by one\<close>

text \<open>The function when block \<open>k\<close> is reached, and the table for it.\<close>

definition upTo :: "(machine_instr \<Rightarrow> bool) \<Rightarrow> lic_block list \<Rightarrow> nat \<Rightarrow> lic_block list" where
  "upTo patched MF k = fold (combineBlock patched) [0..<k] MF"

definition tableAt :: "(machine_instr \<Rightarrow> bool) \<Rightarrow> lic_block list \<Rightarrow> nat \<Rightarrow> known" where
  "tableAt patched MF k = blockTable patched (upTo patched MF k) k"

definition newInstrs :: "(machine_instr \<Rightarrow> bool) \<Rightarrow> lic_block list \<Rightarrow> nat \<Rightarrow> machine_instr list" where
  "newInstrs patched MF k = processLoop patched (tableAt patched MF k) (licInstrs (MF ! k))"

lemma upTo_blocks:
  assumes "k \<le> length MF"
  shows "length (upTo patched MF k) = length MF"
    and "j < length MF \<Longrightarrow> upTo patched MF k ! j =
      (if j < k then (MF ! j)\<lparr>licInstrs := newInstrs patched MF j\<rparr> else MF ! j)"
  using assms
proof (induction k arbitrary: j)
  case (Suc k)
  let ?F = "upTo patched MF k"
  have S: "upTo patched MF (Suc k) = combineBlock patched k ?F" by (simp add: upTo_def)
  { case 1
    then show ?case using Suc.IH(1) by (simp add: S combineBlock_def)
  next
    case 2
    have k: "?F ! k = MF ! k" using Suc.IH(2) [of k] 2 by simp
    then have "processBlock patched (predInstrs ?F k) k (isLayoutSuccessor ?F k) (licLiveIns (?F ! k)) (licInstrs (?F ! k)) =
        newInstrs patched MF k"
      by (simp add: processBlock_def newInstrs_def tableAt_def blockTable_def)
    then have "upTo patched MF (Suc k) = ?F[k := (MF ! k)\<lparr>licInstrs := newInstrs patched MF k\<rparr>]"
      by (simp add: S combineBlock_def k)
    then show ?case using Suc.IH(1) Suc.IH(2) [of j] 2 by (auto simp: nth_list_update) }
qed (simp_all add: upTo_def)

lemma runOn_blocks:
  "map licInstrs (loadImm_runOnMachineFunction False patched MF) = map (newInstrs patched MF) [0..<length MF]"
  using upTo_blocks [where k = "length MF" and MF = MF and patched = patched]
  by (auto simp: loadImm_runOnMachineFunction_def upTo_def intro!: nth_equalityI)

lemma tableAt_pred:
  assumes "k < length MF" "licPreds (MF ! k) = [p]" "p < length MF"
  shows "tableAt patched MF k = entryTable patched
    (Some (if p < k then newInstrs patched MF p else licInstrs (MF ! p))) k (p + 1 = k) (licLiveIns (MF ! k))"
proof -
  have "upTo patched MF k ! k = MF ! k" using upTo_blocks(2) [where k = k and j = k and MF = MF and patched = patched] assms(1) by simp
  moreover have "upTo patched MF k ! p = (if p < k then (MF ! p)\<lparr>licInstrs := newInstrs patched MF p\<rparr> else MF ! p)"
    using upTo_blocks(2) [where k = k and j = p and MF = MF and patched = patched] assms(1,3) by simp
  ultimately show ?thesis
    by (simp add: tableAt_def blockTable_def predInstrs_def isLayoutSuccessor_def assms(2))
qed

lemma tableAt_none:
  assumes "k < length MF" "length (licPreds (MF ! k)) \<noteq> 1"
  shows "tableAt patched MF k = Map.empty"
proof -
  have "upTo patched MF k ! k = MF ! k" using upTo_blocks(2) [where k = k and j = k and MF = MF and patched = patched] assms(1) by simp
  then have "predInstrs (upTo patched MF k) k = None"
    using assms(2) by (auto simp: predInstrs_def split: list.split)
  then show ?thesis
    by (simp add: tableAt_def blockTable_def entryTable_def initFromPredecessor_def invalidateAll_def
        dropEntryValuesNotLiveIn_def seedPredecessorValues_def fun_eq_iff)
qed

section \<open>The new code is as regular as the old\<close>

lemma findRegWithValue_GR8: "findRegWithValue i r K = Some q \<Longrightarrow> GR8 q"
proof -
  have "q \<in> set (tl TrackedRegs)" if "find P (tl TrackedRegs) = Some q" for P
    using that by (auto simp: find_Some_iff)
  then show "findRegWithValue i r K = Some q \<Longrightarrow> GR8 q"
    by (auto simp: findRegWithValue_def TrackedRegs_def split: option.splits if_splits)
qed

lemma combineMVI_cases:
  "combineMVI m r i K = [m] \<or> combineMVI m r i K = [] \<or>
    (\<exists>q opc. combineMVI m r i K = [BuildMI opc [addRegDef r, addReg q]] \<and>
      (opc = MOVrr \<and> GR8 q \<or> (opc = INRr \<or> opc = DCRr) \<and> q = r))"
  unfolding combineMVI_def by (auto dest: findRegWithValue_GR8 split: option.split if_split)

lemma combine_cases:
  obtains "combine patched m K = [m]" | "combine patched m K = []" "opcode m = MVIr \<or> opcode m = LXI"
    | r q opc where "combine patched m K = [BuildMI opc [addRegDef r, addReg q]]" "opReg m 0 = Some r" "opcode m = MVIr"
        "opc = MOVrr \<and> GR8 q \<or> (opc = INRr \<or> opc = DCRr) \<and> q = r"
proof (cases "\<exists>r i. opcode m = MVIr \<and> opReg m 0 = Some r \<and> plainImm patched m = Some i")
  case True
  then obtain r i where m: "opcode m = MVIr" "opReg m 0 = Some r" "plainImm patched m = Some i" by blast
  then have c: "combine patched m K = combineMVI m r (i mod 256) K" by (simp add: combine_def)
  show thesis using combineMVI_cases [of m r "i mod 256" K] that(1) that(2) that(3) [of _ r] m(1,2) unfolding c by blast
next
  case False
  then have "combine patched m K = [m] \<or> combine patched m K = [] \<and> opcode m = LXI"
    by (auto simp: combine_def split: opcode.split option.split)
  then show thesis using that by blast
qed

lemma combined_wf:
  assumes "GR8 r" "GR8 q" "opc = MOVrr \<or> (opc = INRr \<or> opc = DCRr) \<and> q = r"
  shows "wf_instr (BuildMI opc [addRegDef r, addReg q])" "immShape (BuildMI opc [addRegDef r, addReg q])"
    "\<not> isTerminator (BuildMI opc [addRegDef r, addReg q])"
  using assms by (auto simp: wf_eval immShape_def opReg_def isTerminator_def less_Suc_eq_0_disj)

lemma MVI_dest:
  assumes "wf_instr m" "immShape m" "opcode m = MVIr" "opReg m 0 = Some r"
  shows "GR8 r"
proof -
  obtain cls: "list_all2 (\<lambda>c x. c x) (the (reg_classes (opcode m))) (ex_regs (operands m))"
    using assms(1) by (rule wf_instrE)
  then obtain d where "ex_regs (operands m) = [d]" "GR8 d" using assms(3) by (auto simp: list_all2_Cons1)
  then show ?thesis using assms(2,4) by (simp add: immShape_def)
qed

lemma combine_new:
  assumes "wf_instr m" "immShape m" "x \<in> set (combine patched m K)"
  shows "x = m \<or> wf_instr x \<and> immShape x \<and> \<not> isTerminator x"
  by (rule combine_cases [of patched m K]) (use assms combined_wf MVI_dest [OF assms(1,2)] in auto)

lemma processLoop_new:
  "list_all wf_instr ms \<Longrightarrow> list_all immShape ms \<Longrightarrow> x \<in> set (processLoop patched K ms) \<Longrightarrow>
    x \<in> set ms \<or> wf_instr x \<and> immShape x \<and> \<not> isTerminator x"
proof (induction ms arbitrary: K)
  case (Cons m ms)
  then show ?case using combine_new [of m x patched "invalidateUndefUses m K"] by (auto simp: Let_def)
qed simp

lemma processLoop_wf:
  assumes "list_all wf_instr ms" "list_all immShape ms"
  shows "list_all wf_instr (processLoop patched K ms)" "list_all immShape (processLoop patched K ms)"
  using processLoop_new [OF assms] assms unfolding list_all_iff by blast+

lemma combine_terminator: "isTerminator m \<Longrightarrow> combine patched m K = [m]"
  by (rule combine_cases [of patched m K]) (auto simp: isTerminator_def)

lemma processLoop_final:
  assumes "list_all wf_instr ms" "list_all immShape ms" "final_last isTerminator ms"
  shows "final_last isTerminator (processLoop patched K ms)"
  using assms
proof (induction ms arbitrary: K)
  case (Cons m ms)
  let ?K = "invalidateUndefUses m K"
  have IH: "final_last isTerminator (processLoop patched (track patched m ?K) ms)" using Cons by simp
  have skip: "final_last isTerminator (xs @ ys)" if "\<forall>x \<in> set xs. \<not> isTerminator x" "final_last isTerminator ys" for xs ys
    using that by (induction xs) auto
  show ?case
  proof (cases "isTerminator m")
    case True
    then have "list_all isTerminator ms" using Cons.prems(3) by simp
    then have "list_all isTerminator (processLoop patched K' ms)" for K'
      by (induction ms arbitrary: K') (simp_all add: Let_def combine_terminator)
    then show ?thesis using IH True by (simp add: Let_def combine_terminator)
  next
    case False
    then have "\<forall>x \<in> set (combine patched m ?K). \<not> isTerminator x"
      using combine_new [of m _ patched ?K] Cons.prems by auto
    then show ?thesis using IH by (simp add: Let_def skip)
  qed
qed simp

lemma processLoop_bothWays:
  assumes "list_all wf_instr ms" "list_all immShape ms" "\<not> bothWays ms k ls"
  shows "\<not> bothWays (processLoop patched K ms) k ls"
proof -
  have "x \<in> set ms" if "x \<in> set (processLoop patched K ms)" "opcode x = Jcc COND_Z \<or> opcode x = Jcc COND_NZ" for x
    using processLoop_new [OF assms(1,2) that(1)] that(2) by (auto simp: isTerminator_def)
  then show ?thesis using assms(3) unfolding bothWays_def list_ex_iff by blast
qed

section \<open>The simulation\<close>

definition succLiveIns :: "lic_block list \<Rightarrow> nat \<Rightarrow> preg list list" where
  "succLiveIns MF k = map (\<lambda>b. licLiveIns (MF ! b)) (leadsTo (map licInstrs MF) k)"

text \<open>
  What a compiled function has: regular instructions with the terminators last, a list of predecessors that
  leaves none out, an entry that is not the target of just one block, and the flags among the live-ins of
  a block that reads them.
\<close>

definition licBlockOk :: "lic_block list \<Rightarrow> nat \<Rightarrow> bool" where
  "licBlockOk MF k \<longleftrightarrow> (let ms = licInstrs (MF ! k) in
     list_all wf_instr ms \<and> list_all immShape ms \<and> final_last isTerminator ms \<and>
     list_all (\<lambda>b. List.member (licPreds (MF ! b)) k \<and> \<not> bothWays ms b (k + 1 = b)) (leadsTo (map licInstrs MF) k) \<and>
     list_all (\<lambda>p. p < length MF) (licPreds (MF ! k)) \<and>
     (liveOut FLAGS [licLiveIns (MF ! k)] \<or> flags_dead (succLiveIns MF k) ms))"

definition licOk :: "lic_block list \<Rightarrow> bool" where
  "licOk MF \<longleftrightarrow> list_all (licBlockOk MF) [0..<length MF] \<and> MF \<noteq> [] \<and> length (licPreds (MF ! 0)) \<noteq> 1"

definition licStepsAllowed :: "(machine_instr \<Rightarrow> bool) \<Rightarrow> lic_block list \<Rightarrow> bool" where
  "licStepsAllowed patched MF =
    list_all (\<lambda>k. stepsAllowed patched (succLiveIns MF k) (tableAt patched MF k) (licInstrs (MF ! k))) [0..<length MF]"

definition licRel :: "(machine_instr \<Rightarrow> bool) \<Rightarrow> lic_block list \<Rightarrow> nat \<Rightarrow> cpu \<Rightarrow> cpu \<Rightarrow> bool" where
  "licRel patched MF k s t \<longleftrightarrow> cpu_cy (liveOut FLAGS [licLiveIns (MF ! k)]) s t \<and> agrees (tableAt patched MF k) s"

lemma licBlockOkD:
  assumes "licOk MF" "k < length MF"
  shows "list_all wf_instr (licInstrs (MF ! k))" "list_all immShape (licInstrs (MF ! k))"
    "final_last isTerminator (licInstrs (MF ! k))"
    "b \<in> set (leadsTo (map licInstrs MF) k) \<Longrightarrow> k \<in> set (licPreds (MF ! b)) \<and> \<not> bothWays (licInstrs (MF ! k)) b (k + 1 = b)"
    "liveOut FLAGS [licLiveIns (MF ! k)] \<or> flags_dead (succLiveIns MF k) (licInstrs (MF ! k))"
proof -
  have "licBlockOk MF k" using assms by (simp add: licOk_def list_all_iff)
  note ok = this [unfolded licBlockOk_def Let_def]
  from ok show "list_all wf_instr (licInstrs (MF ! k))" "list_all immShape (licInstrs (MF ! k))"
    "final_last isTerminator (licInstrs (MF ! k))"
    "liveOut FLAGS [licLiveIns (MF ! k)] \<or> flags_dead (succLiveIns MF k) (licInstrs (MF ! k))" by blast+
  show "k \<in> set (licPreds (MF ! b)) \<and> \<not> bothWays (licInstrs (MF ! k)) b (k + 1 = b)"
    if "b \<in> set (leadsTo (map licInstrs MF) k)"
    using ok that unfolding list_all_iff List.member_iff by blast
qed

lemma liveOut_mono: "b \<in> set (leadsTo (map licInstrs MF) k) \<Longrightarrow> liveOut r [licLiveIns (MF ! b)] \<Longrightarrow> liveOut r (succLiveIns MF k)"
  by (auto simp: liveOut_def succLiveIns_def list_ex_iff)

text \<open>The table of a block is right after either version of its predecessor.\<close>

lemma tableAt_next:
  assumes ok: "licOk MF" "k < length MF" and old: "run env (licInstrs (MF ! k)) s = Some (c, s')"
    and new: "run env (newInstrs patched MF k) t = Some (c, t')" and same: "r8 t' = r8 s'"
    and goes: "goes (length MF) k c = Some k'"
  shows "agrees (tableAt patched MF k') s'"
proof -
  note k = licBlockOkD [OF ok]
  have lead: "k' \<in> set (leadsTo (map licInstrs MF) k)"
    using leadsTo_run [of env "map licInstrs MF" k s c s' k'] old goes ok(2) by simp
  then have k': "k' < length MF" by (auto simp: leadsTo_def)
  have edge: "c = Goto k' \<or> c = Next \<and> k + 1 = k'" using goes by (cases c) (auto simp: goes_def split: if_splits)
  show ?thesis
  proof (cases "length (licPreds (MF ! k')) = 1")
    case False
    then show ?thesis using tableAt_none [OF k'] by (simp add: agrees_def)
  next
    case True
    then have p: "licPreds (MF ! k') = [k]" using k(4) [OF lead] by (auto simp: length_Suc_conv)
    note table = tableAt_pred [OF k' p ok(2), of patched]
    have both: "\<not> bothWays (licInstrs (MF ! k)) k' (k + 1 = k')" using k(4) [OF lead] by simp
    show ?thesis
    proof (cases "k < k'")
      case True
      have "agrees (tableAt patched MF k') t'"
        unfolding table using True
        by (simp only: if_True)
          (rule entryTable_sound [OF new edge]; use k(1-3) both in
            \<open>simp add: newInstrs_def processLoop_wf processLoop_final processLoop_bothWays\<close>)
      then show ?thesis using same by (simp add: agrees_def)
    next
      case False
      then show ?thesis unfolding table using entryTable_sound [OF old edge both k(1-3)] by simp
    qed
  qed
qed

lemma loadImm_block:
  assumes ok: "licOk MF" and steps: "licStepsAllowed patched MF"
    and k: "k < length MF" and R: "licRel patched MF k s t" and old: "run env (licInstrs (MF ! k)) s = Some (c, s')"
  shows "\<exists>t'. run env (newInstrs patched MF k) t = Some (c, t') \<and> (c = Return \<longrightarrow> cpu_cy False s' t') \<and>
    (\<forall>k'. goes (length MF) k c = Some k' \<longrightarrow> licRel patched MF k' s' t')"
proof -
  note b = licBlockOkD [OF ok k]
  have "stepsAllowed patched (succLiveIns MF k) (tableAt patched MF k) (licInstrs (MF ! k))"
    using steps k by (simp add: licStepsAllowed_def list_all_iff)
  then have "rel_option (ends_alike cpu_cy (succLiveIns MF k)) (run env (licInstrs (MF ! k)) s) (run env (newInstrs patched MF k) t)"
    unfolding newInstrs_def using R b by (intro processLoop_run) (auto simp: licRel_def)
  then obtain t' where new: "run env (newInstrs patched MF k) t = Some (c, t')"
    and t': "cpu_cy (liveOut FLAGS (succLiveIns MF k)) s' t'"
    unfolding old by (auto simp: option_rel_Some1 ends_alike_def)
  have "licRel patched MF k' s' t'" if goes: "goes (length MF) k c = Some k'" for k'
  proof -
    have "k' \<in> set (leadsTo (map licInstrs MF) k)"
      using leadsTo_run [of env "map licInstrs MF" k s c s' k'] old goes k by simp
    then have "cpu_cy (liveOut FLAGS [licLiveIns (MF ! k')]) s' t'"
      by (rule cpu_cy_mono [OF t' liveOut_mono])
    then show ?thesis
      using tableAt_next [OF ok k old new cpu_cy_r8 [OF t'] goes] unfolding licRel_def by blast
  qed
  moreover have "cpu_cy False s' t'" by (rule cpu_cy_mono [OF t']) simp
  ultimately show ?thesis using new by blast
qed

interpretation combined: block_simulation env "map licInstrs MF" "map licInstrs (loadImm_runOnMachineFunction False patched MF)"
    "\<lambda>k s t. licOk MF \<and> licStepsAllowed patched MF \<and> licRel patched MF k s t" "cpu_cy False"
  for env patched MF
proof
  show "length (map licInstrs (loadImm_runOnMachineFunction False patched MF)) = length (map licInstrs MF)"
    by (simp add: runOn_blocks)
next
  fix k s t c s'
  assume "k < length (map licInstrs MF)" "licOk MF \<and> licStepsAllowed patched MF \<and> licRel patched MF k s t"
    "run env (map licInstrs MF ! k) s = Some (c, s')"
  then show "\<exists>t'. run env (map licInstrs (loadImm_runOnMachineFunction False patched MF) ! k) t = Some (c, t') \<and>
      (c = Return \<longrightarrow> cpu_cy False s' t') \<and>
      (\<forall>k'. goes (length (map licInstrs MF)) k c = Some k' \<longrightarrow>
        licOk MF \<and> licStepsAllowed patched MF \<and> licRel patched MF k' s' t')"
    using loadImm_block [of MF patched k s t env c s'] by (simp add: runOn_blocks)
qed

section \<open>The function as it runs\<close>

definition licRunsAs :: "(machine_instr \<Rightarrow> bool) \<Rightarrow> lic_block list \<Rightarrow> lic_block list \<Rightarrow> bool" where
  "licRunsAs patched = list_all2 (\<lambda>b b'. licLiveIns b' = licLiveIns b \<and> licPreds b' = licPreds b \<and>
     codeRunsAs patched (licInstrs b) (licInstrs b'))"

definition cpisFixed :: "(machine_instr \<Rightarrow> bool) \<Rightarrow> lic_block list \<Rightarrow> bool" where
  "cpisFixed patched = list_all (\<lambda>b. cpiFixed patched (licInstrs b))"

lemma combine_opcodes: "x \<in> set (combine patched m K) \<Longrightarrow> x = m \<or> opcode x \<in> {MOVrr, INRr, DCRr}"
  by (rule combine_cases [of patched m K]) (auto simp: exec_combined)

lemma processLoop_cpiFixed: "cpiFixed patched ms \<Longrightarrow> cpiFixed patched (processLoop patched K ms)"
proof (induction ms arbitrary: K)
  case (Cons m ms)
  have "cpiFixed patched (combine patched m K')" for K'
    unfolding cpiFixed_def list_all_iff
  proof (intro ballI impI)
    fix x assume "x \<in> set (combine patched m K')" "opcode x = CPI"
    then have "x = m" using combine_opcodes [of x patched m K'] by auto
    then show "\<not> patched x" using Cons.prems \<open>opcode x = CPI\<close> by (simp add: cpiFixed_def)
  qed
  then show ?case using Cons by (simp add: Let_def cpiFixed_def)
qed simp

lemma combineBlock_runsAs:
  assumes "licRunsAs patched F F'" "cpisFixed patched F" "\<forall>k < length F. list_all (\<lambda>p. p < length F) (licPreds (F ! k))" "k < length F"
  shows "licRunsAs patched (combineBlock patched k F) (combineBlock patched k F')" "cpisFixed patched (combineBlock patched k F)"
    "map licPreds (combineBlock patched k F) = map licPreds F"
proof -
  have len: "length F' = length F" using assms(1) by (simp add: licRunsAs_def list_all2_lengthD)
  have at: "licLiveIns (F' ! j) = licLiveIns (F ! j) \<and> licPreds (F' ! j) = licPreds (F ! j) \<and>
      codeRunsAs patched (licInstrs (F ! j)) (licInstrs (F' ! j))" if "j < length F" for j
    using assms(1) that by (simp add: licRunsAs_def list_all2_conv_all_nth)
  have table: "entryTable patched (predInstrs F' k) k ls li = entryTable patched (predInstrs F k) k ls li" for ls li
  proof (cases "\<exists>p. licPreds (F ! k) = [p]")
    case True
    then obtain p where p: "licPreds (F ! k) = [p]" by blast
    then have "p < length F" using assms(3,4) by fastforce
    then have "cpiFixed patched (licInstrs (F ! p))" using assms(2) by (simp add: cpisFixed_def list_all_length)
    then show ?thesis
      using at [OF assms(4)] at [OF \<open>p < length F\<close>] p by (simp add: predInstrs_def runsAs_entryTable)
  next
    case False
    then show ?thesis using at [OF assms(4)] by (auto simp: predInstrs_def split: list.split)
  qed
  have ls: "isLayoutSuccessor F' k = isLayoutSuccessor F k" using at [OF assms(4)] by (simp add: isLayoutSuccessor_def)
  have "codeRunsAs patched (processBlock patched (predInstrs F k) k (isLayoutSuccessor F k) (licLiveIns (F ! k)) (licInstrs (F ! k)))
      (processBlock patched (predInstrs F' k) k (isLayoutSuccessor F' k) (licLiveIns (F' ! k)) (licInstrs (F' ! k)))"
    using at [OF assms(4)] by (simp add: processBlock_def table ls runsAs_processLoop)
  then show "licRunsAs patched (combineBlock patched k F) (combineBlock patched k F')"
    using assms(1,4) at [OF assms(4)] len
    unfolding licRunsAs_def combineBlock_def by (intro list_all2_update_cong) simp_all
  have "cpiFixed patched (licInstrs (F ! k))" using assms(2,4) by (simp add: cpisFixed_def list_all_length)
  then show "cpisFixed patched (combineBlock patched k F)"
    using assms(2) unfolding cpisFixed_def combineBlock_def list_all_iff
    by (auto dest: set_update_subset_insert [THEN subsetD] simp: processBlock_def processLoop_cpiFixed)
  show "map licPreds (combineBlock patched k F) = map licPreds F"
    by (simp add: combineBlock_def map_update list_update_same_conv assms(4))
qed

lemma runOn_runsAs:
  assumes "licRunsAs patched MF MF'" "cpisFixed patched MF" "\<forall>k < length MF. list_all (\<lambda>p. p < length MF) (licPreds (MF ! k))"
    and "k \<le> length MF"
  shows "licRunsAs patched (upTo patched MF k) (upTo patched MF' k) \<and> cpisFixed patched (upTo patched MF k) \<and>
    map licPreds (upTo patched MF k) = map licPreds MF"
  using assms(4)
proof (induction k)
  case (Suc k)
  let ?F = "upTo patched MF k"
  have IH: "licRunsAs patched ?F (upTo patched MF' k)" "cpisFixed patched ?F" "map licPreds ?F = map licPreds MF"
    using Suc by simp_all
  have len: "length ?F = length MF" using IH(3) by (metis length_map)
  moreover have "licPreds (?F ! j) = licPreds (MF ! j)" if "j < length MF" for j
    using IH(3) that len by (metis nth_map)
  ultimately have "\<forall>j < length ?F. list_all (\<lambda>p. p < length ?F) (licPreds (?F ! j))" using assms(3) by simp
  note step = combineBlock_runsAs [OF IH(1,2) this]
  show ?case using step [of k] Suc.prems len IH(3) by (simp add: upTo_def)
qed (use assms in \<open>simp add: upTo_def\<close>)

text \<open>
  C17.  load-immediate combining (V6ClangLoadImmCombine.cpp) keeps the meaning of a function, across its
  blocks and their loops: if a run of the function returns, whatever immediates the spills have put
  into it, so does the run of the new function, with the same registers, memory and carry.  The conditions: no
  spill patches a CPI (\<open>cpisFixed\<close>), the flags are dead wherever an INR or DCR is put
  (\<open>licStepsAllowed\<close>), and what \<open>licOk\<close> says of a compiled function, among it that no block is reached both
  as the target of a JZ or JNZ and by falling through, and that the entry has not exactly one predecessor.
\<close>

theorem loadImm_function_correct:
  assumes "licRunsAs patched MF MF'" "cpisFixed patched MF"
    and "licOk MF'" "licStepsAllowed patched MF'" "returns env (map licInstrs MF') 0 s s'"
  shows "\<exists>out t'. licRunsAs patched (loadImm_runOnMachineFunction disabled patched MF) out \<and>
    returns env (map licInstrs out) 0 s t' \<and> cpu_cy False s' t'"
proof (cases disabled)
  case True
  then show ?thesis using assms(1,5) by (auto simp: loadImm_runOnMachineFunction_def intro!: exI [of _ MF'])
next
  case False
  have len: "length MF' = length MF" using assms(1) by (simp add: licRunsAs_def list_all2_lengthD)
  have "licPreds (MF' ! k) = licPreds (MF ! k)" if "k < length MF" for k
    using assms(1) that by (simp add: licRunsAs_def list_all2_conv_all_nth)
  then have "\<forall>k < length MF. list_all (\<lambda>p. p < length MF) (licPreds (MF ! k))"
    using assms(3) len by (simp add: licOk_def licBlockOk_def list_all_iff Let_def)
  from runOn_runsAs [OF assms(1,2) this order_refl]
  have "licRunsAs patched (loadImm_runOnMachineFunction disabled patched MF) (loadImm_runOnMachineFunction False patched MF')"
    using False len by (simp add: loadImm_runOnMachineFunction_def upTo_def)
  moreover have "licRel patched MF' 0 s s"
    using assms(3) tableAt_none [of 0 MF' patched] by (simp add: licRel_def licOk_def agrees_def)
  ultimately show ?thesis using combined.returns_sim [OF assms(5)] assms(3,4) by blast
qed

text \<open>
  A loop that counts A down by D, which a spill patches.  The block behind it knows that A is zero: its loads
  become a move and an increment.
\<close>

definition licDemo :: "int \<Rightarrow> lic_block list" where
  "licDemo d =
    [\<lparr>licLiveIns = [], licPreds = [], licInstrs = [MVIi D d, MVIi A 2]\<rparr>,
     \<lparr>licLiveIns = [A, D], licPreds = [0, 1], licInstrs = [ALU SUB D, ALU ORA A, JNZi 1]\<rparr>,
     \<lparr>licLiveIns = [A], licPreds = [1], licInstrs = [MVIi B 0, MVIi A 1, BuildMI RET []]\<rparr>]"

lemma licDemo_new:
  "map licInstrs (loadImm_runOnMachineFunction False intoD (licDemo 0)) =
    [[MVIi D 0, MVIi A 2], [ALU SUB D, ALU ORA A, JNZi 1],
     [BuildMI MOVrr [addRegDef B, addReg A], BuildMI INRr [addRegDef A, addReg A], BuildMI RET []]]"
  by code_simp

lemma licDemo_returns: "\<exists>t. returns env (map licInstrs (licDemo 1)) 0 s t"
proof -
  let ?F = "map licInstrs (licDemo 1)"
  define u where "u = setR A 2 (setR D 1 s)"
  define v where "v = aluA ORA 1 (aluA SUB 1 u)"
  define w where "w = aluA ORA 0 (aluA SUB 1 v)"
  have regs: "r8 u A = 2" "r8 u D = 1" "r8 v A = 1" "r8 v D = 1" "r8 w A = 0"
    by (simp_all add: u_def v_def w_def aluA_def Let_def)
  have 0: "run env (?F ! 0) s = Some (Next, u)"
    by (simp add: licDemo_def exec_simps u_def lo8_def)
  have 1: "run env (?F ! 1) u = Some (Goto 1, v)"
    using regs by (simp add: licDemo_def exec_simps v_def aluA_def Let_def)
  have 2: "run env (?F ! 1) v = Some (Next, w)"
    using regs by (simp add: licDemo_def exec_simps w_def aluA_def Let_def)
  have 3: "\<exists>t. run env (?F ! 2) w = Some (Return, t)"
    by (simp add: licDemo_def exec_simps step_def)
  have "reaches env ?F 0 s 2 w"
    by (rule reaches.block [OF _ 0, of 1], simp add: licDemo_def, simp add: licDemo_def goes_def)
      (rule reaches.block [OF _ 1, of 1], simp add: licDemo_def, simp add: licDemo_def goes_def,
       rule reaches.block [OF _ 2, of 2], simp add: licDemo_def, simp add: licDemo_def goes_def, rule reaches.here)
  moreover have "2 < length ?F" by (simp add: licDemo_def)
  ultimately show ?thesis using 3 unfolding returns_def by blast
qed

theorem loadImm_function_correct_witness:
  "\<forall>env s. \<exists>s' out t'. returns env (map licInstrs (licDemo 1)) 0 s s' \<and>
    licRunsAs intoD (loadImm_runOnMachineFunction False intoD (licDemo 0)) out \<and>
    returns env (map licInstrs out) 0 s t' \<and> cpu_cy False s' t'"
proof (intro allI)
  fix env s
  obtain s' where s': "returns env (map licInstrs (licDemo 1)) 0 s s'" using licDemo_returns by blast
  have "licRunsAs intoD (licDemo 0) (licDemo 1)"
    by (simp add: licRunsAs_def licDemo_def runsAs_def opImm_def opReg_def BuildMI_def ALU_def)
  moreover have "cpisFixed intoD (licDemo 0)" by code_simp
  moreover have "licOk (licDemo 1)" by code_simp
  moreover have "licStepsAllowed intoD (licDemo 1)" by code_simp
  ultimately show "\<exists>s' out t'. returns env (map licInstrs (licDemo 1)) 0 s s' \<and>
      licRunsAs intoD (loadImm_runOnMachineFunction False intoD (licDemo 0)) out \<and>
      returns env (map licInstrs out) 0 s t' \<and> cpu_cy False s' t'"
    using loadImm_function_correct [of intoD "licDemo 0" "licDemo 1" env s s' False] s' by blast
qed

end
