(* ===== verification/XchgFunc.thy ===== *)
theory XchgFunc
  imports XchgOpt FuncSim
begin

text \<open>
  The XCHG pass over a whole function.  A run of the function that returns is matched by one of the new
  function that returns in a state that agrees on everything but dead registers; what the caller reads is
  not among them, because the return instruction uses it.
\<close>

section \<open>Registers that the caller reads\<close>

text \<open>
  A return instruction has the returned registers as implicit uses.  A scan that runs into it finds them
  live, so the registers can as well be added to the live-ins of the successors.
\<close>

definition usedAtEnd :: "preg list \<Rightarrow> machine_instr list \<Rightarrow> bool" where
  "usedAtEnd ret ms \<longleftrightarrow> ms \<noteq> [] \<and> opcode (last ms) \<noteq> MOVrr \<and>
    (\<forall>q. (GR8 q \<or> q = DE \<or> q = HL) \<and> liveOut q [ret] \<longrightarrow> usesReg q (last ms))"

lemma usedAtEndD:
  assumes "usedAtEnd ret ms"
  shows "ms \<noteq> []" "opcode (last ms) \<noteq> MOVrr" "GR8 q \<or> q = DE \<or> q = HL \<Longrightarrow> liveOut q [ret] \<Longrightarrow> usesReg q (last ms)"
  using assms unfolding usedAtEnd_def by blast+

definition isReturn :: "machine_instr \<Rightarrow> bool" where
  "isReturn m = (case opcode m of RET \<Rightarrow> True | Rcc _ \<Rightarrow> True | _ \<Rightarrow> False)"

text \<open>The live-ins of the successors, and of the caller if the block returns.\<close>

definition readLater :: "preg list \<Rightarrow> preg list list \<Rightarrow> machine_instr list \<Rightarrow> preg list list" where
  "readLater ret succs ms = (if list_ex isReturn ms then ret # succs else succs)"

lemma liveOut_Cons: "liveOut q (li # succs) \<longleftrightarrow> liveOut q [li] \<or> liveOut q succs"
  by (simp add: liveOut_def)

lemma dead_with_caller:
  assumes "liveOut q [ret] \<longrightarrow> (\<exists>m \<in> set ms. usesReg q m)"
  shows "isRegDeadAtMI q ms (ret # succs) = isRegDeadAtMI q ms succs"
    and "xchg_isRegDeadAfter ms (ret # succs) q = xchg_isRegDeadAfter ms succs q"
proof -
  have x: "usesReg q m \<Longrightarrow> xchg_usesReg q m" for m
    by (auto simp: usesReg_def xchg_usesReg_def list_ex_iff split: option.splits)
  show "isRegDeadAtMI q ms (ret # succs) = isRegDeadAtMI q ms succs"
    using assms by (induction ms) (auto simp: liveOut_Cons [of q ret succs])
  show "xchg_isRegDeadAfter ms (ret # succs) q = xchg_isRegDeadAfter ms succs q"
    using assms by (induction ms) (auto simp: liveOut_Cons [of q ret succs] x)
qed

lemma tryXchg_with_caller:
  assumes "usedAtEnd ret ms" "ms = bef @ aft"
  shows "tryXchg li (ret # succs) bef aft = tryXchg li succs bef aft"
proof (cases aft rule: remdups_adj.cases)
  case (3 x y zs)
  have same: "xchg_isRegDeadAfter zs (ret # succs) q = xchg_isRegDeadAfter zs succs q"
    if "opcode y = MOVrr" "q \<in> {HL, DE}" for q
  proof (rule dead_with_caller)
    note last = usedAtEndD [OF assms(1)]
    have "zs \<noteq> []" using last(2) that(1) assms(2) 3 by auto
    then have "last zs \<in> set zs" "last ms = last zs" using assms(2) 3 by simp_all
    then show "liveOut q [ret] \<longrightarrow> (\<exists>m \<in> set zs. usesReg q m)"
      using last(3) [of q] that(2) by (metis insertE singletonD)
  qed
  show ?thesis
  proof (cases "opcode y = MOVrr")
    case True
    then show ?thesis using same [of HL] same [of DE] by (simp only: 3 tryXchg.simps insert_iff simp_thms)
  next
    case False
    then show ?thesis by (simp add: 3 isMovReg_def)
  qed
qed simp_all

lemma usedAtEnd_tryXchg:
  assumes "usedAtEnd ret (bef @ aft)" "tryXchg li succs bef aft = Some M'"
  shows "usedAtEnd ret M'"
proof -
  obtain m n rest q where a: "aft = m # n # rest" "opcode n = MOVrr" "M' = bef @ markUndefIfNotLive li bef q XCHGi # rest"
    using tryXchgD [OF assms(2)] by (auto simp: movesPair_def isMovReg_def)
  then have "rest \<noteq> []" using usedAtEndD(2) [OF assms(1)] by auto
  then have "last M' = last (bef @ aft)" "M' \<noteq> []" using a by simp_all
  then show ?thesis using assms(1) unfolding usedAtEnd_def by metis
qed

lemma xchgLoop_with_caller:
  "usedAtEnd ret MBB \<Longrightarrow> xchgLoop li (ret # succs) ch MBB i = xchgLoop li succs ch MBB i"
proof (induction li succs ch MBB i rule: xchgLoop.induct)
  case (1 li succs ch MBB i)
  have again: "tryXchg li (ret # succs) (take i MBB) (drop i MBB) = tryXchg li succs (take i MBB) (drop i MBB)"
    by (rule tryXchg_with_caller [OF 1(3)]) simp
  show ?case
  proof (cases "tryXchg li succs (take i MBB) (drop i MBB)")
    case None
    then show ?thesis
      using 1 again by (subst (1 2) xchgLoop.simps) simp
  next
    case (Some M')
    then have "usedAtEnd ret M'" using usedAtEnd_tryXchg [of ret "take i MBB" "drop i MBB"] 1(3) by simp
    then show ?thesis using 1 again Some by (subst (1 2) xchgLoop.simps) simp
  qed
qed

section \<open>Blocks\<close>

definition xchgOk :: "preg list \<Rightarrow> xchg_block list \<Rightarrow> nat \<Rightarrow> bool" where
  "xchgOk ret MF k \<longleftrightarrow> (let b = MF ! k; ms = blockInstrs b; succs = blockSuccLiveIns b in
     suffix_ok (readLater ret succs ms) ms \<and> (list_ex isReturn ms \<longrightarrow> usedAtEnd ret ms) \<and>
     list_all (\<lambda>k'. List.member succs (blockLiveIns (MF ! k'))) (leadsTo (map blockInstrs MF) k) \<and>
     (\<forall>r. GR8 r \<longrightarrow> liveOut r [blockLiveIns b] \<or> isRegDeadAtMI r ms succs))"

definition deadAtEntry :: "xchg_block list \<Rightarrow> nat \<Rightarrow> preg set" where
  "deadAtEntry MF k = {r. GR8 r \<and> \<not> liveOut r [blockLiveIns (MF ! k)]}"

text \<open>The state has a component for every register name; those of the pairs are never looked at.\<close>

lemma setR_pair:
  assumes "\<not> GR8 r"
  shows "GR8 q \<Longrightarrow> r8 (setR r v s) q = r8 s q" "GR8 q \<Longrightarrow> setR q w (setR r v s) = setR r v (setR q w s)"
    and "GR16All p \<Longrightarrow> getP p (setR r v s) = getP p s" "GR16Stack p \<Longrightarrow> getP p (setR r v s) = getP p s"
      "GR16Idx p \<Longrightarrow> getP p (setR r v s) = getP p s"
    and "GR16All p \<Longrightarrow> setP p x (setR r v s) = setR r v (setP p x s)" "GR16Stack p \<Longrightarrow> setP p x (setR r v s) = setR r v (setP p x s)"
    and "aluA op b (setR r v s) = setR r v (aluA op b s)"
proof -
  have ne: "q \<noteq> r" if "GR8 q" for q using that assms by blast
  note regs = ne [of A] ne [of B] ne [of C] ne [of D] ne [of E] ne [of H] ne [of L]
  show "GR8 q \<Longrightarrow> r8 (setR r v s) q = r8 s q" "GR8 q \<Longrightarrow> setR q w (setR r v s) = setR r v (setR q w s)"
    using ne setR_commute [of q r w v s] by (auto simp: setR_def)
  show "GR16All p \<Longrightarrow> getP p (setR r v s) = getP p s" "GR16Stack p \<Longrightarrow> getP p (setR r v s) = getP p s"
    "GR16Idx p \<Longrightarrow> getP p (setR r v s) = getP p s"
    using regs by (cases p; simp add: setR_def)+
  show "GR16All p \<Longrightarrow> setP p x (setR r v s) = setR r v (setP p x s)" "GR16Stack p \<Longrightarrow> setP p x (setR r v s) = setR r v (setP p x s)"
    using regs by (cases p; simp add: setR_def fun_eq_iff)+
  show "aluA op b (setR r v s) = setR r v (aluA op b s)"
    using regs by (intro aluA_setR) simp
qed

lemma step_pair:
  assumes "list_all2 (\<lambda>c x. c x) (the (reg_classes opc)) rs" "\<not> GR8 r" "reg_classes opc \<noteq> None"
  shows "step env opc rs vs bs (setR r v s) = map_option (map_prod id (setR r v)) (step env opc rs vs bs s)"
  using assms
  by (cases opc; simp add: list_all2_Cons1)
    (auto simp: step_def list_all2_Cons1 setR_pair [OF assms(2)] dad_def
      simp del: regsOverlap_code getP.simps setP.simps split: list.split)

lemma run_pair:
  "list_all wf_instr ms \<Longrightarrow> \<not> GR8 r \<Longrightarrow>
    run env ms (setR r v s) = map_option (map_prod id (setR r v)) (run env ms s)"
proof (induction ms arbitrary: s)
  case (Cons m ms)
  have "exec env m (setR r v s) = map_option (map_prod id (setR r v)) (exec env m s)"
    unfolding exec_def by (rule step_pair) (use Cons.prems in \<open>auto elim: wf_instrE\<close>)
  then show ?case using Cons by (cases "exec env m s") auto
qed simp

lemma run_pairs:
  assumes "list_all wf_instr ms" "\<forall>r \<in> set rs. \<not> GR8 r"
  shows "rel_option (same_exit succs) (run env ms (fold (\<lambda>r. setR r (f r)) rs s)) (run env ms s)"
  using assms(2)
proof (induction rs arbitrary: s)
  case Nil
  then show ?case by (cases "run env ms s") (simp_all add: same_exit_def)
next
  case (Cons r rs)
  have "rel_option (same_exit succs) (run env ms (setR r (f r) s)) (run env ms s)"
    using run_pair [OF assms(1), of r env "f r" s] Cons.prems
    by (cases "run env ms s") (auto simp: same_exit_def unchanged_def setR_def)
  then show ?case using Cons by (auto intro: rel_same_exit_trans)
qed

lemma unchanged_fold:
  assumes "unchanged {r. GR8 r \<and> P r} {} s t"
  shows "t = fold (\<lambda>r. setR r (r8 t r)) (filter P [A, B, C, D, E, H, L])
    (fold (\<lambda>r. setR r (r8 t r)) [BC, DE, HL, PSW, SP, PC, FLAGS] s)"
proof -
  have fold_setR: "fold (\<lambda>r. setR r (f r)) rs u = u\<lparr>r8 := \<lambda>q. if q \<in> set rs then f q else r8 u q\<rparr>" for f rs u
    by (induction rs arbitrary: u) (auto simp: setR_def fun_eq_iff)
  have twice: "fold (\<lambda>r. setR r (f r)) rs (fold (\<lambda>r. setR r (f r)) rs' u) =
      u\<lparr>r8 := \<lambda>q. if q \<in> set rs \<or> q \<in> set rs' then f q else r8 u q\<rparr>" for f rs rs' u
    by (auto simp: fold_setR fun_eq_iff)
  have "fl t = fl s" "sp t = sp s" "mem t = mem s" "inte t = inte s" "iolog t = iolog s"
    using assms by (auto simp: unchanged_def fun_eq_iff)
  then have "t = s\<lparr>r8 := r8 t\<rparr>" by (cases s; cases t) simp
  moreover have "(\<lambda>q. if q \<in> set (filter P [A, B, C, D, E, H, L]) \<or> q \<in> set [BC, DE, HL, PSW, SP, PC, FLAGS]
      then r8 t q else r8 s q) = r8 t"
  proof
    fix q
    have "r8 t q = r8 s q" if "GR8 q" "\<not> P q" using assms that by (simp add: unchanged_def)
    then show "(if q \<in> set (filter P [A, B, C, D, E, H, L]) \<or> q \<in> set [BC, DE, HL, PSW, SP, PC, FLAGS]
      then r8 t q else r8 s q) = r8 t q"
      by (cases q) auto
  qed
  ultimately show ?thesis unfolding twice by simp
qed

lemma run_upto_dead:
  assumes "unchanged {r. GR8 r \<and> P r} {} s t" "list_all wf_instr ms" "final_last isTerminator ms"
    and "\<forall>r. GR8 r \<longrightarrow> P r \<longrightarrow> isRegDeadAtMI r ms succs"
  shows "rel_option (same_exit succs) (run env ms t) (run env ms s)"
proof (subst unchanged_fold [OF assms(1)], rule rel_same_exit_trans)
  show "rel_option (same_exit succs)
      (run env ms (fold (\<lambda>r. setR r (r8 t r)) (filter P [A, B, C, D, E, H, L])
        (fold (\<lambda>r. setR r (r8 t r)) [BC, DE, HL, PSW, SP, PC, FLAGS] s)))
      (run env ms (fold (\<lambda>r. setR r (r8 t r)) [BC, DE, HL, PSW, SP, PC, FLAGS] s))"
    by (rule dead_fold [OF assms(2,3)]) (use assms(4) in auto)
  show "rel_option (same_exit succs) (run env ms (fold (\<lambda>r. setR r (r8 t r)) [BC, DE, HL, PSW, SP, PC, FLAGS] s)) (run env ms s)"
    by (rule run_pairs [OF assms(2)]) simp
qed

lemma run_Return: "run env ms s = Some (Return, t) \<Longrightarrow> list_ex isReturn ms"
proof (induction ms arbitrary: s)
  case (Cons m ms)
  obtain c u where u: "exec env m s = Some (c, u)" using Cons.prems by (auto split: option.splits)
  have "isReturn m" if "exec env m s = Some (Return, t)" for t
    using that by (cases "opcode m") (auto simp: isReturn_def exec_def step_def split: list.splits if_splits)
  then show ?case using Cons u by (cases "c = Next") auto
qed simp

definition newBlock :: "xchg_block list \<Rightarrow> nat \<Rightarrow> machine_instr list" where
  "newBlock MF k = blockInstrs (snd (xchgBlock (MF ! k)))"

lemma xchg_block_run:
  assumes ok: "xchgOk ret MF k" and R: "unchanged (deadAtEntry MF k) {} s t"
  shows "rel_option (same_exit (readLater ret (blockSuccLiveIns (MF ! k)) (blockInstrs (MF ! k))))
    (run env (newBlock MF k) t) (run env (blockInstrs (MF ! k)) s)"
proof -
  define ms succs li where "ms = blockInstrs (MF ! k)" "succs = blockSuccLiveIns (MF ! k)" "li = blockLiveIns (MF ! k)"
  let ?succs = "readLater ret succs ms"
  have suff: "suffix_ok ?succs ms" and ret: "list_ex isReturn ms \<Longrightarrow> usedAtEnd ret ms"
    and dead: "\<And>r. GR8 r \<Longrightarrow> \<not> liveOut r [li] \<Longrightarrow> isRegDeadAtMI r ms succs"
    using ok unfolding xchgOk_def Let_def ms_succs_li_def by blast+
  have loop: "xchgLoop li ?succs False ms 0 = xchgLoop li succs False ms 0"
    using ret by (auto simp: readLater_def intro: xchgLoop_with_caller)
  have "rel_option (same_exit ?succs) (run env (snd (xchgLoop li ?succs False ms 0)) t) (run env ms t)"
    by (rule xchgLoop_run [of 0 0]) (use suff in auto)
  then have 1: "rel_option (same_exit ?succs) (run env (newBlock MF k) t) (run env ms t)"
    unfolding loop by (simp add: newBlock_def xchgBlock_def Let_def case_prod_beta cancelLoop_run ms_succs_li_def)
  have "isRegDeadAtMI r ms ?succs" if "GR8 r" "\<not> liveOut r [li]" for r
  proof (cases "list_ex isReturn ms")
    case True
    note last = usedAtEndD [OF ret [OF True]]
    have "isRegDeadAtMI r ms (ret # succs) = isRegDeadAtMI r ms succs"
      by (rule dead_with_caller) (use last(1) last(3) [of r] that(1) last_in_set in blast)
    then show ?thesis using dead [OF that] True by (simp add: readLater_def)
  next
    case False
    then show ?thesis using dead [OF that] by (simp add: readLater_def)
  qed
  then have "rel_option (same_exit ?succs) (run env ms t) (run env ms s)"
    using R suff by (intro run_upto_dead [where P = "\<lambda>r. \<not> liveOut r [li]"]) (auto simp: deadAtEntry_def ms_succs_li_def suffix_ok_def)
  from rel_same_exit_trans [OF 1 this] show ?thesis by (simp add: ms_succs_li_def)
qed

lemma xchg_block:
  assumes ok: "xchgOk ret MF k" and R: "unchanged (deadAtEntry MF k) {} s t" and k: "k < length MF"
    and old: "run env (blockInstrs (MF ! k)) s = Some (c, s')"
  shows "\<exists>t'. run env (newBlock MF k) t = Some (c, t') \<and>
    (c = Return \<longrightarrow> unchanged {r. GR8 r \<and> \<not> liveOut r [ret]} {} s' t') \<and>
    (\<forall>k'. goes (length MF) k c = Some k' \<longrightarrow> unchanged (deadAtEntry MF k') {} s' t')"
proof -
  let ?later = "readLater ret (blockSuccLiveIns (MF ! k)) (blockInstrs (MF ! k))"
  obtain t' where new: "run env (newBlock MF k) t = Some (c, t')"
    and "unchanged {r. GR8 r \<and> \<not> liveOut r ?later} {} t' s'"
    using xchg_block_run [OF ok R, of env] unfolding old by (auto simp: option_rel_Some2 same_exit_def)
  then have t': "unchanged {r. GR8 r \<and> \<not> liveOut r ?later} {} s' t'" by (auto simp: unchanged_def)
  have "unchanged (deadAtEntry MF k') {} s' t'" if "goes (length MF) k c = Some k'" for k'
  proof (rule unchanged_mono [OF t'])
    have "k' \<in> set (leadsTo (map blockInstrs MF) k)"
      using leadsTo_run [of env "map blockInstrs MF" k s c s' k'] old that k by simp
    then have "blockLiveIns (MF ! k') \<in> set (blockSuccLiveIns (MF ! k))"
      using ok unfolding xchgOk_def Let_def list_all_iff List.member_iff by blast
    then show "{r. GR8 r \<and> \<not> liveOut r ?later} \<subseteq> deadAtEntry MF k'"
      by (auto simp: deadAtEntry_def readLater_def liveOut_def list_ex_iff)
  qed simp
  moreover have "unchanged {r. GR8 r \<and> \<not> liveOut r [ret]} {} s' t'" if "c = Return"
  proof (rule unchanged_mono [OF t'])
    have "list_ex isReturn (blockInstrs (MF ! k))" using old that run_Return by blast
    then show "{r. GR8 r \<and> \<not> liveOut r ?later} \<subseteq> {r. GR8 r \<and> \<not> liveOut r [ret]}"
      by (auto simp: readLater_def liveOut_def)
  qed simp
  ultimately show ?thesis using new by blast
qed

lemma newBlocks: "map blockInstrs (snd (xchg_runOnMachineFunction False MF)) = map (newBlock MF) [0..<length MF]"
  by (auto simp: xchg_runOnMachineFunction_def newBlock_def intro!: nth_equalityI)

interpretation xchg: block_simulation env "map blockInstrs MF" "map blockInstrs (snd (xchg_runOnMachineFunction False MF))"
    "\<lambda>k s t. (\<forall>k < length MF. xchgOk ret MF k) \<and> unchanged (deadAtEntry MF k) {} s t"
    "unchanged {r. GR8 r \<and> \<not> liveOut r [ret]} {}"
  for env MF ret
proof
  show "length (map blockInstrs (snd (xchg_runOnMachineFunction False MF))) = length (map blockInstrs MF)"
    by (simp add: newBlocks)
next
  fix k s t c s'
  assume "k < length (map blockInstrs MF)" "(\<forall>k < length MF. xchgOk ret MF k) \<and> unchanged (deadAtEntry MF k) {} s t"
    "run env (map blockInstrs MF ! k) s = Some (c, s')"
  then show "\<exists>t'. run env (map blockInstrs (snd (xchg_runOnMachineFunction False MF)) ! k) t = Some (c, t') \<and>
      (c = Return \<longrightarrow> unchanged {r. GR8 r \<and> \<not> liveOut r [ret]} {} s' t') \<and>
      (\<forall>k'. goes (length (map blockInstrs MF)) k c = Some k' \<longrightarrow>
        (\<forall>k < length MF. xchgOk ret MF k) \<and> unchanged (deadAtEntry MF k') {} s' t')"
    using xchg_block [of ret MF k s t env c s'] by (simp add: newBlocks)
qed

text \<open>
  C18.  The XCHG pass (V6ClangXchgOpt.cpp) keeps the meaning of a function, across its blocks and their
  loops: if a run of it returns, so does the run of the new function, with the same memory and
  the same values in the registers that the caller reads.  The condition on every block is \<open>xchgOk\<close>: regular
  instructions with the terminators last, live-ins that cover what the block and its successors read,
  the returned registers used by the return, and, wherever one of HL and DE is copied to the other, a scan of the
  copied pair that promises no more than the scans of its halves.
\<close>

theorem xchg_function_correct:
  assumes "list_all (xchgOk ret MF) [0..<length MF]" "returns env (map blockInstrs MF) 0 s s'"
  shows "\<exists>t'. returns env (map blockInstrs (snd (xchg_runOnMachineFunction disabled MF))) 0 s t' \<and>
    unchanged {r. GR8 r \<and> \<not> liveOut r [ret]} {} s' t'"
proof (cases disabled)
  case True
  then show ?thesis using assms(2) by (auto simp: xchg_runOnMachineFunction_def)
next
  case False
  have "(\<forall>k < length MF. xchgOk ret MF k) \<and> unchanged (deadAtEntry MF 0) {} s s"
    using assms(1) by (simp add: list_all_iff)
  from xchg.returns_sim [OF assms(2) this] show ?thesis using False by simp
qed

text \<open>The first block moves HL to DE and loads HL anew, the second adds them up and returns HL.\<close>

definition xchgFunction :: "xchg_block list" where
  "xchgFunction =
    [\<lparr>blockLiveIns = [HL], blockSuccLiveIns = [[DE, HL]],
      blockInstrs = [MOV D H, MOV E L, BuildMI LXI [addRegDef HL, addImm 7]]\<rparr>,
     \<lparr>blockLiveIns = [DE, HL], blockSuccLiveIns = [],
      blockInstrs = [DADi DE, BuildMI RET [MO_Register HL False True True False False]]\<rparr>]"

lemma xchgFunction_new: "map blockInstrs (snd (xchg_runOnMachineFunction False xchgFunction)) =
    [[XCHGi\<lparr>operands := mark_first_use DE (operands XCHGi)\<rparr>, BuildMI LXI [addRegDef HL, addImm 7]],
     [DADi DE, BuildMI RET [MO_Register HL False True True False False]]]"
  by code_simp

lemma xchgFunction_ok: "list_all (xchgOk [HL] xchgFunction) [0..<length xchgFunction]"
  by code_simp

theorem xchg_function_correct_witness:
  "\<forall>env s. \<exists>s' t'. returns env (map blockInstrs xchgFunction) 0 s s' \<and>
    returns env (map blockInstrs (snd (xchg_runOnMachineFunction False xchgFunction))) 0 s t' \<and>
    unchanged {r. GR8 r \<and> \<not> liveOut r [[HL]]} {} s' t'"
proof (intro allI)
  fix env s
  let ?F = "map blockInstrs xchgFunction"
  obtain u where 0: "run env (?F ! 0) s = Some (Next, u)" by (simp add: xchgFunction_def exec_simps)
  obtain v where 1: "run env (?F ! 1) u = Some (Return, v)" by (simp add: xchgFunction_def exec_simps step_def)
  have "reaches env ?F 0 s 1 u"
    by (rule reaches.block [OF _ 0, of 1], simp add: xchgFunction_def, simp add: xchgFunction_def goes_def, rule reaches.here)
  moreover have "1 < length ?F" by (simp add: xchgFunction_def)
  ultimately have r: "returns env ?F 0 s v" using 1 unfolding returns_def by blast
  from xchg_function_correct [OF xchgFunction_ok r, of False] r
  show "\<exists>s' t'. returns env ?F 0 s s' \<and>
      returns env (map blockInstrs (snd (xchg_runOnMachineFunction False xchgFunction))) 0 s t' \<and>
      unchanged {r. GR8 r \<and> \<not> liveOut r [[HL]]} {} s' t'" by blast
qed

end
