(* ===== verification/FlagFunc.thy ===== *)
theory FlagFunc
  imports FlagOpts FuncSim
begin

text \<open>
  The two flag passes over a whole function: what their block theorems say holds across blocks and loops.
\<close>

section \<open>The zero test\<close>

text \<open>Every CPI has one value and nothing looks at the auxiliary carry.\<close>

definition zeroTestOk :: "mfunction \<Rightarrow> bool" where
  "zeroTestOk F \<longleftrightarrow> list_all (\<lambda>ms. list_all noAC ms \<and> list_all cpiShape ms) F"

interpretation zero: block_simulation env F "snd (zeroTest_runOnMachineFunction False patched F)"
    "\<lambda>_ s t. zeroTestOk F \<and> cpu_upto True s t" "cpu_upto True"
  for env F patched
proof
  show "length (snd (zeroTest_runOnMachineFunction False patched F)) = length F"
    by (simp add: zeroTest_runOnMachineFunction_def)
next
  fix k s t c s'
  assume k: "k < length F" and R: "zeroTestOk F \<and> cpu_upto True s t" and old: "run env (F ! k) s = Some (c, s')"
  have "list_all noAC (F ! k)" "list_all cpiShape (F ! k)" using R nth_mem [OF k] unfolding zeroTestOk_def list_all_iff by blast+
  then have "rel_option (upto_exit [[FLAGS]]) (run env (F ! k) s) (run env (map (zeroTest patched) (F ! k)) t)"
    using R by (intro zeroTest_run [where cy = True]) auto
  then obtain t' where "run env (map (zeroTest patched) (F ! k)) t = Some (c, t')" "cpu_upto True s' t'"
    unfolding old by (auto simp: option_rel_Some1 ends_alike_def liveOut_def)
  then show "\<exists>t'. run env (snd (zeroTest_runOnMachineFunction False patched F) ! k) t = Some (c, t') \<and>
      (c = Return \<longrightarrow> cpu_upto True s' t') \<and>
      (\<forall>k'. goes (length F) k c = Some k' \<longrightarrow> zeroTestOk F \<and> cpu_upto True s' t')"
    using R k by (simp add: zeroTest_runOnMachineFunction_def)
qed

section \<open>Redundant tests of A\<close>

text \<open>The blocks, with the live-ins of each.\<close>

definition liveInsAfter :: "preg list list \<Rightarrow> mfunction \<Rightarrow> nat \<Rightarrow> preg list list" where
  "liveInsAfter lis F k = map ((!) lis) (leadsTo F k)"

definition elim_runOnMachineFunction ::
  "bool \<Rightarrow> (machine_instr \<Rightarrow> bool) \<Rightarrow> (machine_instr \<Rightarrow> bool) \<Rightarrow> preg list list \<Rightarrow> mfunction \<Rightarrow> bool \<times> mfunction" where
  "elim_runOnMachineFunction disabled patched label lis F =
    (if disabled then (False, F)
     else let blocks = map (\<lambda>k. elimBlock patched label (liveInsAfter lis F k) (F ! k)) [0..<length F]
          in (list_ex fst blocks, map snd blocks))"

text \<open>
  The conditions of the block theorem, and that a block that reads the carry before it sets it has the
  flags among its live-ins.
\<close>

definition elimOk :: "preg list list \<Rightarrow> mfunction \<Rightarrow> nat \<Rightarrow> bool" where
  "elimOk lis F k \<longleftrightarrow> (let ms = F ! k; succs = liveInsAfter lis F k in
     list_all noAC ms \<and> list_all flagShape ms \<and> noTriple ms \<and> carry_after succs ms \<and>
     (liveOut FLAGS [lis ! k] \<or> carry_dead succs ms))"

lemma elim_block:
  assumes ok: "elimOk lis F k" and R: "cpu_upto (liveOut FLAGS [lis ! k]) s t" and old: "run env (F ! k) s = Some (c, s')"
  shows "\<exists>t'. run env (snd (elimBlock patched label (liveInsAfter lis F k) (F ! k))) t = Some (c, t') \<and>
    cpu_upto (liveOut FLAGS (liveInsAfter lis F k)) s' t'"
proof -
  let ?ms = "enumerate 0 (F ! k)" and ?succs = "liveInsAfter lis F k"
  have "map snd ?ms = F ! k" by simp
  moreover have "noTriple (map snd ?ms)" using ok by (simp add: elimOk_def Let_def)
  ultimately have new: "snd (elimBlock patched label ?succs (F ! k)) =
      elimTests patched \<lparr>ZFlagValid = False, AValueRegs = {}, AValueSrc = Map.empty\<rparr> ?ms"
    using elimLoop_tests [of ?ms] by (simp add: elimBlock_def)
  have "rel_option (upto_exit ?succs) (run env (map snd ?ms) s)
      (run env (elimTests patched \<lparr>ZFlagValid = False, AValueRegs = {}, AValueSrc = Map.empty\<rparr> ?ms) t)"
    by (rule elimTests_run [OF R]) (use ok in \<open>simp_all add: elimOk_def Let_def\<close>)
  then show ?thesis unfolding new using old by (auto simp: option_rel_Some1 ends_alike_def)
qed

interpretation elimination: block_simulation env F "snd (elim_runOnMachineFunction False patched label lis F)"
    "\<lambda>k s t. (\<forall>k < length F. elimOk lis F k) \<and> cpu_upto (liveOut FLAGS [lis ! k]) s t" "cpu_upto False"
  for env F patched label lis
proof
  show "length (snd (elim_runOnMachineFunction False patched label lis F)) = length F"
    by (simp add: elim_runOnMachineFunction_def)
next
  fix k s t c s'
  assume k: "k < length F" and R: "(\<forall>k < length F. elimOk lis F k) \<and> cpu_upto (liveOut FLAGS [lis ! k]) s t"
    and old: "run env (F ! k) s = Some (c, s')"
  then obtain t' where new: "run env (snd (elimBlock patched label (liveInsAfter lis F k) (F ! k))) t = Some (c, t')"
    and t': "cpu_upto (liveOut FLAGS (liveInsAfter lis F k)) s' t'"
    using elim_block [of lis F k s t env c s' patched label] by blast
  have "cpu_upto (liveOut FLAGS [lis ! k']) s' t'" if "goes (length F) k c = Some k'" for k'
  proof (rule cpu_upto_mono [OF t'])
    have "k' \<in> set (leadsTo F k)" using leadsTo_run [OF old that] .
    then show "liveOut FLAGS [lis ! k'] \<Longrightarrow> liveOut FLAGS (liveInsAfter lis F k)"
      by (auto simp: liveOut_def liveInsAfter_def list_ex_iff)
  qed
  moreover have "cpu_upto False s' t'" by (rule cpu_upto_mono [OF t']) simp
  ultimately show "\<exists>t'. run env (snd (elim_runOnMachineFunction False patched label lis F) ! k) t = Some (c, t') \<and>
      (c = Return \<longrightarrow> cpu_upto False s' t') \<and>
      (\<forall>k'. goes (length F) k c = Some k' \<longrightarrow>
        (\<forall>k < length F. elimOk lis F k) \<and> cpu_upto (liveOut FLAGS [lis ! k']) s' t')"
    using R k new by (simp add: elim_runOnMachineFunction_def)
qed

text \<open>
  C20.  the zero-test pass (V6ClangZeroTestOpt.cpp) and after it the redundant-flag pass
  (V6ClangRedundantFlagElim.cpp) keep the meaning of a function, across its blocks and their loops: if a
  run of it returns, so does the run of the new function, with the same registers and memory, sign, zero and parity.
  The conditions leave the redundant-flag pass its first rewrite only, the removal of ORA A and ANA A: no XRA A stands
  directly before a CMP, as in the triple of the second.  Further, CMA, IN and COPY do not occur, the carry is
  dead after every ORA A and ANA A, nothing reads the auxiliary carry, every CPI has one value, and a block that
  reads the carry has the flags among its live-ins.
\<close>

theorem flag_passes_function_correct:
  assumes "zeroTestOk F" "list_all (elimOk lis (snd (zeroTest_runOnMachineFunction noZero patched F))) [0..<length F]"
    and "returns env F 0 s s'"
  shows "\<exists>t'. returns env (snd (elim_runOnMachineFunction noElim patched label lis (snd (zeroTest_runOnMachineFunction noZero patched F)))) 0 s t' \<and>
    cpu_upto False s' t'"
proof -
  let ?G = "snd (zeroTest_runOnMachineFunction noZero patched F)"
  have trans: "cpu_upto False x y \<Longrightarrow> cpu_upto False y z \<Longrightarrow> cpu_upto False x z" for x y z
    by (cases x; cases y; cases z) (auto simp: cpu_upto_def flags_upto_def)
  obtain u where u: "returns env ?G 0 s u" "cpu_upto False s' u"
  proof (cases noZero)
    case True
    then show thesis using that assms(3) by (simp add: zeroTest_runOnMachineFunction_def)
  next
    case False
    have "zeroTestOk F \<and> cpu_upto True s s" using assms(1) by simp
    then obtain u where "returns env (snd (zeroTest_runOnMachineFunction False patched F)) 0 s u" "cpu_upto True s' u"
      using zero.returns_sim [OF assms(3)] by blast
    then show thesis using that False cpu_upto_mono [of True s' u False] by simp
  qed
  have "length ?G = length F" by (simp add: zeroTest_runOnMachineFunction_def)
  then have "(\<forall>k < length ?G. elimOk lis ?G k) \<and> cpu_upto (liveOut FLAGS [lis ! 0]) s s"
    using assms(2) by (simp add: list_all_iff)
  from elimination.returns_sim [OF u(1) this, of patched label]
  obtain t' where "returns env (snd (elim_runOnMachineFunction noElim patched label lis ?G)) 0 s t'" "cpu_upto False u t'"
    using u by (cases noElim) (auto simp: elim_runOnMachineFunction_def)
  then show ?thesis using trans [OF u(2)] by blast
qed

text \<open>CPI 0 behind XRA A becomes ORA A, and that is redundant.\<close>

definition flagDemo :: mfunction where
  "flagDemo = [[ALU XRA A, BuildMI CPI [addReg A, addImm 0], BuildMI (Jcc COND_NZ) [addMBB 2]],
     [BuildMI RET []], [BuildMI RET []]]"

lemma flagDemo_zero: "snd (zeroTest_runOnMachineFunction False (\<lambda>_. False) flagDemo) =
    [[ALU XRA A, ORA_A, BuildMI (Jcc COND_NZ) [addMBB 2]], [BuildMI RET []], [BuildMI RET []]]"
  by code_simp

lemma flagDemo_elim: "snd (elim_runOnMachineFunction False (\<lambda>_. False) (\<lambda>_. False) [[], [], []]
    [[ALU XRA A, ORA_A, BuildMI (Jcc COND_NZ) [addMBB 2]], [BuildMI RET []], [BuildMI RET []]]) =
    [[ALU XRA A, BuildMI (Jcc COND_NZ) [addMBB 2]], [BuildMI RET []], [BuildMI RET []]]"
  by code_simp

theorem flag_passes_function_correct_witness:
  "\<forall>env s. \<exists>s' t'. returns env flagDemo 0 s s' \<and>
    returns env [[ALU XRA A, BuildMI (Jcc COND_NZ) [addMBB 2]], [BuildMI RET []], [BuildMI RET []]] 0 s t' \<and>
    cpu_upto False s' t'"
proof (intro allI)
  fix env s
  obtain u where 0: "run env (flagDemo ! 0) s = Some (Next, u)"
    by (simp add: flagDemo_def exec_simps aluA_def lo8_def alu_sub_def)
  obtain v where 1: "run env (flagDemo ! 1) u = Some (Return, v)" by (simp add: flagDemo_def exec_simps step_def)
  have "reaches env flagDemo 0 s 1 u"
    by (rule reaches.block [OF _ 0, of 1], simp add: flagDemo_def, simp add: flagDemo_def goes_def, rule reaches.here)
  moreover have "1 < length flagDemo" by (simp add: flagDemo_def)
  ultimately have r: "returns env flagDemo 0 s v" using 1 unfolding returns_def by blast
  have "zeroTestOk flagDemo"
    by (simp add: zeroTestOk_def flagDemo_def noAC_def cpiShape_def BuildMI_def ALU_def)
  moreover have "list_all (elimOk [[], [], []] (snd (zeroTest_runOnMachineFunction False (\<lambda>_. False) flagDemo))) [0..<length flagDemo]"
    unfolding flagDemo_zero by code_simp
  ultimately show "\<exists>s' t'. returns env flagDemo 0 s s' \<and>
      returns env [[ALU XRA A, BuildMI (Jcc COND_NZ) [addMBB 2]], [BuildMI RET []], [BuildMI RET []]] 0 s t' \<and>
      cpu_upto False s' t'"
    using flag_passes_function_correct [of flagDemo "[[], [], []]" False "\<lambda>_. False" env s v False "\<lambda>_. False"] r
    unfolding flagDemo_zero flagDemo_elim by blast
qed

end
