(* ===== verification/RegForward.thy ===== *)
theory RegForward
  imports LoadImmSound FuncSim
begin

text \<open>
  Register value forwarding (V6ClangRegValueForwarding.cpp).  A forward dataflow over the blocks of a
  function finds which registers hold the value of another register or a known immediate; moves and
  immediate loads that give a register what it holds already are erased.  The theorems: the states
  that the worklist has settled on hold along every run, and the new function returns what the old one did.
\<close>

section \<open>What a register is known to hold\<close>

datatype (plugins only: code size) ValState = Reg preg | Const int

type_synonym StateMap = "preg \<Rightarrow> ValState option"

definition getCanon :: "StateMap \<Rightarrow> preg \<Rightarrow> ValState" where
  "getCanon S R = (case S R of Some v \<Rightarrow> v | None \<Rightarrow> Reg R)"

fun refersTo :: "(preg \<Rightarrow> bool) \<Rightarrow> ValState \<Rightarrow> bool" where
  "refersTo P (Reg R) = P R" | "refersTo P (Const _) = False"

text \<open>Erases the entries of clobbered registers and those that refer to one.\<close>

definition eraseIf :: "(preg \<Rightarrow> bool) \<Rightarrow> StateMap \<Rightarrow> StateMap" where
  "eraseIf P S = (\<lambda>K. case S K of None \<Rightarrow> None | Some v \<Rightarrow> if P K \<or> refersTo P v then None else Some v)"

definition clobberReg :: "StateMap \<Rightarrow> preg \<Rightarrow> StateMap" where
  "clobberReg S R = eraseIf (\<lambda>q. regsOverlap q R) S"

definition clobberMask :: "StateMap \<Rightarrow> preg list \<Rightarrow> StateMap" where
  "clobberMask S keep = eraseIf (\<lambda>q. \<not> List.member keep q) S"

section \<open>Through an instruction, through a block\<close>

definition isValuePreservingAccOp :: "machine_instr \<Rightarrow> bool" where
  "isValuePreservingAccOp MI \<longleftrightarrow> (opcode MI = ORAr \<or> opcode MI = ANAr) \<and> opReg MI 2 = Some A"

definition maskOperand :: "machine_operand \<Rightarrow> StateMap \<Rightarrow> StateMap" where
  "maskOperand MO S = (case MO of MO_RegisterMask keep \<Rightarrow> clobberMask S keep | _ \<Rightarrow> S)"

definition defOperand :: "machine_operand \<Rightarrow> StateMap \<Rightarrow> StateMap" where
  "defOperand MO S = (case getReg MO of Some R \<Rightarrow> if isDef MO then clobberReg S R else S | None \<Rightarrow> S)"

definition clobberOperands :: "machine_instr \<Rightarrow> StateMap \<Rightarrow> StateMap" where
  "clobberOperands MI S =
    fold defOperand (filter isImplicit (operands MI)) (fold defOperand (operands MI) (fold maskOperand (operands MI) S))"

text \<open>
  The body of the loop over a block: the state after the instruction, and whether it is redundant.  A move
  of something that is not a register ends the compiler, here it leaves nothing known.
\<close>

definition transferInstr :: "(machine_instr \<Rightarrow> bool) \<Rightarrow> machine_instr \<Rightarrow> StateMap \<Rightarrow> StateMap \<times> bool" where
  "transferInstr patched MI S =
    (if isDebugInstr MI then (S, False)
     else if opcode MI = MOVrr then
       (case (opReg MI 0, opReg MI 1) of
          (Some Rd, Some Rs) \<Rightarrow>
            if getCanon S Rd = getCanon S Rs then (S, True)
            else ((clobberReg S Rd)(Rd \<mapsto> getCanon S Rs), False)
        | _ \<Rightarrow> (Map.empty, False))
     else if opcode MI = MVIr then
       (case opReg MI 0 of
          Some Rd \<Rightarrow> (case plainImm patched MI of
              None \<Rightarrow> (clobberReg S Rd, False)
            | Some Imm \<Rightarrow>
                if getCanon S Rd = Const Imm then (S, True)
                else ((clobberReg S Rd)(Rd \<mapsto> Const Imm), False))
        | None \<Rightarrow> (Map.empty, False))
     else if isValuePreservingAccOp MI then (S, False)
     else if opcode MI = INLINEASM then (Map.empty, False)
     else (clobberOperands MI S, False))"

text \<open>The state at the end, the instructions that are left if they are transformed, and whether any is not.\<close>

fun transfer :: "(machine_instr \<Rightarrow> bool) \<Rightarrow> StateMap \<Rightarrow> machine_instr list \<Rightarrow> StateMap \<times> machine_instr list \<times> bool" where
  "transfer patched S [] = (S, [], False)"
| "transfer patched S (MI # MIs) =
    (let (S, redundant) = transferInstr patched MI S; (Out, rest, Changed) = transfer patched S MIs
     in (Out, (if redundant then rest else MI # rest), redundant \<or> Changed))"

definition meetInto :: "StateMap \<Rightarrow> StateMap \<Rightarrow> StateMap" where
  "meetInto A' B' = (\<lambda>R. case A' R of None \<Rightarrow> None | Some v \<Rightarrow> if B' R = Some v then Some v else None)"

section \<open>The worklist\<close>

record fwd_block =
  fwdPreds :: "nat list"
  fwdSuccs :: "nat list"
  fwdInstrs :: "machine_instr list"

record fwd_states =
  InState :: "nat \<Rightarrow> StateMap"
  OutState :: "nat \<Rightarrow> StateMap"
  Computed :: "nat \<Rightarrow> bool"

definition noStates :: fwd_states where
  "noStates = \<lparr>InState = \<lambda>_. Map.empty, OutState = \<lambda>_. Map.empty, Computed = \<lambda>_. False\<rparr>"

text \<open>The meet over the predecessors computed so far.\<close>

fun meetPreds :: "fwd_states \<Rightarrow> bool \<Rightarrow> StateMap \<Rightarrow> nat list \<Rightarrow> StateMap" where
  "meetPreds st First In [] = In"
| "meetPreds st First In (P # Ps) =
    (if \<not> Computed st P then meetPreds st First In Ps
     else if First then meetPreds st False (OutState st P) Ps
     else meetPreds st False (meetInto In (OutState st P)) Ps)"

definition visit :: "(machine_instr \<Rightarrow> bool) \<Rightarrow> fwd_block list \<Rightarrow> nat \<Rightarrow> fwd_states \<Rightarrow> fwd_states \<times> bool" where
  "visit patched MF N st =
    (let In = meetPreds st True Map.empty (fwdPreds (MF ! N));
         Out = fst (transfer patched In (fwdInstrs (MF ! N)));
         OutChanged = (\<not> Computed st N \<or> Out \<noteq> OutState st N)
     in (\<lparr>InState = (InState st)(N := In), OutState = (OutState st)(N := Out), Computed = (Computed st)(N := True)\<rparr>,
         OutChanged))"

text \<open>What the worklist still holds when the budget is used up, and the states.\<close>

fun fwdLoop :: "(machine_instr \<Rightarrow> bool) \<Rightarrow> fwd_block list \<Rightarrow> nat \<Rightarrow> nat list \<Rightarrow> fwd_states \<Rightarrow> nat list \<times> fwd_states" where
  "fwdLoop patched MF Budget [] st = ([], st)"
| "fwdLoop patched MF 0 Worklist st = (Worklist, st)"
| "fwdLoop patched MF (Suc Budget) (MBB # Worklist) st =
    (let (st, OutChanged) = visit patched MF MBB st
     in fwdLoop patched MF Budget (if OutChanged then Worklist @ fwdSuccs (MF ! MBB) else Worklist) st)"

definition fwdBudget :: "fwd_block list \<Rightarrow> nat" where
  "fwdBudget MF = (length MF + 4) * 8 + 64"

text \<open>
  The reverse post-order \<open>RPOT\<close> of the blocks is LLVM's, and an argument.
\<close>

definition fwd_runOnMachineFunction ::
  "bool \<Rightarrow> (machine_instr \<Rightarrow> bool) \<Rightarrow> nat list \<Rightarrow> fwd_block list \<Rightarrow> bool \<times> fwd_block list" where
  "fwd_runOnMachineFunction disabled patched RPOT MF =
    (if disabled then (False, MF)
     else if MF = [] then (False, MF)
     else let st = snd (fwdLoop patched MF (fwdBudget MF) RPOT noStates);
              news = map (\<lambda>N. snd (transfer patched (InState st N) (fwdInstrs (MF ! N)))) [0..<length MF]
          in (list_ex snd news, map2 (\<lambda>MBB new. MBB\<lparr>fwdInstrs := fst new\<rparr>) MF news))"

section \<open>The state is right\<close>

fun valueOf :: "cpu \<Rightarrow> ValState \<Rightarrow> byte" where
  "valueOf s (Reg R) = r8 s R" | "valueOf s (Const i) = word_of_int i"

definition holds :: "StateMap \<Rightarrow> cpu \<Rightarrow> bool" where
  "holds S s \<longleftrightarrow> (\<forall>R v. S R = Some v \<longrightarrow> GR8 R \<and> \<not> refersTo (\<lambda>q. \<not> GR8 q) v \<and> r8 s R = valueOf s v)"

lemma holdsD:
  assumes "holds S s" "S R = Some v"
  shows "GR8 R" "\<not> refersTo (\<lambda>q. \<not> GR8 q) v" "r8 s R = valueOf s v"
  using assms unfolding holds_def by blast+

lemma holds_empty [simp]: "holds Map.empty s"
  by (simp add: holds_def)

lemma holds_mono: "holds S s \<Longrightarrow> S' \<subseteq>\<^sub>m S \<Longrightarrow> holds S' s"
  unfolding holds_def map_le_def by (metis domI)

lemma holds_canon: "holds S s \<Longrightarrow> valueOf s (getCanon S R) = r8 s R"
  by (cases "S R") (simp_all add: getCanon_def holdsD(3))

lemma canon_GR8: "holds S s \<Longrightarrow> GR8 R \<Longrightarrow> \<not> refersTo (\<lambda>q. \<not> GR8 q) (getCanon S R)"
  by (cases "S R") (simp_all add: getCanon_def holdsD(2))

lemma eraseIf_Some: "eraseIf P S K = Some v \<longleftrightarrow> S K = Some v \<and> \<not> P K \<and> \<not> refersTo P v"
  by (auto simp: eraseIf_def split: option.splits)

lemma eraseIf_le: "eraseIf P S \<subseteq>\<^sub>m S"
  unfolding map_le_def by (metis domD eraseIf_Some)

lemma eraseIf_eraseIf: "eraseIf P (eraseIf Q S) = eraseIf (\<lambda>r. Q r \<or> P r) S"
proof -
  have "refersTo (\<lambda>r. Q r \<or> P r) v \<longleftrightarrow> refersTo Q v \<or> refersTo P v" for v by (cases v) simp_all
  then show ?thesis by (auto simp: eraseIf_def fun_eq_iff split: option.splits)
qed

lemma eraseIf_none: "eraseIf (\<lambda>_. False) S = S"
proof -
  have "\<not> refersTo (\<lambda>_. False) v" for v by (cases v) simp_all
  then show ?thesis by (auto simp: eraseIf_def fun_eq_iff split: option.splits)
qed

lemma holds_eraseIf:
  assumes "holds S s" "\<And>r. GR8 r \<Longrightarrow> \<not> P r \<Longrightarrow> r8 t r = r8 s r"
  shows "holds (eraseIf P S) t"
  unfolding holds_def
proof (intro allI impI)
  fix R v
  assume "eraseIf P S R = Some v"
  then have v: "S R = Some v" "\<not> P R" "\<not> refersTo P v" by (simp_all add: eraseIf_Some)
  have "valueOf t v = valueOf s v" using assms(2) v(3) holdsD(2) [OF assms(1) v(1)] by (cases v) simp_all
  then show "GR8 R \<and> \<not> refersTo (\<lambda>q. \<not> GR8 q) v \<and> r8 t R = valueOf t v"
    using holdsD [OF assms(1) v(1)] assms(2) v(2) by simp
qed

lemma clobber_setR: "holds S s \<Longrightarrow> GR8 R \<Longrightarrow> holds (clobberReg S R) (setR R w s)"
  unfolding clobberReg_def by (rule holds_eraseIf) (auto simp: setR_def simp del: regsOverlap_code)

lemma holds_assign:
  assumes "holds S s" "GR8 R" "\<not> refersTo (\<lambda>q. \<not> GR8 q) v"
  shows "holds ((clobberReg S R)(R \<mapsto> v)) (setR R (valueOf s v) s)"
proof -
  let ?t = "setR R (valueOf s v) s"
  have v: "valueOf ?t v = valueOf s v" by (cases v) (simp_all add: setR_def)
  show ?thesis
    unfolding holds_def
  proof (intro allI impI)
    fix Q w
    assume Q: "((clobberReg S R)(R \<mapsto> v)) Q = Some w"
    show "GR8 Q \<and> \<not> refersTo (\<lambda>q. \<not> GR8 q) w \<and> r8 ?t Q = valueOf ?t w"
    proof (cases "Q = R")
      case True
      then show ?thesis using Q v assms(2,3) by (simp add: setR_def)
    next
      case False
      then have "clobberReg S R Q = Some w" using Q by simp
      then show ?thesis by (intro conjI holdsD [OF clobber_setR [OF assms(1,2)]])
    qed
  qed
qed

lemma fold_defOperand:
  "fold defOperand xs S = eraseIf (\<lambda>r. \<exists>x \<in> set xs. isDef x \<and> (\<exists>q. getReg x = Some q \<and> regsOverlap r q)) S"
proof (induction xs arbitrary: S)
  case (Cons x xs)
  have "defOperand x S = eraseIf (\<lambda>r. isDef x \<and> (\<exists>q. getReg x = Some q \<and> regsOverlap r q)) S"
    by (auto simp: defOperand_def clobberReg_def eraseIf_none simp del: regsOverlap_code split: option.splits)
  then show ?case by (simp add: Cons.IH eraseIf_eraseIf del: regsOverlap_code)
qed (simp add: eraseIf_none)

lemma fold_maskOperand: "fold maskOperand xs S \<subseteq>\<^sub>m S"
proof (rule fold_le)
  show "maskOperand x S \<subseteq>\<^sub>m S" for x S
    by (cases x) (simp_all add: maskOperand_def clobberMask_def eraseIf_le)
qed

lemma clobberOperands_le: "clobberOperands m S \<subseteq>\<^sub>m S"
  unfolding clobberOperands_def fold_defOperand
  by (rule map_le_trans [OF eraseIf_le map_le_trans [OF eraseIf_le fold_maskOperand]])

lemma overlap_sym: "regsOverlap q r = regsOverlap r q"
  by (auto simp: regsOverlap_def list_ex_iff)

lemma clobberOperands_sound:
  assumes "holds S s" "exec env m s = Some (c, t)" "wf_instr m"
  shows "holds (clobberOperands m S) t"
proof -
  let ?P = "\<lambda>xs r. \<exists>x \<in> set xs. isDef x \<and> (\<exists>q. getReg x = Some q \<and> regsOverlap r q)"
  have "defsReg r m \<Longrightarrow> ?P (operands m) r" for r
    by (auto simp: defsReg_def list_ex_iff overlap_sym [of r] simp del: regsOverlap_code split: option.splits)
  then have keeps: "GR8 r \<Longrightarrow> \<not> ?P (operands m) r \<Longrightarrow> r8 t r = r8 s r" for r
    using exec_keeps_reg [OF assms(3) _ _ assms(2), of r] by blast
  have "holds (eraseIf (?P (operands m)) (fold maskOperand (operands m) S)) t"
    by (rule holds_eraseIf [OF holds_mono [OF assms(1) fold_maskOperand]]) (rule keeps)
  then show ?thesis unfolding clobberOperands_def fold_defOperand by (rule holds_mono) (rule eraseIf_le)
qed

text \<open>
  The instructions of a block: well formed, debug values, inline assembly, or pseudos that are not expanded.
\<close>

definition fwdShape :: "machine_instr \<Rightarrow> bool" where
  "fwdShape m \<longleftrightarrow> wf_instr m \<and> immShape m \<or> isDebugInstr m \<or> opcode m = INLINEASM \<or>
    (case opcode m of PSEUDO _ \<Rightarrow> True | _ \<Rightarrow> False)"

lemma isMove:
  assumes "wf_instr m" "immShape m" "opcode m = MOVrr" "exec env m s = Some (c, t)"
  obtains d r where "opReg m 0 = Some d" "opReg m 1 = Some r" "GR8 d" "GR8 r" "c = Next" "t = setR d (r8 s r) s"
proof -
  obtain d r where dr: "ex_regs (operands m) = [d, r]" "c = Next" "t = setR d (r8 s r) s"
    using assms(3,4) by (auto simp: exec_def step_def split: list.splits)
  moreover have "opReg m 0 = Some d" "opReg m 1 = Some r"
    using immShape_op [OF assms(2), of 0] immShape_op [OF assms(2), of 1] dr(1) by simp_all
  moreover have "list_all2 (\<lambda>c x. c x) (the (reg_classes (opcode m))) (ex_regs (operands m))"
    using assms(1) by (rule wf_instrE)
  ultimately show thesis using that assms(3) by simp
qed

lemma isMVI:
  assumes "wf_instr m" "immShape m" "opcode m = MVIr" "exec env m s = Some (c, t)"
  obtains d v where "opReg m 0 = Some d" "GR8 d" "ex_vals env (operands m) = [v]" "c = Next" "t = setR d (lo8 v) s"
proof -
  obtain d v where d: "ex_regs (operands m) = [d]" "ex_vals env (operands m) = [v]" "c = Next" "t = setR d (lo8 v) s"
    using assms(3,4) by (auto simp: exec_def step_def split: list.splits)
  moreover have "opReg m 0 = Some d" using immShape_op [OF assms(2), of 0] d(1) by simp
  moreover have "list_all2 (\<lambda>c x. c x) (the (reg_classes (opcode m))) (ex_regs (operands m))"
    using assms(1) by (rule wf_instrE)
  ultimately show thesis using that assms(3) by simp
qed

lemma accOp_keeps:
  assumes "wf_instr m" "immShape m" "isValuePreservingAccOp m" "exec env m s = Some (c, t)"
  shows "r8 t = r8 s"
proof -
  obtain op where op: "opcode m = ALUr op" "op = ORA \<or> op = ANA" "opReg m 2 = Some A"
    using assms(3) by (auto simp: isValuePreservingAccOp_def)
  then obtain q p r where r: "ex_regs (operands m) = [q, p, r]" "t = aluA op (r8 s r) s"
    using assms(4) by (auto simp: exec_def step_def split: list.splits)
  then have "r = A" using immShape_op [OF assms(2), of 2] op(3) by simp
  then show ?thesis using r(2) op(2) by (auto simp: aluA_def Let_def)
qed

text \<open>
  What is known stays right through an instruction, and a redundant one changes nothing.
\<close>

lemma transferInstr_sound:
  assumes "holds S s" "exec env m s = Some (c, t)" "fwdShape m"
  shows "holds (fst (transferInstr patched m S)) t \<and> (snd (transferInstr patched m S) \<longrightarrow> c = Next \<and> t = s)"
proof (cases "wf_instr m \<and> immShape m \<and> \<not> isDebugInstr m")
  case False
  then consider "isDebugInstr m" | "opcode m = INLINEASM" | p where "opcode m = PSEUDO p"
    using assms(3) by (auto simp: fwdShape_def split: opcode.splits)
  then show ?thesis
  proof cases
    case 1
    then show ?thesis using assms(1,2) by (simp add: isDebugInstr_def transferInstr_def exec_def step_def)
  next
    case 2
    then show ?thesis using assms(2) by (simp add: exec_def step_def)
  next
    case 3
    then have "t = s" using assms(2) by (auto simp: exec_def step_def split: if_splits)
    then show ?thesis
      using 3 holds_mono [OF assms(1) clobberOperands_le]
      by (simp add: transferInstr_def isDebugInstr_def isValuePreservingAccOp_def)
  qed
next
  case True
  then have wf: "wf_instr m" "immShape m" "\<not> isDebugInstr m" by simp_all
  note lift = transferInstr_def wf(3)
  consider "opcode m = MOVrr" | "opcode m = MVIr" | "opcode m \<noteq> MOVrr" "opcode m \<noteq> MVIr" by blast
  then show ?thesis
  proof cases
    case 1
    obtain d r where m: "opReg m 0 = Some d" "opReg m 1 = Some r" "GR8 d" "GR8 r" "c = Next" "t = setR d (r8 s r) s"
      by (rule isMove [OF wf(1,2) 1 assms(2)])
    have same: "t = s" if "getCanon S d = getCanon S r"
    proof -
      have "r8 s d = r8 s r" using holds_canon [OF assms(1), of d] holds_canon [OF assms(1), of r] that by simp
      then show ?thesis using m(6) by (simp add: setR_def fun_upd_idem)
    qed
    have "holds ((clobberReg S d)(d \<mapsto> getCanon S r)) t"
      using holds_assign [OF assms(1) m(3) canon_GR8 [OF assms(1) m(4)]] holds_canon [OF assms(1)] m(6) by simp
    then show ?thesis using same m(1,2,5) 1 assms(1) by (simp add: lift)
  next
    case 2
    obtain d v where m: "opReg m 0 = Some d" "GR8 d" "ex_vals env (operands m) = [v]" "c = Next" "t = setR d (lo8 v) s"
      by (rule isMVI [OF wf(1,2) 2 assms(2)])
    show ?thesis
    proof (cases "plainImm patched m")
      case None
      then show ?thesis using clobber_setR [OF assms(1) m(2)] m(1,5) 2 by (simp add: lift)
    next
      case (Some i)
      have v: "lo8 v = valueOf s (Const i)"
        using plainImm_value [OF wf(2) _ Some, of env] 2 m(3) by (simp add: lo8_word_of_int)
      have same: "t = s" if "getCanon S d = Const i"
        using holds_canon [OF assms(1), of d] that m(5) v by (simp add: setR_def fun_upd_idem)
      have "holds ((clobberReg S d)(d \<mapsto> Const i)) t"
        using holds_assign [OF assms(1) m(2), of "Const i"] m(5) v by simp
      then show ?thesis using same Some m(1,4) 2 assms(1) by (simp add: lift)
    qed
  next
    case 3
    show ?thesis
    proof (cases "isValuePreservingAccOp m")
      case True
      then have "holds (eraseIf (\<lambda>_. False) S) t"
        using accOp_keeps [OF wf(1,2) _ assms(2)] by (intro holds_eraseIf [OF assms(1)]) simp
      then show ?thesis using 3 True by (simp add: lift eraseIf_none)
    next
      case False
      then show ?thesis using 3 clobberOperands_sound [OF assms(1,2) wf(1)] by (simp add: lift)
    qed
  qed
qed

section \<open>Blocks\<close>

lemma transfer_simps:
  "fst (transfer patched S (m # ms)) = fst (transfer patched (fst (transferInstr patched m S)) ms)"
  "fst (snd (transfer patched S (m # ms))) =
    (if snd (transferInstr patched m S) then [] else [m]) @ fst (snd (transfer patched (fst (transferInstr patched m S)) ms))"
  by (simp_all add: Let_def split_beta)

lemma transfer_le: "list_all isTerminator ms \<Longrightarrow> fst (transfer patched S ms) \<subseteq>\<^sub>m S"
proof (induction ms arbitrary: S)
  case (Cons m ms)
  have "opcode m \<noteq> DBG_VALUE \<and> opcode m \<noteq> MOVrr \<and> opcode m \<noteq> MVIr \<and> opcode m \<noteq> ORAr \<and> opcode m \<noteq> ANAr \<and>
      opcode m \<noteq> INLINEASM"
    using Cons.prems by (auto simp: isTerminator_def)
  then have "fst (transferInstr patched m S) \<subseteq>\<^sub>m S"
    by (simp add: transferInstr_def isDebugInstr_def isValuePreservingAccOp_def clobberOperands_le)
  with map_le_trans [OF Cons.IH] Cons.prems show ?case unfolding transfer_simps by simp
qed simp

text \<open>The block that is left runs as before, and what is known at its end is right wherever it is left.\<close>

lemma transfer_run:
  assumes "holds S s" "list_all fwdShape ms" "final_last isTerminator ms" "run env ms s = Some (c, t)"
  shows "run env (fst (snd (transfer patched S ms))) s = Some (c, t) \<and> holds (fst (transfer patched S ms)) t"
  using assms
proof (induction ms arbitrary: S s)
  case (Cons m ms)
  let ?S = "fst (transferInstr patched m S)"
  obtain c' u where ex: "exec env m s = Some (c', u)" using Cons.prems(4) by (auto split: option.splits)
  then have u: "holds ?S u" "snd (transferInstr patched m S) \<Longrightarrow> c' = Next \<and> u = s"
    using transferInstr_sound [OF Cons.prems(1) ex, of patched] Cons.prems(2) by simp_all
  show ?case
  proof (cases "c' = Next")
    case True
    then have "run env (fst (snd (transfer patched ?S ms))) u = Some (c, t) \<and> holds (fst (transfer patched ?S ms)) t"
      using Cons.IH [OF u(1)] Cons.prems ex by simp
    then show ?thesis using u(2) ex True unfolding transfer_simps by (cases "snd (transferInstr patched m S)") simp_all
  next
    case False
    then have "list_all isTerminator ms" using exec_leaves [OF ex] Cons.prems(3) by (blast intro: final_last_tail)
    then have "holds (fst (transfer patched ?S ms)) u" using holds_mono [OF u(1) transfer_le] by blast
    then show ?thesis using False u(2) ex Cons.prems(4) unfolding transfer_simps by auto
  qed
qed simp

section \<open>The states of the blocks\<close>

lemma meetInto_le: "meetInto S T \<subseteq>\<^sub>m S" "meetInto S T \<subseteq>\<^sub>m T"
  by (auto simp: meetInto_def map_le_def split: option.splits if_splits)

lemma meetPreds_le_In: "meetPreds st False In Ps \<subseteq>\<^sub>m In"
proof (induction Ps arbitrary: In)
  case (Cons P Ps)
  then show ?case using map_le_trans [OF Cons.IH meetInto_le(1)] by simp
qed simp

lemma meetPreds_le: "P \<in> set Ps \<Longrightarrow> Computed st P \<Longrightarrow> meetPreds st First In Ps \<subseteq>\<^sub>m OutState st P"
proof (induction Ps arbitrary: First In)
  case (Cons Q Ps)
  then show ?case using meetPreds_le_In map_le_trans [OF meetPreds_le_In meetInto_le(2)] by auto
qed simp

text \<open>
  Every edge out of a computed block is settled, or the block it leads to is still in the worklist.
\<close>

definition cfgOk :: "fwd_block list \<Rightarrow> bool" where
  "cfgOk MF \<longleftrightarrow> list_all (\<lambda>k. list_all (\<lambda>k'. k' < length MF \<and> List.member (fwdPreds (MF ! k')) k) (fwdSuccs (MF ! k)))
      [0..<length MF] \<and> (MF \<noteq> [] \<longrightarrow> fwdPreds (MF ! 0) = [])"

lemma cfgOkD:
  assumes "cfgOk MF" "k < length MF"
  shows "k' \<in> set (fwdSuccs (MF ! k)) \<Longrightarrow> k' < length MF \<and> k \<in> set (fwdPreds (MF ! k'))" "fwdPreds (MF ! 0) = []"
  using assms by (auto simp: cfgOk_def list_all_iff)

definition settled :: "(machine_instr \<Rightarrow> bool) \<Rightarrow> fwd_block list \<Rightarrow> nat list \<Rightarrow> fwd_states \<Rightarrow> bool" where
  "settled patched MF wl st \<longleftrightarrow> (\<forall>k \<in> set wl. k < length MF) \<and> (0 \<in> set wl \<or> Computed st 0) \<and> InState st 0 = Map.empty \<and>
    (\<forall>k. Computed st k \<longrightarrow> k < length MF \<and>
      OutState st k = fst (transfer patched (InState st k) (fwdInstrs (MF ! k))) \<and>
      (\<forall>k' \<in> set (fwdSuccs (MF ! k)). k' \<in> set wl \<or> Computed st k' \<and> InState st k' \<subseteq>\<^sub>m OutState st k))"

lemma settledD:
  assumes "settled patched MF wl st"
  shows "k \<in> set wl \<Longrightarrow> k < length MF" "0 \<in> set wl \<or> Computed st 0" "InState st 0 = Map.empty"
    and "Computed st k \<Longrightarrow> k < length MF"
    and "Computed st k \<Longrightarrow> OutState st k = fst (transfer patched (InState st k) (fwdInstrs (MF ! k)))"
    and "Computed st k \<Longrightarrow> k' \<in> set (fwdSuccs (MF ! k)) \<Longrightarrow>
      k' \<in> set wl \<or> Computed st k' \<and> InState st k' \<subseteq>\<^sub>m OutState st k"
  using assms unfolding settled_def by blast+

lemma settled_visit:
  assumes "settled patched MF (N # wl) st" "cfgOk MF" "visit patched MF N st = (st', changed)"
  shows "settled patched MF (if changed then wl @ fwdSuccs (MF ! N) else wl) st'"
proof -
  let ?In = "meetPreds st True Map.empty (fwdPreds (MF ! N))"
  let ?Out = "fst (transfer patched ?In (fwdInstrs (MF ! N)))"
  let ?wl = "if changed then wl @ fwdSuccs (MF ! N) else wl"
  note old = settledD [OF assms(1)]
  have st': "InState st' = (InState st)(N := ?In)" "OutState st' = (OutState st)(N := ?Out)"
      "Computed st' = (Computed st)(N := True)" and changed: "changed \<longleftrightarrow> \<not> Computed st N \<or> ?Out \<noteq> OutState st N"
    using assms(3) by (auto simp: visit_def Let_def)
  have N: "N < length MF" using old(1) by simp
  have edge: "k' \<in> set ?wl \<or> Computed st' k' \<and> InState st' k' \<subseteq>\<^sub>m OutState st' k"
    if k: "Computed st' k" "k' \<in> set (fwdSuccs (MF ! k))" for k k'
  proof (cases "changed \<and> k = N")
    case True
    then show ?thesis using k(2) by simp
  next
    case False
    then have was: "Computed st k" "OutState st' k = OutState st k" using k(1) st' changed by (auto split: if_splits)
    show ?thesis
    proof (cases "k' = N")
      case True
      have "k \<in> set (fwdPreds (MF ! N))" using cfgOkD(1) [OF assms(2) old(4) [OF was(1)] k(2)] True by simp
      then have "?In \<subseteq>\<^sub>m OutState st k" using was(1) by (rule meetPreds_le)
      then show ?thesis using True st'(1,3) was(2) by simp
    next
      case False
      then show ?thesis using old(6) [OF was(1) k(2)] was(2) st'(1,3) by auto
    qed
  qed
  have "InState st' 0 = Map.empty" using st'(1) old(3) cfgOkD(2) [OF assms(2) N] by simp
  moreover have "0 \<in> set ?wl \<or> Computed st' 0" using old(2) st'(3) by auto
  moreover have "\<forall>k \<in> set ?wl. k < length MF" using old(1) cfgOkD(1) [OF assms(2) N] by auto
  moreover have "OutState st' k = fst (transfer patched (InState st' k) (fwdInstrs (MF ! k)))" "k < length MF"
    if "Computed st' k" for k
    using that old(4,5) st' N by (cases "k = N"; simp)+
  ultimately show ?thesis using edge unfolding settled_def by blast
qed

lemma settled_fwdLoop:
  "settled patched MF wl st \<Longrightarrow> cfgOk MF \<Longrightarrow> fwdLoop patched MF n wl st = (wl', st') \<Longrightarrow> settled patched MF wl' st'"
proof (induction patched MF n wl st rule: fwdLoop.induct)
  case (3 patched MF n N wl st)
  obtain st1 changed where v: "visit patched MF N st = (st1, changed)" by (cases "visit patched MF N st")
  have "settled patched MF (if changed then wl @ fwdSuccs (MF ! N) else wl) st1" by (rule settled_visit [OF 3(2,3) v])
  then show ?case using 3(1) [OF v [symmetric] refl] 3(3,4) v by simp
qed simp_all

text \<open>
  When the worklist has drained: the state of the entry is empty, that of every other block is no more
  than what all its predecessors leave.
\<close>

lemma fwd_solution:
  assumes "cfgOk MF" "0 \<in> set RPOT" "list_all (\<lambda>N. N < length MF) RPOT" "fwdLoop patched MF n RPOT noStates = ([], st)"
  shows "Computed st 0" "InState st 0 = Map.empty"
    and "Computed st k \<Longrightarrow> k' \<in> set (fwdSuccs (MF ! k)) \<Longrightarrow>
      Computed st k' \<and> InState st k' \<subseteq>\<^sub>m fst (transfer patched (InState st k) (fwdInstrs (MF ! k)))"
proof -
  have "settled patched MF RPOT noStates" using assms(2,3) by (simp add: settled_def noStates_def list_all_iff)
  then have *: "settled patched MF [] st" using assms(1,4) by (rule settled_fwdLoop)
  show "Computed st 0" "InState st 0 = Map.empty" using settledD(2,3) [OF *] by simp_all
  show "Computed st k \<Longrightarrow> k' \<in> set (fwdSuccs (MF ! k)) \<Longrightarrow>
      Computed st k' \<and> InState st k' \<subseteq>\<^sub>m fst (transfer patched (InState st k) (fwdInstrs (MF ! k)))"
    using settledD(5,6) [OF *] by simp
qed

section \<open>The function\<close>

text \<open>The lists of successors name every block that a block can go to.\<close>

definition fwdOk :: "fwd_block list \<Rightarrow> bool" where
  "fwdOk MF \<longleftrightarrow> cfgOk MF \<and> list_all (\<lambda>k. let ms = fwdInstrs (MF ! k) in
     list_all fwdShape ms \<and> final_last isTerminator ms \<and>
     list_all (List.member (fwdSuccs (MF ! k))) (leadsTo (map fwdInstrs MF) k)) [0..<length MF]"

lemma fwdOkD:
  assumes "fwdOk MF" "k < length MF"
  shows "list_all fwdShape (fwdInstrs (MF ! k))" "final_last isTerminator (fwdInstrs (MF ! k))"
    and "k' \<in> set (leadsTo (map fwdInstrs MF) k) \<Longrightarrow> k' \<in> set (fwdSuccs (MF ! k))"
  using assms by (auto simp: fwdOk_def list_all_iff Let_def)

text \<open>The function with every block transformed from its state.\<close>

definition forwarded :: "(machine_instr \<Rightarrow> bool) \<Rightarrow> fwd_states \<Rightarrow> fwd_block list \<Rightarrow> mfunction" where
  "forwarded patched st MF = map (\<lambda>k. fst (snd (transfer patched (InState st k) (fwdInstrs (MF ! k))))) [0..<length MF]"

lemma runOn_forwarded:
  "map fwdInstrs (snd (fwd_runOnMachineFunction False patched RPOT MF)) =
    forwarded patched (snd (fwdLoop patched MF (fwdBudget MF) RPOT noStates)) MF"
  by (cases "MF = []") (auto intro!: nth_equalityI simp: fwd_runOnMachineFunction_def forwarded_def Let_def)

definition fwdRel :: "fwd_block list \<Rightarrow> nat list \<Rightarrow> (machine_instr \<Rightarrow> bool) \<Rightarrow> fwd_states \<Rightarrow> nat \<Rightarrow> cpu \<Rightarrow> cpu \<Rightarrow> bool" where
  "fwdRel MF RPOT patched st k s t \<longleftrightarrow> t = s \<and> fwdOk MF \<and> 0 \<in> set RPOT \<and> list_all (\<lambda>N. N < length MF) RPOT \<and>
    fwdLoop patched MF (fwdBudget MF) RPOT noStates = ([], st) \<and> Computed st k \<and> holds (InState st k) s"

interpretation forwarding: block_simulation env "map fwdInstrs MF" "forwarded patched st MF" "fwdRel MF RPOT patched st" "(=)"
  for env MF patched st RPOT
proof
  show "length (forwarded patched st MF) = length (map fwdInstrs MF)" by (simp add: forwarded_def)
next
  fix k s t c s'
  assume k: "k < length (map fwdInstrs MF)" and R: "fwdRel MF RPOT patched st k s t"
    and old: "run env (map fwdInstrs MF ! k) s = Some (c, s')"
  have ok: "fwdOk MF" "cfgOk MF" using R by (simp_all add: fwdRel_def fwdOk_def)
  have drained: "0 \<in> set RPOT" "list_all (\<lambda>N. N < length MF) RPOT" "fwdLoop patched MF (fwdBudget MF) RPOT noStates = ([], st)"
    and here: "t = s" "Computed st k" "holds (InState st k) s"
    using R by (simp_all add: fwdRel_def)
  have ms: "run env (fwdInstrs (MF ! k)) s = Some (c, s')" using old k by simp
  have "run env (fst (snd (transfer patched (InState st k) (fwdInstrs (MF ! k))))) s = Some (c, s')"
    and out: "holds (fst (transfer patched (InState st k) (fwdInstrs (MF ! k)))) s'"
    using transfer_run [OF here(3) fwdOkD(1,2) [OF ok(1)] ms] k by simp_all
  then have new: "run env (forwarded patched st MF ! k) t = Some (c, s')" using k here(1) by (simp add: forwarded_def)
  have "fwdRel MF RPOT patched st k' s' s'" if "goes (length (map fwdInstrs MF)) k c = Some k'" for k'
  proof -
    have "k' \<in> set (fwdSuccs (MF ! k))"
      using leadsTo_run [OF old] that fwdOkD(3) [OF ok(1)] k by simp
    then have "Computed st k'" "InState st k' \<subseteq>\<^sub>m fst (transfer patched (InState st k) (fwdInstrs (MF ! k)))"
      using fwd_solution(3) [OF ok(2) drained here(2)] by blast+
    then show ?thesis using ok(1) drained holds_mono [OF out] by (simp add: fwdRel_def)
  qed
  then show "\<exists>t'. run env (forwarded patched st MF ! k) t = Some (c, t') \<and> (c = Return \<longrightarrow> s' = t') \<and>
      (\<forall>k'. goes (length (map fwdInstrs MF)) k c = Some k' \<longrightarrow> fwdRel MF RPOT patched st k' s' t')"
    using new by blast
qed

section \<open>The function as it runs\<close>

definition fwdRunsAs :: "(machine_instr \<Rightarrow> bool) \<Rightarrow> fwd_block list \<Rightarrow> fwd_block list \<Rightarrow> bool" where
  "fwdRunsAs patched = list_all2 (\<lambda>b b'. fwdPreds b' = fwdPreds b \<and> fwdSuccs b' = fwdSuccs b \<and>
     codeRunsAs patched (fwdInstrs b) (fwdInstrs b'))"

lemma fold_update: "f x = id \<Longrightarrow> f (xs ! i) = id \<Longrightarrow> fold f (xs[i := x]) = fold f xs"
proof (induction xs arbitrary: i)
  case (Cons y xs)
  then show ?case by (cases i) simp_all
qed simp

lemma runsAs_clobberOperands:
  assumes "runsAs patched m m'"
  shows "clobberOperands m' = clobberOperands m"
proof (cases "m' = m")
  case False
  then obtain i j where x: "operands m ! 1 = MO_Immediate i" "operands m' = (operands m)[1 := MO_Immediate j]"
    using assms by (auto simp: runsAs_def opImm_def split: if_splits elim!: getImm.elims)
  have "maskOperand (MO_Immediate l) = id" "defOperand (MO_Immediate l) = id" for l
    by (simp_all add: maskOperand_def defOperand_def fun_eq_iff)
  then have "fold maskOperand (operands m') = fold maskOperand (operands m)" "fold defOperand (operands m') = fold defOperand (operands m)"
    using x by (simp_all only: fold_update)
  moreover have "filter isImplicit (operands m') = filter isImplicit (operands m)"
    unfolding x(2) by (rule filter_update) (simp_all add: x(1) del: One_nat_def)
  ultimately show ?thesis by (intro ext) (simp only: clobberOperands_def)
qed simp

lemma runsAs_transferInstr:
  assumes "runsAs patched m m'"
  shows "transferInstr patched m' = transferInstr patched m"
proof -
  note same = runsAs_same [OF assms]
  have "isValuePreservingAccOp m' = isValuePreservingAccOp m" "isDebugInstr m' = isDebugInstr m"
    by (simp_all only: isValuePreservingAccOp_def isDebugInstr_def same)
  then show ?thesis
    by (intro ext) (simp only: transferInstr_def same runsAs_clobberOperands [OF assms])
qed

lemma runsAs_transfer:
  "codeRunsAs patched ms ms' \<Longrightarrow> fst (transfer patched S ms') = fst (transfer patched S ms) \<and>
    codeRunsAs patched (fst (snd (transfer patched S ms))) (fst (snd (transfer patched S ms')))"
proof (induction ms ms' arbitrary: S rule: list_all2_induct)
  case (Cons m ms m' ms')
  then show ?case unfolding transfer_simps by (simp add: runsAs_transferInstr)
qed simp

lemma fwdRunsAsD:
  assumes "fwdRunsAs patched MF MF'"
  shows "length MF' = length MF"
    and "k < length MF \<Longrightarrow> fwdPreds (MF' ! k) = fwdPreds (MF ! k) \<and> fwdSuccs (MF' ! k) = fwdSuccs (MF ! k) \<and>
      codeRunsAs patched (fwdInstrs (MF ! k)) (fwdInstrs (MF' ! k))"
  using assms by (simp_all add: fwdRunsAs_def list_all2_conv_all_nth)

lemma runsAs_fwdLoop:
  assumes "fwdRunsAs patched MF MF'" "cfgOk MF"
  shows "\<forall>k \<in> set wl. k < length MF \<Longrightarrow> fwdLoop patched MF' n wl st = fwdLoop patched MF n wl st"
proof (induction n arbitrary: wl st)
  case 0
  then show ?case by (cases wl) simp_all
next
  case (Suc n)
  show ?case
  proof (cases wl)
    case (Cons N wl')
    then have N: "N < length MF" using Suc.prems by simp
    note at = fwdRunsAsD(2) [OF assms(1) N]
    then have "fst (transfer patched S (fwdInstrs (MF' ! N))) = fst (transfer patched S (fwdInstrs (MF ! N)))" for S
      using runsAs_transfer by blast
    then have "visit patched MF' N st = visit patched MF N st" using at by (simp only: visit_def Let_def)
    moreover have "\<forall>k \<in> set (wl' @ fwdSuccs (MF ! N)). k < length MF" "\<forall>k \<in> set wl'. k < length MF"
      using Suc.prems Cons cfgOkD(1) [OF assms(2) N] by auto
    ultimately show ?thesis using Suc.IH Cons at by (auto split: prod.split)
  qed simp
qed

lemma fwdRunsAs_cfgOk:
  assumes "fwdRunsAs patched MF MF'" "cfgOk MF'"
  shows "cfgOk MF"
proof -
  note len = fwdRunsAsD(1) [OF assms(1)] and at = fwdRunsAsD(2) [OF assms(1)]
  have "k' < length MF \<and> k \<in> set (fwdPreds (MF ! k'))" if k: "k < length MF" "k' \<in> set (fwdSuccs (MF ! k))" for k k'
  proof -
    have "k < length MF'" "k' \<in> set (fwdSuccs (MF' ! k))" using k at [OF k(1)] len by simp_all
    from cfgOkD(1) [OF assms(2) this] show ?thesis using at [of k'] len by simp
  qed
  moreover have "fwdPreds (MF ! 0) = []" if "MF \<noteq> []"
    using that cfgOkD(2) [OF assms(2), of 0] at [of 0] len by simp
  ultimately show ?thesis by (simp add: cfgOk_def list_all_iff)
qed

lemma fwdRunsAs_runOn:
  assumes "fwdRunsAs patched MF MF'" "cfgOk MF" "list_all (\<lambda>N. N < length MF) RPOT"
  shows "fwdRunsAs patched (snd (fwd_runOnMachineFunction disabled patched RPOT MF)) (snd (fwd_runOnMachineFunction disabled patched RPOT MF'))"
proof -
  note len = fwdRunsAsD(1) [OF assms(1)]
  have "fwdLoop patched MF' (fwdBudget MF') RPOT noStates = fwdLoop patched MF (fwdBudget MF) RPOT noStates"
    unfolding fwdBudget_def len by (rule runsAs_fwdLoop [OF assms(1,2)]) (use assms(3) in \<open>simp add: list_all_iff\<close>)
  then have st: "snd (fwdLoop patched MF' (fwdBudget MF') RPOT noStates) = snd (fwdLoop patched MF (fwdBudget MF) RPOT noStates)"
    by simp
  show ?thesis
  proof (cases "disabled \<or> MF = []")
    case True
    then show ?thesis using assms(1) len by (auto simp: fwd_runOnMachineFunction_def)
  next
    case False
    then have "MF' \<noteq> []" using len by auto
    then show ?thesis
      unfolding fwdRunsAs_def
      by (rule_tac list_all2_all_nthI)
        (use False len st fwdRunsAsD(2) [OF assms(1)] in
          \<open>simp_all add: fwd_runOnMachineFunction_def Let_def runsAs_transfer\<close>)
  qed
qed

text \<open>
  C19.  register value forwarding (V6ClangRegValueForwarding.cpp) keeps the meaning of a function, across its
  blocks and their loops: when the worklist has drained within its budget and nothing jumps to the entry
  block, a run of the function that returns, whatever immediates the spills have put into it, is matched by
  a run of the new function that returns in the same state.
\<close>

theorem regForward_function_correct:
  assumes "fwdRunsAs patched MF MF'" "fwdOk MF'" "List.member RPOT 0" "list_all (\<lambda>N. N < length MF) RPOT"
    and "fst (fwdLoop patched MF (fwdBudget MF) RPOT noStates) = []" "returns env (map fwdInstrs MF') 0 s s'"
  shows "\<exists>out. fwdRunsAs patched (snd (fwd_runOnMachineFunction disabled patched RPOT MF)) out \<and>
    returns env (map fwdInstrs out) 0 s s'"
proof -
  let ?out = "snd (fwd_runOnMachineFunction disabled patched RPOT MF')"
  let ?st = "snd (fwdLoop patched MF (fwdBudget MF) RPOT noStates)"
  have cfg: "cfgOk MF'" "cfgOk MF" using assms(2) fwdRunsAs_cfgOk [OF assms(1)] by (simp_all add: fwdOk_def)
  note len = fwdRunsAsD(1) [OF assms(1)]
  have loop: "fwdLoop patched MF' (fwdBudget MF') RPOT noStates = ([], ?st)"
    using assms(5) runsAs_fwdLoop [OF assms(1) cfg(2), of RPOT] assms(4) unfolding fwdBudget_def len
    by (simp add: list_all_iff prod_eq_iff)
  have start: "0 \<in> set RPOT" "list_all (\<lambda>N. N < length MF') RPOT" using assms(3,4) len by simp_all
  have "returns env (map fwdInstrs ?out) 0 s s'"
  proof (cases disabled)
    case True
    then show ?thesis using assms(6) by (simp add: fwd_runOnMachineFunction_def)
  next
    case False
    have "fwdRel MF' RPOT patched ?st 0 s s"
      using fwd_solution(1,2) [OF cfg(1) start loop] start loop assms(2) by (simp add: fwdRel_def)
    from forwarding.returns_sim [OF assms(6) this] show ?thesis
      using False runOn_forwarded [of patched RPOT MF'] loop by simp
  qed
  then show ?thesis using fwdRunsAs_runOn [OF assms(1) cfg(2) assms(4)] by blast
qed

text \<open>
  A loop that B counts.  A holds D already, in every round and behind the loop; C gets a byte that a spill
  patches.
\<close>

definition fwdMOV :: "preg \<Rightarrow> preg \<Rightarrow> machine_instr" where
  "fwdMOV d r = BuildMI MOVrr [addRegDef d, addReg r]"

definition fwdDCR :: "preg \<Rightarrow> machine_instr" where
  "fwdDCR r = BuildMI DCRr [addRegDef r, addReg r]"

definition intoC :: "machine_instr \<Rightarrow> bool" where
  "intoC m \<longleftrightarrow> opcode m = MVIr \<and> opReg m 0 = Some C"

definition fwdDemo :: "int \<Rightarrow> fwd_block list" where
  "fwdDemo i =
    [\<lparr>fwdPreds = [], fwdSuccs = [1], fwdInstrs = [fwdMOV A D, MVIi B 2]\<rparr>,
     \<lparr>fwdPreds = [0, 1], fwdSuccs = [1, 2], fwdInstrs = [fwdMOV A D, fwdDCR B, JNZi 1]\<rparr>,
     \<lparr>fwdPreds = [1], fwdSuccs = [], fwdInstrs = [MVIi C i, fwdMOV D A, BuildMI RET []]\<rparr>]"

lemma fwdDemo_new:
  "map fwdInstrs (snd (fwd_runOnMachineFunction False intoC [0, 1, 2] (fwdDemo 0))) =
    [[fwdMOV A D, MVIi B 2],
     [fwdDCR B, JNZi 1],
     [MVIi C 0, BuildMI RET []]]"
  by code_simp

lemma fwdDemo_drained: "fst (fwdLoop intoC (fwdDemo 0) (fwdBudget (fwdDemo 0)) [0, 1, 2] noStates) = []"
  by code_simp

lemma fwdDemo_ok: "fwdOk (fwdDemo 1)"
  by code_simp

lemma fwdDemo_returns: "\<exists>t. returns env (map fwdInstrs (fwdDemo 1)) 0 s t"
proof -
  let ?F = "map fwdInstrs (fwdDemo 1)"
  define dcr where "dcr x = (setR A (r8 x D) (setR B (r8 x B - 1) x))\<lparr>fl := snd (alu_dcr (r8 x B) (fl x))\<rparr>" for x
  define u where "u = setR B 2 (setR A (r8 s D) s)"
  note eval = fwdDemo_def fwdMOV_def fwdDCR_def exec_simps
  have regs: "r8 u B = 2" "r8 u A = r8 s D" "r8 u D = r8 s D" by (simp_all add: u_def)
  have 0: "run env (?F ! 0) s = Some (Next, u)" by (simp add: eval u_def lo8_def)
  have 1: "run env (?F ! 1) u = Some (Goto 1, dcr u)"
    using regs by (simp add: eval dcr_def alu_dcr_def Let_def setR_def fun_upd_twist fun_upd_idem)
  have 2: "run env (?F ! 1) (dcr u) = Some (Next, dcr (dcr u))"
    using regs by (simp add: eval dcr_def alu_dcr_def Let_def setR_def fun_upd_twist fun_upd_idem)
  have 3: "\<exists>t. run env (?F ! 2) (dcr (dcr u)) = Some (Return, t)" by (simp add: eval step_def)
  have "reaches env ?F 0 s 2 (dcr (dcr u))"
    by (rule reaches.block [OF _ 0, of 1], simp add: fwdDemo_def, simp add: fwdDemo_def goes_def)
      (rule reaches.block [OF _ 1, of 1], simp add: fwdDemo_def, simp add: fwdDemo_def goes_def,
       rule reaches.block [OF _ 2, of 2], simp add: fwdDemo_def, simp add: fwdDemo_def goes_def, rule reaches.here)
  moreover have "2 < length ?F" by (simp add: fwdDemo_def)
  ultimately show ?thesis using 3 unfolding returns_def by blast
qed

theorem regForward_function_correct_witness:
  "\<forall>env s. \<exists>s' out. returns env (map fwdInstrs (fwdDemo 1)) 0 s s' \<and>
    fwdRunsAs intoC (snd (fwd_runOnMachineFunction False intoC [0, 1, 2] (fwdDemo 0))) out \<and>
    returns env (map fwdInstrs out) 0 s s'"
proof (intro allI)
  fix env s
  obtain s' where s': "returns env (map fwdInstrs (fwdDemo 1)) 0 s s'" using fwdDemo_returns by blast
  have "fwdRunsAs intoC (fwdDemo 0) (fwdDemo 1)"
    by (simp add: fwdRunsAs_def fwdDemo_def runsAs_def intoC_def opImm_def opReg_def BuildMI_def)
  moreover have "List.member [0, 1, 2] (0::nat)" "list_all (\<lambda>N. N < length (fwdDemo 0)) [0, 1, 2]"
    by (simp_all add: fwdDemo_def)
  ultimately show "\<exists>s' out. returns env (map fwdInstrs (fwdDemo 1)) 0 s s' \<and>
      fwdRunsAs intoC (snd (fwd_runOnMachineFunction False intoC [0, 1, 2] (fwdDemo 0))) out \<and>
      returns env (map fwdInstrs out) 0 s s'"
    using regForward_function_correct [OF _ fwdDemo_ok, of intoC "fwdDemo 0" "[0, 1, 2]" env s s' False]
      fwdDemo_drained s' by blast
qed

section \<open>What the analysis does not see\<close>

text \<open>
  The state at the entry is the meet over its predecessors like that of any block: what the caller leaves
  is not met with it.  If the entry block is a loop, a move that is redundant only from the second round on is
  erased in the first round as well.
\<close>

definition fwdEntryLoop :: "fwd_block list" where
  "fwdEntryLoop =
    [\<lparr>fwdPreds = [0], fwdSuccs = [0, 1], fwdInstrs = [fwdMOV A D, fwdDCR B, JNZi 0]\<rparr>,
     \<lparr>fwdPreds = [0], fwdSuccs = [], fwdInstrs = [BuildMI RET []]\<rparr>]"

lemma fwdEntryLoop_new:
  "fwd_runOnMachineFunction False (\<lambda>_. False) [0, 1] fwdEntryLoop =
    (True, [\<lparr>fwdPreds = [0], fwdSuccs = [0, 1], fwdInstrs = [fwdDCR B, JNZi 0]\<rparr>,
     \<lparr>fwdPreds = [0], fwdSuccs = [], fwdInstrs = [BuildMI RET []]\<rparr>])"
  by code_simp

theorem regForward_entry_loop_unsound:
  "fst (fwdLoop (\<lambda>_. False) fwdEntryLoop (fwdBudget fwdEntryLoop) [0, 1] noStates) = [] \<and>
   (\<exists>t t'. returns env (map fwdInstrs fwdEntryLoop) 0 (setR A 2 (setR D 3 (setR B 1 s))) t \<and> r8 t A = 3 \<and>
     returns env (map fwdInstrs (snd (fwd_runOnMachineFunction False (\<lambda>_. False) [0, 1] fwdEntryLoop))) 0
       (setR A 2 (setR D 3 (setR B 1 s))) t' \<and> r8 t' A = 2)"
proof
  show "fst (fwdLoop (\<lambda>_. False) fwdEntryLoop (fwdBudget fwdEntryLoop) [0, 1] noStates) = []" by code_simp
  let ?s = "setR A 2 (setR D 3 (setR B 1 s))"
  have ret: "\<exists>t. returns env [ms, [BuildMI RET []]] 0 ?s t \<and> r8 t = r8 u" if "run env ms ?s = Some (Next, u)" for ms u
  proof -
    have "reaches env [ms, [BuildMI RET []]] 0 ?s 1 u"
      by (rule reaches.block [of 0 _ env ?s Next u 1]) (use that in \<open>simp_all add: goes_def reaches.here\<close>)
    moreover have "run env [BuildMI RET []] u = Some (Return, u\<lparr>sp := sp u + 2\<rparr>)" by (simp add: exec_simps step_def)
    ultimately have "returns env [ms, [BuildMI RET []]] 0 ?s (u\<lparr>sp := sp u + 2\<rparr>)"
      unfolding returns_def by (intro exI [of _ 1] exI [of _ u]) simp
    then show ?thesis by fastforce
  qed
  note eval = fwdMOV_def fwdDCR_def exec_simps alu_dcr_def Let_def
  obtain u where u: "run env [fwdMOV A D, fwdDCR B, JNZi 0] ?s = Some (Next, u)" "r8 u A = 3" by (simp add: eval)
  obtain u' where u': "run env [fwdDCR B, JNZi 0] ?s = Some (Next, u')" "r8 u' A = 2" by (simp add: eval)
  obtain t t' where "returns env [[fwdMOV A D, fwdDCR B, JNZi 0], [BuildMI RET []]] 0 ?s t" "r8 t A = 3"
    and "returns env [[fwdDCR B, JNZi 0], [BuildMI RET []]] 0 ?s t'" "r8 t' A = 2"
    using ret [OF u(1)] ret [OF u'(1)] u(2) u'(2) by auto
  then show "\<exists>t t'. returns env (map fwdInstrs fwdEntryLoop) 0 ?s t \<and> r8 t A = 3 \<and>
      returns env (map fwdInstrs (snd (fwd_runOnMachineFunction False (\<lambda>_. False) [0, 1] fwdEntryLoop))) 0 ?s t' \<and> r8 t' A = 2"
    unfolding fwdEntryLoop_new by (intro exI [of _ t] exI [of _ t']) (simp add: fwdEntryLoop_def)
qed

text \<open>
  Knowing more does not always leave more known: if B is known to be 5, a move from B says that A is 5 and
  no longer that A is B.
\<close>

theorem regForward_transfer_not_monotone:
  "Map.empty \<subseteq>\<^sub>m [B \<mapsto> Const 5] \<and> transfer patched Map.empty [fwdMOV A B] = ([A \<mapsto> Reg B], [fwdMOV A B], False) \<and>
   transfer patched [B \<mapsto> Const 5] [fwdMOV A B] = ([B \<mapsto> Const 5, A \<mapsto> Const 5], [fwdMOV A B], False)"
  by (simp add: transferInstr_def fwdMOV_def BuildMI_def opReg_def isDebugInstr_def getCanon_def clobberReg_def
      eraseIf_def fun_eq_iff)

end
