(* ===== verification/Spec2Isabelle.thy ===== *)
theory Spec2Isabelle
  imports ScanSound InstrCost CopyReg Branches ExpandArith ExpandAdd ExpandLogic ExpandCmp ExpandShiftRight ExpandStore16 DispatchRefine DispatchType PackedSections StaticStackAlloc XchgOpt FlagOpts MachineCode LoadImmFunc XchgFunc FlagFunc RegForward
begin

text \<open>
  A development beside V6CLANG, the Intel 8080 back end of this LLVM tree.  The part of the tree that is
  this project's own code is \<open>llvm/lib/Target/V6Clang\<close> (the back end), \<open>lld/ELF/V6ClangPackedSections.cpp\<close> and
  \<open>lld/ELF/Arch/V6Clang.cpp\<close> (the linker), all under \<open>src/\<close>; the rest is upstream LLVM.  The development models the
  path from machine IR after register allocation to linked bytes, and the passes on it whose correctness
  is not evident.

  \<^bold>\<open>How the parts interact.\<close>  Instruction selection and register allocation leave functions in machine IR: blocks of
  instructions over physical registers, among them pseudo instructions that only say what 16-bit operation
  is meant.  \<open>expandPostRAPseudo\<close> (V6ClangInstrInfo.cpp) replaces each pseudo by 8080 instructions; which
  sequence it takes depends on which registers are dead at that point, which constants are known, and on the
  cost model (V6ClangInstrCost.h).  Passes over the expanded blocks follow (XCHG formation, zero tests,
  redundant flag tests, immediate loads, register value forwarding), and before them static stack allocation decides which functions may keep
  their frame in a global variable.  The MC layer lowers and encodes what is left, the assembler back end and
  the linker patch addresses, and the linker places the packed zero-initialised sections.

  \<^bold>\<open>Theories, from the machine upwards.\<close>

  \<^item> \<open>Prelude\<close>: bytes, words, their halves, carries, and the collections \<open>exec_simps\<close> and others that the proofs
    share.  \<open>I8080\<close>: registers and register classes (V6ClangRegisterInfo.td) and the state of the processor,
    the reference the emitted code is judged against.
  \<^item> \<open>MIR\<close>: opcodes, pseudos, implicit operands and flags of the instruction descriptions (V6ClangInstrInfo.td), machine operands
    and \<open>BuildMI\<close>.  \<open>Exec\<close>: \<open>exec\<close>, one machine instruction; \<open>run\<close>, a block up to the instruction that
    leaves it.  The exit (fall through, a block, return) is a value; what has no straight-line meaning (calls, HLT, pseudos) is \<open>None\<close>.  The environment \<open>senv\<close>
    gives the addresses of symbols and the values that input ports deliver; both are parameters, as the code leaves them to the linker
    and the outside.
  \<^item> \<open>Liveness\<close>, \<open>LivenessSound\<close>, \<open>ScanSound\<close>: the scans of V6ClangInstrInfo.cpp (\<open>isRegDeadAfter\<close>, \<open>isRegDeadAtMI\<close>, \<open>findDeadGR8AtMI\<close>,
    \<open>isRegLiveBefore\<close>, \<open>priorClearsCarry\<close>, \<open>findDefiningLXI\<close>).  The record \<open>mbb_ctx\<close> is what an expansion sees
    around its pseudo.  The locale \<open>dead_scan\<close> is the contract between a machine and the scan: an instruction that
    does not read a register runs alike from states that differ in it, one that writes it makes them equal.
  \<^item> \<open>Frame\<close>, \<open>Exits\<close>, \<open>Emit\<close>: how theorems about emitted code are stated.  \<open>unchanged\<close> is equality outside
    named registers and memory cells; \<open>same_exit\<close> compares how two blocks leave; the locale \<open>flag_agreement\<close> carries two
    runs whose states differ in flags that nobody reads.
  \<^item> \<open>InstrCost\<close>, \<open>CopyReg\<close>, \<open>Branches\<close>: the cost record, \<open>copyPhysReg\<close>, and the branch analysis with
    \<open>analyzeBranch\<close>, \<open>removeBranch\<close>, \<open>insertBranch\<close>.
  \<^item> \<open>ExpandArith\<close>, \<open>ExpandAdd\<close>, \<open>ExpandLogic\<close>, \<open>ExpandCmp\<close>, \<open>ExpandShift\<close>, \<open>ExpandShiftRight\<close>, \<open>ExpandMem8\<close>, \<open>ExpandMem16\<close>,
    \<open>ExpandStore16\<close>: one definition \<open>expand_P\<close> for each case P of the switch in \<open>expandPostRAPseudo\<close>, with the C++ conditions in
    their order, and its correctness.  The locales \<open>bytewise\<close> (AND, OR, XOR by halves) and \<open>mem_op\<close> (an operation on a
    memory cell) state what several cases share.
  \<^item> \<open>Dispatch\<close>, \<open>DispatchRefine\<close>, \<open>DispatchType\<close>: the whole switch with the decoding of operands; \<open>data_step\<close> is the abstract
    meaning of a data pseudo, and the expansion refines it.
  \<^item> \<open>XchgOpt\<close> (V6ClangXchgOpt.cpp), \<open>FlagOpts\<close> (V6ClangZeroTestOpt.cpp, V6ClangRedundantFlagElim.cpp): passes
    over expanded blocks, with their loops as recursive functions.
  \<^item> \<open>LoadImmCombine\<close>, \<open>LoadImmSound\<close>, \<open>LoadImmFunc\<close> (V6ClangLoadImmCombine.cpp): the table \<open>KnownVal\<close> is a partial map
    from byte registers to integers, \<open>track\<close> is what both loops of the pass do to it for one instruction; the table
    is right on every edge it is built for, and the new block does what the old one did.
  \<^item> \<open>RegForward\<close> (V6ClangRegValueForwarding.cpp): a dataflow with a worklist.  \<open>transfer\<close> is one block, \<open>fwdLoop\<close> the
    worklist with its budget, \<open>settled\<close> its invariant: every edge out of a computed block respects the states or
    leads to a block still in the worklist.
  \<^item> \<open>FuncSim\<close>, with \<open>LoadImmFunc\<close>, \<open>XchgFunc\<close>, \<open>FlagFunc\<close>, \<open>RegForward\<close>: from blocks to functions.  \<open>reaches\<close> is the step relation of a
    function given by its blocks; the locale \<open>block_simulation\<close> lifts a relation that every pair of blocks keeps to
    whole runs, loops included, and is interpreted on each pass.
  \<^item> \<open>StaticStackAlloc\<close> (V6ClangStaticStackAlloc.cpp): reachability from interrupt handlers, eligibility and the layout of the
    frames; \<open>active\<close> describes the call stacks that a run can have.
  \<^item> \<open>MCFixup\<close> (V6ClangAsmBackend.cpp, lld's Arch/V6Clang.cpp), \<open>MCEncode\<close> (V6ClangMCInstLower.cpp, V6ClangMCCodeEmitter.cpp,
    V6ClangMCExpr.cpp and the formats in V6ClangInstrFormats.td), \<open>MachineCode\<close>: from machine instructions to linked
    bytes, and an 8080 processor that fetches and decodes them.
  \<^item> \<open>PackedSections\<close> (V6ClangPackedSections.cpp): anchors, windows and fillers of the linker's packed sections.

  \<^bold>\<open>What the lemmas show.\<close>  (1) The liveness and constant scans tell the truth about executions of the block, under
  the hypotheses their C++ callers meet.  (2) Each expansion, on every path, computes its operation modulo
  \<open>2 ^ 8\<close> or \<open>2 ^ 16\<close> and changes nothing but its destination and registers the scans report dead; composed with (1), a block with the expansion
  in place of the pseudo leaves to the same successor in a state that no successor can tell from the one the abstract
  operation gives.  (3) Every expansion is well typed: executable opcodes, operands in their classes.  (4) The passes keep the
  meaning of blocks and of whole functions, under conditions that are stated as boolean functions of them.  (5) An eligible function is never active twice when interrupt
  code calls by name and calls no external function but leaves;
  its slots do not overlap.  (6) Assembler and linker patch alike, and the processor does with the bytes of a block what
  \<open>run\<close> says of the instructions.  (7) A packed layout is in bounds, aligned and free of overlaps, and it succeeds whenever
  there is room.  (8) Where the code does not do what it means to, a theorem gives the input: the sign-flag
  comparison that ignores overflow, the pair queries of the dead scan, the window of the constant scan, the
  LXI erased under a reader, clobbered addresses, SP added after a push, functions re-entered through a pointer or an external function, stale flags, a seed from a patched immediate, a loop at the entry.
  The functional theorems exclude these inputs by hypotheses, which the text before each names.

  \<^bold>\<open>Hypotheses and bounds.\<close>  \<open>wf_instr\<close> says that the operand list of an instruction agrees with what its description reads and
  writes (LLVM's machine verifier); \<open>pairs_ok\<close> and \<open>pair_scan_ok\<close> that the scan is right about the pairs it is asked for.  \<open>lxi_value\<close> says that a constant the scan reports is the one the pair holds, \<open>expansion_ok\<close> collects what each pseudo needs. \<open>off_stack\<close> keeps a data address away from the two bytes below
  SP that a PUSH uses.  \<open>interrupts_direct\<close> is a condition on the module that the static-stack pass
  does not check, and \<open>attributes_hold\<close> the documented meaning of norecurse, nocallback and leaf. There is no fuel but the code's own budget in \<open>fwdLoop\<close>, and the theorem about it assumes that the worklist drains within it; every other loop is a terminating function (the scans walk a list; the XCHG loops decrease
  the number of moves and XCHGs; the worklist of the interrupt search the functions not yet reached; the flag loop the block; the
  call-graph search grows its visited set).  Costs are unbounded integers; \<open>cost_in_range\<close>, below \<open>2 ^ 16\<close>, is what real sequences reach.
  Addresses in the linker are naturals below \<open>2 ^ 64\<close>, with the checks of the code's \<open>checkedAdd\<close>.

  \<^bold>\<open>Not modelled.\<close>  Frame lowering, frame index elimination, spill expansion, spill forwarding, patched reloads, load/store and
  SP optimizations: they work on frame indices and
  stack offsets that the machine operands of the model carry only as far as the spill pseudos need.
  The post-RA peephole and the branch optimizer: collections of local rewrites over
  whole functions, for which \<open>FuncSim\<close> is the start.  DAG lowering, selection, cost hints and the IR passes (type
  narrowing, loop pointer induction, alloca promotion, constant sinking, dead phis) build or match objects of upstream LLVM whose code
  and meaning lie outside the project.  Debug metadata, assembly text, command-line tables and pass registration carry no logic of their own.
  Cycle counts enter only as the costs the code compares; interrupts only through the call stacks of \<open>StaticStackAlloc\<close>.
\<close>

end
